(* ===== verification/Probe_Prelude.thy ===== *)
theory Probe_Prelude
  imports Main "HOL-Library.Word"
begin

text \<open>
  Shared vocabulary of the development: the fixed-width integers of the Rust code, the
  outcome of a fallible computation (a value, an error, or a panic), checked reads of byte
  slices, big-endian and little-endian byte conversions, and the collections of facts the
  component theories feed to the simplifier.

  A Rust slice read \<open>xs[i]\<close> or \<open>xs[a..b]\<close> panics when it is out of range.  The
  reads of this theory (\<open>idx\<close>, \<open>rd16\<close>, \<open>subslice\<close>) return \<open>Panic\<close> exactly then, so that
  \<open>f x \<noteq> Panic\<close> states that the code never reads out of range.  \<open>usize\<close> offsets are
  \<open>nat\<close>: every sum the code forms is bounded by a slice length (at most \<open>isize::MAX\<close>)
  plus a few 16-bit or 24-bit lengths, which cannot wrap a 64-bit \<open>usize\<close>.
\<close>

unbundle bit_operations_syntax

named_theorems run_simps "unfolding rules for computations that may fail or panic"
named_theorems bytes_simps "facts about byte conversions"

section \<open>Machine integers\<close>

type_synonym u8 = "8 word"
type_synonym u16 = "16 word"
type_synonym u32 = "32 word"
type_synonym u64 = "64 word"
type_synonym bytes = "u8 list"

section \<open>Outcomes\<close>

datatype ('e, 'a) run = Ret 'a | Fail 'e | Panic

fun rbind :: "('e, 'a) run \<Rightarrow> ('a \<Rightarrow> ('e, 'b) run) \<Rightarrow> ('e, 'b) run" where
  "rbind (Ret x) f = f x"
| "rbind (Fail e) f = Fail e"
| "rbind Panic f = Panic"

text \<open>\<open>guard_or c e r\<close> is an early \<open>return Err(e)\<close> taken when \<open>c\<close> does not hold.\<close>

definition guard_or :: "bool \<Rightarrow> 'e \<Rightarrow> ('e, 'a) run \<Rightarrow> ('e, 'a) run" where
  "guard_or c e r = (if c then r else Fail e)"

definition run_map :: "('a \<Rightarrow> 'b) \<Rightarrow> ('e, 'a) run \<Rightarrow> ('e, 'b) run" where
  "run_map f r = rbind r (\<lambda>x. Ret (f x))"

lemma run_map_simps [simp]:
  "run_map f (Ret x) = Ret (f x)"
  "run_map f (Fail e) = Fail e"
  "run_map f Panic = Panic"
  by (simp_all add: run_map_def)

lemma rbind_eq_Ret: "rbind r f = Ret y \<longleftrightarrow> (\<exists>x. r = Ret x \<and> f x = Ret y)"
  by (cases r) auto

lemma rbind_eq_Panic: "rbind r f = Panic \<longleftrightarrow> r = Panic \<or> (\<exists>x. r = Ret x \<and> f x = Panic)"
  by (cases r) auto

lemma rbind_assoc: "rbind (rbind r f) g = rbind r (\<lambda>x. rbind (f x) g)"
  by (cases r) auto

lemma rbind_cong_fun: "(\<And>x. f x = g x) \<Longrightarrow> rbind r f = rbind r g"
  by (cases r) auto

lemma run_map_eq_Panic [simp]: "run_map f r = Panic \<longleftrightarrow> r = Panic"
  by (cases r) auto

lemma run_map_eq_Ret: "run_map f r = Ret y \<longleftrightarrow> (\<exists>x. r = Ret x \<and> y = f x)"
  by (cases r) auto

lemma guard_or_True [simp]: "guard_or True e r = r"
  by (simp add: guard_or_def)

lemma guard_or_False [simp]: "guard_or False e r = Fail e"
  by (simp add: guard_or_def)

lemma guard_or_eq_Ret: "guard_or c e r = Ret y \<longleftrightarrow> c \<and> r = Ret y"
  by (simp add: guard_or_def)

section \<open>Checked reads\<close>

definition idx :: "'a list \<Rightarrow> nat \<Rightarrow> ('e, 'a) run" where
  "idx xs i = (if i < length xs then Ret (xs ! i) else Panic)"

definition subslice :: "'a list \<Rightarrow> nat \<Rightarrow> nat \<Rightarrow> ('e, 'a list) run" where
  "subslice xs a b = (if a \<le> b \<and> b \<le> length xs then Ret (take (b - a) (drop a xs)) else Panic)"

lemma idx_in [run_simps]: "i < length xs \<Longrightarrow> idx xs i = Ret (xs ! i)"
  by (simp add: idx_def)

lemma idx_out: "\<not> i < length xs \<Longrightarrow> idx xs i = Panic"
  by (simp add: idx_def)

lemma subslice_in [run_simps]:
  "a \<le> b \<Longrightarrow> b \<le> length xs \<Longrightarrow> subslice xs a b = Ret (take (b - a) (drop a xs))"
  by (simp add: subslice_def)

lemma idx_not_Fail [simp]: "idx xs i \<noteq> Fail e"
  by (simp add: idx_def)

lemma subslice_not_Fail [simp]: "subslice xs a b \<noteq> Fail e"
  by (simp add: subslice_def)

lemma nth_append_shift: "i \<ge> length xs \<Longrightarrow> (xs @ ys) ! i = ys ! (i - length xs)"
  by (simp add: nth_append)

lemma take_drop_append_mid:
  "length pre = a \<Longrightarrow> length mid = n \<Longrightarrow> take n (drop a (pre @ mid @ post)) = mid"
  by simp

section \<open>Big-endian conversions\<close>

text \<open>\<open>u16::from_be_bytes([hi, lo])\<close> and \<open>to_be_bytes\<close>.\<close>

definition be16 :: "u8 \<Rightarrow> u8 \<Rightarrow> u16" where
  "be16 hi lo = of_nat (unat hi * 256 + unat lo)"

definition be16_bytes :: "u16 \<Rightarrow> bytes" where
  "be16_bytes w = [of_nat (unat w div 256), ucast w]"

definition rd16 :: "bytes \<Rightarrow> nat \<Rightarrow> ('e, u16) run" where
  "rd16 xs i = rbind (idx xs i) (\<lambda>hi. rbind (idx xs (i + 1)) (\<lambda>lo. Ret (be16 hi lo)))"

lemma unat_u8_less: "unat (b :: u8) < 256"
  using unsigned_less [of b, where ?'a = nat] by simp

lemma unat_u16_less: "unat (w :: u16) < 65536"
  using unsigned_less [of w, where ?'a = nat] by simp

lemma unat_of_nat16: "n < 65536 \<Longrightarrow> unat (of_nat n :: u16) = n"
  by (simp add: unat_of_nat)

lemma unat_of_nat8: "n < 256 \<Longrightarrow> unat (of_nat n :: u8) = n"
  by (simp add: unat_of_nat)

lemma unat_be16 [bytes_simps]: "unat (be16 hi lo) = unat hi * 256 + unat lo"
proof -
  have "unat hi * 256 + unat lo < 2 ^ LENGTH(16)"
    using unat_u8_less [of hi] unat_u8_less [of lo] by simp
  then show ?thesis
    unfolding be16_def by (subst unat_of_nat) simp
qed

lemma be16_of_bytes [bytes_simps]:
  "be16 (of_nat (unat w div 256)) (ucast w) = w"
proof -
  have "unat w div 256 < 256"
    using unat_u16_less [of w] by simp
  then have "unat (of_nat (unat w div 256) :: u8) = unat w div 256"
    by (simp add: unat_of_nat)
  moreover have "unat (ucast w :: u8) = unat w mod 256"
    by (simp add: unsigned_ucast_eq take_bit_eq_mod)
  ultimately show ?thesis
    by (simp add: be16_def)
qed

lemma length_be16_bytes [simp]: "length (be16_bytes w) = 2"
  by (simp add: be16_bytes_def)

lemma rd16_in:
  "i + 1 < length xs \<Longrightarrow> rd16 xs i = Ret (be16 (xs ! i) (xs ! (i + 1)))"
  by (simp add: rd16_def idx_in)

lemma rd16_not_Fail [simp]: "rd16 xs i \<noteq> Fail e"
  by (auto simp: rd16_def idx_def)

lemma rd16_Panic_iff: "rd16 xs i = Panic \<longleftrightarrow> \<not> i + 1 < length xs"
  by (auto simp: rd16_def idx_def)

lemma rd16_append:
  assumes "length pre = i"
  shows "rd16 (pre @ be16_bytes w @ post) i = Ret w"
proof -
  have "(pre @ be16_bytes w @ post) ! i = of_nat (unat w div 256)"
    and "(pre @ be16_bytes w @ post) ! (i + 1) = ucast w"
    using assms by (simp_all add: be16_bytes_def nth_append)
  with assms show ?thesis
    by (simp add: rd16_in be16_of_bytes)
qed

section \<open>Little-endian conversions\<close>

text \<open>
  The in-memory layout of a \<open>repr(C)\<close> struct on the little-endian targets the probe is
  built for (\<open>bpfel-unknown-none\<close> on the kernel side).
\<close>

fun le_bytes :: "nat \<Rightarrow> nat \<Rightarrow> bytes" where
  "le_bytes 0 v = []"
| "le_bytes (Suc n) v = of_nat v # le_bytes n (v div 256)"

fun le_val :: "bytes \<Rightarrow> nat" where
  "le_val [] = 0"
| "le_val (b # bs) = unat b + 256 * le_val bs"

lemma length_le_bytes [simp]: "length (le_bytes n v) = n"
  by (induction n arbitrary: v) simp_all

lemma le_val_le_bytes: "v < 256 ^ n \<Longrightarrow> le_val (le_bytes n v) = v"
proof (induction n arbitrary: v)
  case 0
  then show ?case by simp
next
  case (Suc n)
  then have "v div 256 < 256 ^ n"
    by (simp add: less_mult_imp_div_less mult.commute)
  with Suc.IH have "le_val (le_bytes n (v div 256)) = v div 256"
    by blast
  then show ?case
    by (simp add: unat_of_nat)
qed

lemma le_word_roundtrip:
  fixes w :: "'a::len word"
  assumes "LENGTH('a) = 8 * n"
  shows "of_nat (le_val (le_bytes n (unat w))) = w"
proof -
  have "unat w < 2 ^ (8 * n)"
    using unsigned_less [of w, where ?'a = nat] assms by simp
  then have "unat w < 256 ^ n"
    by (simp add: power_mult)
  then show ?thesis
    by (simp add: le_val_le_bytes)
qed

section \<open>Lists\<close>

lemma drop_unfold1: "i < length xs \<Longrightarrow> drop i xs = xs ! i # drop (i + 1) xs"
  by (simp add: Cons_nth_drop_Suc)

lemma drop_unfold2:
  "i + 2 \<le> length xs \<Longrightarrow> drop i xs = xs ! i # xs ! (i + 1) # drop (i + 2) xs"
  by (simp add: drop_unfold1 [of i] drop_unfold1 [of "Suc i"])

text \<open>
  Reads at an offset, in terms of the bytes \<open>r\<close> that remain there; \<open>r\<close> is kept opaque so
  that the simplifier does not renormalise the index arithmetic.
\<close>

lemma rd16_rest:
  assumes "r = drop off d" "off + 1 < length d"
  shows "rd16 d off = Ret (be16 (r ! 0) (r ! 1))"
  using assms by (simp add: rd16_in)

lemma rd16_rest2:
  assumes "r = drop off d" "off + 3 < length d"
  shows "rd16 d (Suc (Suc off)) = Ret (be16 (r ! 2) (r ! 3))"
  using assms by (simp add: rd16_in numeral_3_eq_3)

lemma idx_rest:
  assumes "r = drop off d" "off < length d"
  shows "idx d off = Ret (r ! 0)"
  using assms by (simp add: idx_in)

lemma subslice_rest:
  assumes "r = drop off d" "off + a + n \<le> length d"
  shows "subslice d (off + a) (off + a + n) = Ret (take n (drop a r))"
  using assms by (simp add: subslice_in add.commute)

text \<open>Reads that consume the front of what remains at an offset.\<close>

lemma drop_eat: "drop off p = xs @ rest \<Longrightarrow> drop (off + length xs) p = rest"
  by (metis add.commute append_eq_conv_conj drop_drop)

lemma rd16_eat:
  assumes "drop off p = be16_bytes w @ rest"
  shows "rd16 p off = Ret w"
proof -
  have "drop off p \<noteq> []"
    using assms by (simp add: be16_bytes_def)
  then have "length (take off p) = off"
    by simp
  moreover have "p = take off p @ be16_bytes w @ rest"
    using assms by (metis append_take_drop_id)
  ultimately show ?thesis
    by (metis rd16_append)
qed

lemma be16_eat:
  assumes "drop off p = be16_bytes w @ rest"
  shows "be16 (p ! off) (p ! Suc off) = w"
proof -
  have "length (drop off p) \<ge> 2"
    using assms by simp
  then have "rd16 p off = (Ret (be16 (p ! off) (p ! Suc off)) :: (unit, u16) run)"
    by (simp add: rd16_in)
  moreover have "rd16 p off = (Ret w :: (unit, u16) run)"
    by (rule rd16_eat [OF assms])
  ultimately show ?thesis
    by simp
qed

lemma idx_eat: "drop off p = b # rest \<Longrightarrow> idx p off = Ret b"
  by (metis drop_eq_Nil2 idx_in linorder_not_le list.distinct(1) list.sel(1) hd_drop_conv_nth)

lemma subslice_eat:
  "drop off p = xs @ rest \<Longrightarrow> off + length xs \<le> length p \<Longrightarrow>
     subslice p off (off + length xs) = Ret xs"
  by (simp add: subslice_in)

lemma length_eat: "drop off p = xs \<Longrightarrow> xs \<noteq> [] \<Longrightarrow> length p = off + length xs"
  by (metis add_diff_inverse_nat drop_eq_Nil2 length_drop linorder_not_le nat_less_le)

lemma drop_rest: "r = drop off d \<Longrightarrow> drop (off + n) d = drop n r"
  by (simp add: add.commute)

lemma length_rest: "r = drop off d \<Longrightarrow> length r = length d - off"
  by simp

lemma take_add_drop: "take a xs @ take b (drop a xs) = take (a + b) xs"
  by (simp add: take_add)

lemma filter_filter_same [simp]: "filter P (filter P xs) = filter P xs"
  by simp

end
