(* ===== verification/Rust_Std.thy ===== *)
theory Rust_Std
  imports Probe_Prelude "HOL-Library.Sublist"
begin

text \<open>
  What the program uses of the Rust standard library on strings and numbers.

  A Rust \<open>String\<close> is a UTF-8 byte sequence; it is modelled as a \<open>string\<close> whose characters are
  its bytes.  \<open>from_utf8\<close> and \<open>from_utf8_lossy\<close> follow the chunking of
  \<open>core::str::lossy\<close>: a maximal prefix of a well-formed sequence is consumed, and each
  ill-formed part becomes one U+FFFD.  \<open>dec\<close>, \<open>hex\<close>, \<open>hex4\<close> and \<open>dec2\<close> are the formats
  \<open>{}\<close>, \<open>{:x}\<close>, \<open>{:04x}\<close> and \<open>{:02}\<close> of an unsigned integer.
\<close>

section \<open>Strings as bytes\<close>

definition str_of_bytes :: "bytes \<Rightarrow> string" where
  "str_of_bytes bs = map (\<lambda>b. char_of (unat b)) bs"

definition bytes_of_str :: "string \<Rightarrow> bytes" where
  "bytes_of_str s = map (\<lambda>c. of_nat (of_char c)) s"

lemma length_str_of_bytes [simp]: "length (str_of_bytes bs) = length bs"
  by (simp add: str_of_bytes_def)

lemma str_of_bytes_append [simp]: "str_of_bytes (a @ b) = str_of_bytes a @ str_of_bytes b"
  by (simp add: str_of_bytes_def)

lemma bytes_of_str_of_bytes [simp]: "bytes_of_str (str_of_bytes bs) = bs"
proof -
  have "of_nat (unat b mod 256) = b" for b :: u8
    using unat_u8_less [of b] by simp
  then show ?thesis
    by (simp add: bytes_of_str_def str_of_bytes_def comp_def)
qed

section \<open>UTF-8\<close>

definition utf8_cont :: "u8 \<Rightarrow> bool" where
  "utf8_cont b = (0x80 \<le> b \<and> b \<le> 0xBF)"

definition utf8_width :: "u8 \<Rightarrow> nat" where
  "utf8_width b =
     (if b < 0x80 then 1
      else if 0xC2 \<le> b \<and> b \<le> 0xDF then 2
      else if 0xE0 \<le> b \<and> b \<le> 0xEF then 3
      else if 0xF0 \<le> b \<and> b \<le> 0xF4 then 4
      else 0)"

definition utf8_second3 :: "u8 \<Rightarrow> u8 \<Rightarrow> bool" where
  "utf8_second3 b n =
     ((b = 0xE0 \<and> 0xA0 \<le> n \<and> n \<le> 0xBF) \<or> (0xE1 \<le> b \<and> b \<le> 0xEC \<and> utf8_cont n) \<or>
      (b = 0xED \<and> 0x80 \<le> n \<and> n \<le> 0x9F) \<or> (0xEE \<le> b \<and> b \<le> 0xEF \<and> utf8_cont n))"

definition utf8_second4 :: "u8 \<Rightarrow> u8 \<Rightarrow> bool" where
  "utf8_second4 b n =
     ((b = 0xF0 \<and> 0x90 \<le> n \<and> n \<le> 0xBF) \<or> (0xF1 \<le> b \<and> b \<le> 0xF3 \<and> utf8_cont n) \<or>
      (b = 0xF4 \<and> 0x80 \<le> n \<and> n \<le> 0x8F))"

definition get_or0 :: "bytes \<Rightarrow> nat \<Rightarrow> u8" where
  "get_or0 xs i = (if i < length xs then xs ! i else 0)"

text \<open>The first code point of a non-empty sequence: is it well formed, and how many bytes go.\<close>

definition utf8_head :: "bytes \<Rightarrow> bool \<times> nat" where
  "utf8_head xs =
     (let b = get_or0 xs 0; w = utf8_width b in
      if w = 1 then (True, 1)
      else if w = 2 then (if utf8_cont (get_or0 xs 1) then (True, 2) else (False, 1))
      else if w = 3 then
        (if \<not> utf8_second3 b (get_or0 xs 1) then (False, 1)
         else if \<not> utf8_cont (get_or0 xs 2) then (False, 2) else (True, 3))
      else if w = 4 then
        (if \<not> utf8_second4 b (get_or0 xs 1) then (False, 1)
         else if \<not> utf8_cont (get_or0 xs 2) then (False, 2)
         else if \<not> utf8_cont (get_or0 xs 3) then (False, 3) else (True, 4))
      else (False, 1))"

lemma utf8_head_pos: "0 < snd (utf8_head xs)"
  by (simp add: utf8_head_def Let_def)

lemma utf8_drop_less [simp]: "xs \<noteq> [] \<Longrightarrow> length xs - snd (utf8_head xs) < length xs"
  by (rule diff_less [OF utf8_head_pos]) simp

function utf8_valid :: "bytes \<Rightarrow> bool" where
  "utf8_valid xs =
     (if xs = [] then True
      else fst (utf8_head xs) \<and> utf8_valid (drop (snd (utf8_head xs)) xs))"
  by pat_completeness auto
termination
  by (relation "measure length") simp_all

declare utf8_valid.simps [simp del]

function utf8_lossy :: "bytes \<Rightarrow> bytes" where
  "utf8_lossy xs =
     (if xs = [] then []
      else if fst (utf8_head xs)
      then take (snd (utf8_head xs)) xs @ utf8_lossy (drop (snd (utf8_head xs)) xs)
      else [0xEF, 0xBF, 0xBD] @ utf8_lossy (drop (snd (utf8_head xs)) xs))"
  by pat_completeness auto
termination
  by (relation "measure length") simp_all

declare utf8_lossy.simps [simp del]

definition from_utf8 :: "bytes \<Rightarrow> string option" where
  "from_utf8 bs = (if utf8_valid bs then Some (str_of_bytes bs) else None)"

definition from_utf8_lossy :: "bytes \<Rightarrow> string" where
  "from_utf8_lossy bs = str_of_bytes (utf8_lossy bs)"

lemma utf8_lossy_valid_id: "utf8_valid xs \<Longrightarrow> utf8_lossy xs = xs"
proof (induction xs rule: utf8_valid.induct)
  case (1 xs)
  show ?case
  proof (cases "xs = []")
    case True
    then show ?thesis by (simp add: utf8_lossy.simps)
  next
    case False
    with "1.prems" have "fst (utf8_head xs)" and "utf8_valid (drop (snd (utf8_head xs)) xs)"
      by (simp_all add: utf8_valid.simps [of xs])
    with False "1.IH" show ?thesis
      by (simp add: utf8_lossy.simps [of xs])
  qed
qed

lemma from_utf8_Some_lossy: "from_utf8 bs = Some s \<Longrightarrow> from_utf8_lossy bs = s"
  by (auto simp: from_utf8_def from_utf8_lossy_def utf8_lossy_valid_id split: if_splits)

text \<open>A well-formed first code point is recognised whatever follows it.\<close>

lemma utf8_cont_nonzero: "utf8_cont n \<Longrightarrow> n \<noteq> 0"
  by (auto simp: utf8_cont_def)

lemma utf8_second_nonzero: "utf8_second3 b n \<or> utf8_second4 b n \<Longrightarrow> n \<noteq> 0"
  by (auto simp: utf8_second3_def utf8_second4_def utf8_cont_def)

lemma get_or0_nonzero: "get_or0 xs i \<noteq> 0 \<Longrightarrow> i < length xs"
  by (simp add: get_or0_def split: if_splits)

lemma utf8_head_True:
  assumes "utf8_head xs = (True, n)"
  shows "n = 1 \<or> n = 2 \<and> get_or0 xs 1 \<noteq> 0 \<or> n = 3 \<and> get_or0 xs 2 \<noteq> 0 \<or> n = 4 \<and> get_or0 xs 3 \<noteq> 0"
  using assms by (simp add: utf8_head_def Let_def utf8_cont_nonzero split: if_splits)

lemma utf8_head_len:
  assumes "utf8_head xs = (True, n)" "xs \<noteq> []"
  shows "n \<le> length xs"
  using utf8_head_True [OF assms(1)] assms(2)
  by (elim disjE conjE) (auto dest!: get_or0_nonzero simp: Suc_le_eq)

lemma get_or0_take: "i < n \<Longrightarrow> n \<le> length xs \<Longrightarrow> get_or0 (take n xs @ ys) i = get_or0 xs i"
  by (simp add: get_or0_def nth_append)

lemma utf8_head_take:
  assumes h: "utf8_head xs = (True, n)" and ne: "xs \<noteq> []"
  shows "utf8_head (take n xs @ ys) = (True, n)"
proof -
  have n: "n \<le> length xs"
    using h ne by (rule utf8_head_len)
  have "0 < n"
    using utf8_head_pos [of xs] h by simp
  then have b: "get_or0 (take n xs @ ys) 0 = get_or0 xs 0"
    using n by (rule get_or0_take)
  have "1 < n \<Longrightarrow> get_or0 (take n xs @ ys) 1 = get_or0 xs 1"
    and "2 < n \<Longrightarrow> get_or0 (take n xs @ ys) 2 = get_or0 xs 2"
    and "3 < n \<Longrightarrow> get_or0 (take n xs @ ys) 3 = get_or0 xs 3"
    using n by (simp_all add: get_or0_take)
  note eqs = b this
  from utf8_head_True [OF h] show ?thesis
  proof (elim disjE conjE)
    assume "n = 1"
    with h b show ?thesis
      by (simp add: utf8_head_def Let_def split: if_splits)
  next
    assume "n = 2"
    with h eqs show ?thesis
      by (simp add: utf8_head_def Let_def split: if_splits)
  next
    assume "n = 3"
    with h eqs show ?thesis
      by (simp add: utf8_head_def Let_def split: if_splits)
  next
    assume "n = 4"
    with h eqs show ?thesis
      by (simp add: utf8_head_def Let_def split: if_splits)
  qed
qed

lemma utf8_valid_step:
  assumes "utf8_head xs = (True, n)" "utf8_valid (drop n xs)"
  shows "utf8_valid xs"
  using assms by (subst utf8_valid.simps) simp

lemma utf8_valid_replacement: "utf8_valid ys \<Longrightarrow> utf8_valid ([0xEF, 0xBF, 0xBD] @ ys)"
  by (rule utf8_valid_step [where n = 3])
    (simp_all add: utf8_head_def Let_def get_or0_def utf8_width_def utf8_second3_def utf8_cont_def)

lemma utf8_valid_lossy: "utf8_valid (utf8_lossy xs)"
proof (induction xs rule: utf8_lossy.induct)
  case (1 xs)
  obtain ok n where h: "utf8_head xs = (ok, n)"
    by (cases "utf8_head xs")
  consider "xs = []" | "xs \<noteq> []" "ok" | "xs \<noteq> []" "\<not> ok"
    by blast
  then show ?case
  proof cases
    case 1
    then show ?thesis
      by (simp add: utf8_lossy.simps [of "[]"] utf8_valid.simps [of "[]"])
  next
    case 2
    with h have hT: "utf8_head xs = (True, n)" and len: "n \<le> length xs"
      by (auto intro: utf8_head_len)
    have rest: "utf8_valid (utf8_lossy (drop n xs))"
      using "1.IH"(1) 2 h by simp
    have "utf8_valid (take n xs @ utf8_lossy (drop n xs))"
      by (rule utf8_valid_step [OF utf8_head_take [OF hT 2(1)]]) (simp add: len rest)
    then show ?thesis
      using 2 h by (subst utf8_lossy.simps) simp
  next
    case 3
    then have "utf8_valid (utf8_lossy (drop n xs))"
      using "1.IH"(2) h by simp
    then have "utf8_valid ([0xEF, 0xBF, 0xBD] @ utf8_lossy (drop n xs))"
      by (rule utf8_valid_replacement)
    then show ?thesis
      using 3 h by (subst utf8_lossy.simps) simp
  qed
qed

lemma from_utf8_lossy_total: "\<exists>s. from_utf8 (bytes_of_str (from_utf8_lossy bs)) = Some s"
  by (simp add: from_utf8_lossy_def from_utf8_def utf8_valid_lossy)

lemma utf8_valid_ascii: "\<forall>b \<in> set bs. b < 0x80 \<Longrightarrow> utf8_valid bs"
proof (induction bs)
  case Nil
  then show ?case by (simp add: utf8_valid.simps)
next
  case (Cons b bs)
  then have "utf8_head (b # bs) = (True, 1)"
    by (simp add: utf8_head_def Let_def get_or0_def utf8_width_def)
  with Cons show ?case
    by (simp add: utf8_valid.simps [of "b # bs"])
qed

section \<open>Numbers as text\<close>

definition digit_char :: "nat \<Rightarrow> char" where
  "digit_char d = (if d < 10 then char_of (48 + d) else char_of (87 + d))"

fun dec :: "nat \<Rightarrow> string" where
  "dec n = (if n < 10 then [digit_char n] else dec (n div 10) @ [digit_char (n mod 10)])"

declare dec.simps [simp del]

fun hex :: "nat \<Rightarrow> string" where
  "hex n = (if n < 16 then [digit_char n] else hex (n div 16) @ [digit_char (n mod 16)])"

declare hex.simps [simp del]

definition hex4 :: "u16 \<Rightarrow> string" where
  "hex4 w = (let n = unat w in
     [digit_char (n div 4096), digit_char (n div 256 mod 16), digit_char (n div 16 mod 16),
      digit_char (n mod 16)])"

definition dec2 :: "nat \<Rightarrow> string" where
  "dec2 n = (if n < 10 then CHR ''0'' # dec n else dec n)"

fun join :: "string \<Rightarrow> string list \<Rightarrow> string" where
  "join sep [] = []"
| "join sep [x] = x"
| "join sep (x # y # ys) = x @ sep @ join sep (y # ys)"

text \<open>\<open>char::to_digit(radix)\<close> on a byte: decimal digits and letters of either case.\<close>

definition digit_val :: "char \<Rightarrow> nat option" where
  "digit_val c =
     (let n = of_char c :: nat in
      if 48 \<le> n \<and> n \<le> 57 then Some (n - 48)
      else if 97 \<le> n \<and> n \<le> 122 then Some (n - 87)
      else if 65 \<le> n \<and> n \<le> 90 then Some (n - 55)
      else None)"

fun digits_val :: "nat \<Rightarrow> nat \<Rightarrow> string \<Rightarrow> nat option" where
  "digits_val radix acc [] = Some acc"
| "digits_val radix acc (c # cs) =
     (case digit_val c of
        Some d \<Rightarrow> if d < radix then digits_val radix (acc * radix + d) cs else None
      | None \<Rightarrow> None)"

text \<open>
  \<open>uN::from_str_radix\<close> (and \<open>str::parse\<close> with radix 10): an optional \<open>+\<close>, at least one
  digit, and no overflow past \<open>N\<close> bits.
\<close>

definition from_str_radix :: "nat \<Rightarrow> nat \<Rightarrow> string \<Rightarrow> nat option" where
  "from_str_radix bits radix s =
     (let ds = (case s of [] \<Rightarrow> [] | c # cs \<Rightarrow> if c = CHR ''+'' then cs else s) in
      if ds = [] then None
      else (case digits_val radix 0 ds of
              Some v \<Rightarrow> if v < 2 ^ bits then Some v else None
            | None \<Rightarrow> None))"

lemma digit_char_simps [simp]:
  "digit_char 0 = CHR ''0''"
  "digit_char (Suc 0) = CHR ''1''"
  "digit_char 2 = CHR ''2''"
  "digit_char 3 = CHR ''3''"
  "digit_char 4 = CHR ''4''"
  "digit_char 5 = CHR ''5''"
  "digit_char 6 = CHR ''6''"
  "digit_char 7 = CHR ''7''"
  "digit_char 8 = CHR ''8''"
  "digit_char 9 = CHR ''9''"
  "digit_char 10 = CHR ''a''"
  "digit_char 11 = CHR ''b''"
  "digit_char 12 = CHR ''c''"
  "digit_char 13 = CHR ''d''"
  "digit_char 14 = CHR ''e''"
  "digit_char 15 = CHR ''f''"
  "digit_char 1 = CHR ''1''"
  by code_simp+

lemma length_hex4 [simp]: "length (hex4 w) = 4"
  by (simp add: hex4_def Let_def)

lemma length_dec2: "n < 100 \<Longrightarrow> length (dec2 n) = 2"
  by (simp add: dec2_def dec.simps [of n] dec.simps [of "n div 10"])

lemma digit_val_digit_char: "d < 16 \<Longrightarrow> digit_val (digit_char d) = Some d"
  by (auto simp: digit_val_def digit_char_def Let_def)

lemma digits_val_append:
  "digits_val r acc (xs @ ys) =
     (case digits_val r acc xs of Some v \<Rightarrow> digits_val r v ys | None \<Rightarrow> None)"
  by (induction r acc xs rule: digits_val.induct) (auto split: option.splits)

lemma digits_val_dec: "digits_val 10 0 (dec n) = Some n"
proof (induction n rule: dec.induct)
  case (1 n)
  then show ?case
    by (cases "n < 10")
      (simp_all add: dec.simps [of n] digits_val_append digit_val_digit_char)
qed

lemma dec_ne [simp]: "dec n \<noteq> []"
  by (subst dec.simps) simp

lemma digit_char_plus: "d < 10 \<Longrightarrow> digit_char d \<noteq> CHR ''+''"
proof
  assume d: "d < 10" "digit_char d = CHR ''+''"
  then have "digit_val (CHR ''+'') = Some d"
    using digit_val_digit_char [of d] by simp
  then show False
    by (simp add: digit_val_def)
qed

lemma hd_dec: "hd (dec n) \<noteq> CHR ''+''"
proof (induction n rule: dec.induct)
  case (1 n)
  then show ?case
    by (cases "n < 10") (simp_all add: dec.simps [of n] digit_char_plus)
qed

text \<open>Printing a number and parsing it back, for every number that fits.\<close>

lemma parse_dec: "n < 2 ^ bits \<Longrightarrow> from_str_radix bits 10 (dec n) = Some n"
  using hd_dec [of n] digits_val_dec [of n]
  by (cases "dec n") (auto simp: from_str_radix_def Let_def)

end
