(* ===== verification/Rust_Text.thy ===== *)
theory Rust_Text
  imports Rust_Std
begin

text \<open>
  What the program uses of \<open>str\<close> and \<open>slice\<close> to take text apart: searching, splitting, prefixes and
  suffixes, lines and words.  White space is ASCII white space; the texts the program splits into
  words are files of procfs and sysfs, which are ASCII.
\<close>

section \<open>Searching and splitting\<close>

fun contains :: "string \<Rightarrow> string \<Rightarrow> bool" where
  "contains pat [] = (pat = [])"
| "contains pat (c # cs) = (prefix pat (c # cs) \<or> contains pat cs)"

fun split_on :: "char \<Rightarrow> string \<Rightarrow> string list" where
  "split_on d [] = [[]]"
| "split_on d (c # cs) =
     (if c = d then [] # split_on d cs
      else (case split_on d cs of [] \<Rightarrow> [[c]] | seg # segs \<Rightarrow> (c # seg) # segs))"

definition starts_with :: "string \<Rightarrow> string \<Rightarrow> bool" where
  "starts_with pat s = prefix pat s"

definition ends_with :: "string \<Rightarrow> string \<Rightarrow> bool" where
  "ends_with pat s = suffix pat s"

definition strip_prefix :: "string \<Rightarrow> string \<Rightarrow> string option" where
  "strip_prefix pat s = (if prefix pat s then Some (drop (length pat) s) else None)"

definition strip_suffix :: "string \<Rightarrow> string \<Rightarrow> string option" where
  "strip_suffix pat s = (if suffix pat s then Some (take (length s - length pat) s) else None)"

definition rfind :: "('a \<Rightarrow> bool) \<Rightarrow> 'a list \<Rightarrow> 'a option" where
  "rfind P xs = find P (rev xs)"

fun find_map :: "('a \<Rightarrow> 'b option) \<Rightarrow> 'a list \<Rightarrow> 'b option" where
  "find_map f [] = None"
| "find_map f (x # xs) = (case f x of None \<Rightarrow> find_map f xs | Some y \<Rightarrow> Some y)"

definition replace_char :: "char \<Rightarrow> char \<Rightarrow> string \<Rightarrow> string" where
  "replace_char a b s = map (\<lambda>c. if c = a then b else c) s"

lemma split_on_nonempty [simp]: "split_on d s \<noteq> []"
  by (induction s) (auto split: list.split)

lemma split_on_none: "d \<notin> set s \<Longrightarrow> split_on d s = [s]"
  by (induction s) auto

lemma split_on_append: "split_on d (a @ d # b) = split_on d a @ split_on d b"
  by (induction a) (auto split: list.split)

lemma split_on_last: "d \<notin> set s \<Longrightarrow> split_on d (a @ d # s) = split_on d a @ [s]"
  by (simp add: split_on_append split_on_none)

lemma strip_affixes [simp]: "strip_suffix x (s @ x) = Some s" "strip_prefix p (p @ s) = Some s"
  by (simp_all add: strip_suffix_def strip_prefix_def suffix_def)

lemma strip_affixes_SomeD: "strip_suffix x s = Some t \<Longrightarrow> s = t @ x" "strip_prefix p s = Some t \<Longrightarrow> s = p @ t"
  by (auto simp: strip_suffix_def strip_prefix_def suffix_def prefix_def split: if_splits)

section \<open>Words and lines\<close>

definition is_whitespace :: "char \<Rightarrow> bool" where
  "is_whitespace c = (c \<in> {CHR 0x20, CHR 0x09, CHR 0x0A, CHR 0x0B, CHR 0x0C, CHR 0x0D})"

fun split_spaces :: "string \<Rightarrow> string list" where
  "split_spaces [] = [[]]"
| "split_spaces (c # cs) =
     (if is_whitespace c then [] # split_spaces cs
      else (case split_spaces cs of [] \<Rightarrow> [[c]] | w # ws \<Rightarrow> (c # w) # ws))"

definition split_whitespace :: "string \<Rightarrow> string list" where
  "split_whitespace s = filter (\<lambda>w. w \<noteq> []) (split_spaces s)"

definition trim :: "string \<Rightarrow> string" where
  "trim s = rev (dropWhile is_whitespace (rev (dropWhile is_whitespace s)))"

definition trim_start_matches :: "char \<Rightarrow> string \<Rightarrow> string" where
  "trim_start_matches c s = dropWhile (\<lambda>x. x = c) s"

definition strip_cr :: "string \<Rightarrow> string" where
  "strip_cr l = (if l \<noteq> [] \<and> last l = CHR 0x0D then butlast l else l)"

text \<open>\<open>str::lines\<close>: a carriage return goes with its line feed; what follows the last line feed is a line
  if it is not empty.\<close>

definition str_lines :: "string \<Rightarrow> string list" where
  "str_lines s =
     (let segs = split_on CHR 0x0A s in
      map strip_cr (butlast segs) @ (if last segs = [] then [] else [last segs]))"

lemma split_spaces_nonempty [simp]: "split_spaces s \<noteq> []"
  by (induction s) (auto split: list.split)

lemma split_spaces_append: "is_whitespace c \<Longrightarrow> split_spaces (a @ c # b) = split_spaces a @ split_spaces b"
  by (induction a) (auto split: list.split)

lemma split_spaces_word: "\<forall>c \<in> set w. \<not> is_whitespace c \<Longrightarrow> split_spaces w = [w]"
  by (induction w) auto

text \<open>Words with single spaces between them.\<close>

lemma split_whitespace_join:
  assumes "\<forall>w \<in> set ws. w \<noteq> [] \<and> (\<forall>c \<in> set w. \<not> is_whitespace c)"
  shows "split_whitespace (join '' '' ws) = ws"
  using assms
proof (induction "'' ''" ws rule: join.induct)
  case (3 x y ys)
  have "is_whitespace (CHR 0x20)"
    by (simp add: is_whitespace_def)
  then have "split_spaces (x @ '' '' @ join '' '' (y # ys)) = split_spaces x @ split_spaces (join '' '' (y # ys))"
    using split_spaces_append [of "CHR 0x20" x] by simp
  then show ?case
    using 3 by (simp add: split_whitespace_def split_spaces_word)
qed (auto simp: split_whitespace_def split_spaces_word)

text \<open>Lines that end in a line feed and hold none.\<close>

lemma split_on_lines:
  assumes "\<forall>l \<in> set ls. d \<notin> set l"
  shows "split_on d (concat (map (\<lambda>l. l @ [d]) ls)) = ls @ [[]]"
  using assms by (induction ls) (auto simp: split_on_append split_on_none)

lemma str_lines_concat:
  assumes "\<forall>l \<in> set ls. CHR 0x0A \<notin> set l \<and> CHR 0x0D \<notin> set l"
  shows "str_lines (concat (map (\<lambda>l. l @ [CHR 0x0A]) ls)) = ls"
proof -
  have "strip_cr l = l" if "l \<in> set ls" for l
    using assms that last_in_set [of l] by (metis strip_cr_def)
  then have "map strip_cr ls = ls"
    by (simp add: map_idI)
  moreover have "split_on (CHR 0x0A) (concat (map (\<lambda>l. l @ [CHR 0x0A]) ls)) = ls @ [[]]"
    using assms by (intro split_on_lines) auto
  ultimately show ?thesis
    by (simp add: str_lines_def)
qed

end
