(* ===== verification/Procfs.thy ===== *)
theory Procfs
  imports Rust_Text
begin

text \<open>
  The text files of procfs the program reads, in the format the kernel documents for them: numbers as
  upper-case hexadecimal digits of a fixed width, 32-bit words of an address as their value in
  memory, a row as words with white space between, a header before the rows.  The readers of
  \<open>Listeners\<close> and \<open>Loader\<close> are proved against files of this form; nothing here models code of the
  program.
\<close>

section \<open>Hexadecimal numbers\<close>

definition upper_digit :: "nat \<Rightarrow> char" where
  "upper_digit d = (if d < 10 then char_of (48 + d) else char_of (55 + d))"

primrec kernel_hex :: "nat \<Rightarrow> nat \<Rightarrow> string" where
  "kernel_hex 0 n = []"
| "kernel_hex (Suc k) n = kernel_hex k (n div 16) @ [upper_digit (n mod 16)]"

lemma upper_digit_facts:
  assumes "d < 16"
  shows "digit_val (upper_digit d) = Some d" "\<not> is_whitespace (upper_digit d)" "upper_digit d \<noteq> CHR '':''"
    "upper_digit d \<noteq> CHR ''+''"
proof -
  have "d \<in> {0, 1, 2, 3, 4, 5, 6, 7, 8, 9, 10, 11, 12, 13, 14, 15}"
    using assms by (auto simp: eval_nat_numeral less_Suc_eq)
  then show "digit_val (upper_digit d) = Some d" "\<not> is_whitespace (upper_digit d)" "upper_digit d \<noteq> CHR '':''"
    "upper_digit d \<noteq> CHR ''+''"
    by (elim insertE emptyE; hypsubst; code_simp)+
qed

lemma kernel_hex_facts:
  "length (kernel_hex k n) = k"
  "c \<in> set (kernel_hex k n) \<Longrightarrow> \<not> is_whitespace c \<and> c \<noteq> CHR '':'' \<and> c \<noteq> CHR ''+''"
  by (induction k arbitrary: n) (auto simp: upper_digit_facts)

lemma kernel_hex_val: "n < 16 ^ k \<Longrightarrow> digits_val 16 0 (kernel_hex k n) = Some n"
proof (induction k arbitrary: n)
  case (Suc k)
  then have "digits_val 16 0 (kernel_hex k (n div 16)) = Some (n div 16)"
    by (intro Suc.IH) (simp add: less_mult_imp_div_less)
  then show ?case
    by (simp add: digits_val_append upper_digit_facts)
qed simp

lemma kernel_hex_parsed:
  assumes "n < 16 ^ k" "0 < k" "n < 2 ^ bits"
  shows "from_str_radix bits 16 (kernel_hex k n) = Some n"
proof (cases "kernel_hex k n")
  case Nil
  then show ?thesis
    using kernel_hex_facts(1) [of k n] assms(2) by simp
next
  case (Cons c cs)
  then have "c \<noteq> CHR ''+''"
    using kernel_hex_facts(2) [of c k n] by simp
  with Cons show ?thesis
    using kernel_hex_val [OF assms(1)] assms(3) by (simp add: from_str_radix_def)
qed

text \<open>Leading zeros do not count.\<close>

lemma digits_val_zeros: "digits_val 16 0 (dropWhile (\<lambda>x. x = CHR ''0'') s) = digits_val 16 0 s"
  by (induction s) (auto simp: digit_val_def)

lemma le_val_less: "le_val bs < 256 ^ length bs"
proof (induction bs)
  case (Cons b bs)
  then show ?case
    using unat_u8_less [of b] by simp
qed simp

lemma le_bytes_le_val: "le_bytes (length bs) (le_val bs) = bs"
proof (induction bs)
  case (Cons b bs)
  have "(256 :: u8) = 0"
    by simp
  then have "(of_nat (unat b + 256 * le_val bs) :: u8) = b"
    by (simp only: of_nat_add of_nat_mult of_nat_numeral) simp
  with Cons show ?case
    by (simp add: unat_u8_less del: of_nat_add of_nat_mult)
qed simp

section \<open>Rows and files\<close>

definition word_ok :: "string \<Rightarrow> bool" where
  "word_ok w = (w \<noteq> [] \<and> (\<forall>c \<in> set w. \<not> is_whitespace c))"

lemma kernel_hex_word: "0 < k \<Longrightarrow> word_ok (kernel_hex k n)"
  using kernel_hex_facts(1) [of k n] kernel_hex_facts(2) [where k = k and n = n] by (auto simp: word_ok_def)

definition header_ok :: "string \<Rightarrow> bool" where
  "header_ok h = (CHR 0x0A \<notin> set h \<and> CHR 0x0D \<notin> set h)"

lemma join_chars:
  "\<forall>c \<in> set sep. P c \<Longrightarrow> \<forall>w \<in> set ws. \<forall>c \<in> set w. P c \<Longrightarrow> \<forall>c \<in> set (join sep ws). P c"
  by (induction sep ws rule: join.induct) auto

definition proc_text :: "string list \<Rightarrow> string" where
  "proc_text ls = concat (map (\<lambda>l. l @ [CHR 0x0A]) ls)"

lemma words_header_ok:
  assumes "\<forall>w \<in> set ws. word_ok w"
  shows "header_ok (join '' '' ws)"
proof -
  let ?P = "\<lambda>c. c \<noteq> CHR 0x0A \<and> c \<noteq> CHR 0x0D"
  have "?P c" if "\<not> is_whitespace c" for c
    using that by (auto simp: is_whitespace_def)
  then have "\<forall>c \<in> set (join '' '' ws). ?P c"
    using assms unfolding word_ok_def by (intro join_chars) auto
  then show ?thesis
    by (auto simp: header_ok_def)
qed

lemma row_words: "\<forall>w \<in> set ws. word_ok w \<Longrightarrow> split_whitespace (join '' '' ws) = ws"
  unfolding word_ok_def by (rule split_whitespace_join)

lemma proc_text_lines:
  assumes "\<forall>l \<in> set ls. header_ok l"
  shows "str_lines (proc_text ls) = ls"
  using assms unfolding proc_text_def header_ok_def by (rule str_lines_concat)

end
