(* ===== verification/Codes.thy ===== *)
theory Codes
  imports Probe_Prelude
begin

text \<open>
  \<open>crates/tls-probe-common/src/codes.rs\<close>: the protocol code points and the predicates
  over them.  The predicates are written with masks and ranges in the code; the lemmas give
  the sets of code points they stand for.
\<close>

named_theorems code_consts "values of the protocol constants"

section \<open>Constants\<close>

definition CONTENT_TYPE_CHANGE_CIPHER_SPEC :: u8 where
  [code_consts]: "CONTENT_TYPE_CHANGE_CIPHER_SPEC = 0x14"

definition CONTENT_TYPE_ALERT :: u8 where
  [code_consts]: "CONTENT_TYPE_ALERT = 0x15"

definition CONTENT_TYPE_HANDSHAKE :: u8 where
  [code_consts]: "CONTENT_TYPE_HANDSHAKE = 0x16"

definition CONTENT_TYPE_APPLICATION_DATA :: u8 where
  [code_consts]: "CONTENT_TYPE_APPLICATION_DATA = 0x17"

definition HANDSHAKE_CLIENT_HELLO :: u8 where
  [code_consts]: "HANDSHAKE_CLIENT_HELLO = 0x01"

definition HANDSHAKE_SERVER_HELLO :: u8 where
  [code_consts]: "HANDSHAKE_SERVER_HELLO = 0x02"

definition HANDSHAKE_NEW_SESSION_TICKET :: u8 where
  [code_consts]: "HANDSHAKE_NEW_SESSION_TICKET = 0x04"

definition HANDSHAKE_ENCRYPTED_EXTENSIONS :: u8 where
  [code_consts]: "HANDSHAKE_ENCRYPTED_EXTENSIONS = 0x08"

definition HANDSHAKE_CERTIFICATE :: u8 where
  [code_consts]: "HANDSHAKE_CERTIFICATE = 0x0B"

definition HANDSHAKE_CERTIFICATE_REQUEST :: u8 where
  [code_consts]: "HANDSHAKE_CERTIFICATE_REQUEST = 0x0D"

definition HANDSHAKE_CERTIFICATE_VERIFY :: u8 where
  [code_consts]: "HANDSHAKE_CERTIFICATE_VERIFY = 0x0F"

definition HANDSHAKE_FINISHED :: u8 where
  [code_consts]: "HANDSHAKE_FINISHED = 0x14"

definition VERSION_SSL_3_0 :: u16 where
  [code_consts]: "VERSION_SSL_3_0 = 0x0300"

definition VERSION_TLS_1_0 :: u16 where
  [code_consts]: "VERSION_TLS_1_0 = 0x0301"

definition VERSION_TLS_1_1 :: u16 where
  [code_consts]: "VERSION_TLS_1_1 = 0x0302"

definition VERSION_TLS_1_2 :: u16 where
  [code_consts]: "VERSION_TLS_1_2 = 0x0303"

definition VERSION_TLS_1_3 :: u16 where
  [code_consts]: "VERSION_TLS_1_3 = 0x0304"

definition EXT_SERVER_NAME :: u16 where
  [code_consts]: "EXT_SERVER_NAME = 0x0000"

definition EXT_SIGNATURE_ALGORITHMS :: u16 where
  [code_consts]: "EXT_SIGNATURE_ALGORITHMS = 0x000D"

definition EXT_SUPPORTED_GROUPS :: u16 where
  [code_consts]: "EXT_SUPPORTED_GROUPS = 0x000A"

definition EXT_ALPN :: u16 where
  [code_consts]: "EXT_ALPN = 0x0010"

definition EXT_SESSION_TICKET :: u16 where
  [code_consts]: "EXT_SESSION_TICKET = 0x0023"

definition EXT_PSK :: u16 where
  [code_consts]: "EXT_PSK = 0x0029"

definition EXT_EARLY_DATA :: u16 where
  [code_consts]: "EXT_EARLY_DATA = 0x002A"

definition EXT_SUPPORTED_VERSIONS :: u16 where
  [code_consts]: "EXT_SUPPORTED_VERSIONS = 0x002B"

definition EXT_PSK_KEY_EXCHANGE_MODES :: u16 where
  [code_consts]: "EXT_PSK_KEY_EXCHANGE_MODES = 0x002D"

definition EXT_SIGNATURE_ALGORITHMS_CERT :: u16 where
  [code_consts]: "EXT_SIGNATURE_ALGORITHMS_CERT = 0x0032"

definition EXT_KEY_SHARE :: u16 where
  [code_consts]: "EXT_KEY_SHARE = 0x0033"

definition SIG_ALG_RSA_PKCS1_SHA1 :: u16 where
  [code_consts]: "SIG_ALG_RSA_PKCS1_SHA1 = 0x0201"

definition SIG_ALG_RSA_PKCS1_SHA224 :: u16 where
  [code_consts]: "SIG_ALG_RSA_PKCS1_SHA224 = 0x0301"

definition SIG_ALG_RSA_PKCS1_SHA256 :: u16 where
  [code_consts]: "SIG_ALG_RSA_PKCS1_SHA256 = 0x0401"

definition SIG_ALG_RSA_PKCS1_SHA384 :: u16 where
  [code_consts]: "SIG_ALG_RSA_PKCS1_SHA384 = 0x0501"

definition SIG_ALG_RSA_PKCS1_SHA512 :: u16 where
  [code_consts]: "SIG_ALG_RSA_PKCS1_SHA512 = 0x0601"

definition SIG_ALG_ECDSA_SHA1 :: u16 where
  [code_consts]: "SIG_ALG_ECDSA_SHA1 = 0x0203"

definition SIG_ALG_ECDSA_SECP256R1_SHA256 :: u16 where
  [code_consts]: "SIG_ALG_ECDSA_SECP256R1_SHA256 = 0x0403"

definition SIG_ALG_ECDSA_SECP384R1_SHA384 :: u16 where
  [code_consts]: "SIG_ALG_ECDSA_SECP384R1_SHA384 = 0x0503"

definition SIG_ALG_ECDSA_SECP521R1_SHA512 :: u16 where
  [code_consts]: "SIG_ALG_ECDSA_SECP521R1_SHA512 = 0x0603"

definition SIG_ALG_DSA_SHA1 :: u16 where
  [code_consts]: "SIG_ALG_DSA_SHA1 = 0x0202"

definition SIG_ALG_DSA_SHA224 :: u16 where
  [code_consts]: "SIG_ALG_DSA_SHA224 = 0x0302"

definition SIG_ALG_DSA_SHA256 :: u16 where
  [code_consts]: "SIG_ALG_DSA_SHA256 = 0x0402"

definition SIG_ALG_RSA_PSS_RSAE_SHA256 :: u16 where
  [code_consts]: "SIG_ALG_RSA_PSS_RSAE_SHA256 = 0x0804"

definition SIG_ALG_RSA_PSS_RSAE_SHA384 :: u16 where
  [code_consts]: "SIG_ALG_RSA_PSS_RSAE_SHA384 = 0x0805"

definition SIG_ALG_RSA_PSS_RSAE_SHA512 :: u16 where
  [code_consts]: "SIG_ALG_RSA_PSS_RSAE_SHA512 = 0x0806"

definition SIG_ALG_RSA_PSS_PSS_SHA256 :: u16 where
  [code_consts]: "SIG_ALG_RSA_PSS_PSS_SHA256 = 0x0809"

definition SIG_ALG_RSA_PSS_PSS_SHA384 :: u16 where
  [code_consts]: "SIG_ALG_RSA_PSS_PSS_SHA384 = 0x080A"

definition SIG_ALG_RSA_PSS_PSS_SHA512 :: u16 where
  [code_consts]: "SIG_ALG_RSA_PSS_PSS_SHA512 = 0x080B"

definition SIG_ALG_ED25519 :: u16 where
  [code_consts]: "SIG_ALG_ED25519 = 0x0807"

definition SIG_ALG_ED448 :: u16 where
  [code_consts]: "SIG_ALG_ED448 = 0x0808"

definition SIG_ALG_ECDSA_BRAINPOOL256 :: u16 where
  [code_consts]: "SIG_ALG_ECDSA_BRAINPOOL256 = 0x081A"

definition SIG_ALG_ECDSA_BRAINPOOL384 :: u16 where
  [code_consts]: "SIG_ALG_ECDSA_BRAINPOOL384 = 0x081B"

definition SIG_ALG_ECDSA_BRAINPOOL512 :: u16 where
  [code_consts]: "SIG_ALG_ECDSA_BRAINPOOL512 = 0x081C"

definition SIG_ALG_MLDSA44 :: u16 where
  [code_consts]: "SIG_ALG_MLDSA44 = 0x0904"

definition SIG_ALG_MLDSA65 :: u16 where
  [code_consts]: "SIG_ALG_MLDSA65 = 0x0905"

definition SIG_ALG_MLDSA87 :: u16 where
  [code_consts]: "SIG_ALG_MLDSA87 = 0x0906"

definition KEX_SECP160R1 :: u16 where
  [code_consts]: "KEX_SECP160R1 = 0x0010"

definition KEX_SECP192R1 :: u16 where
  [code_consts]: "KEX_SECP192R1 = 0x0013"

definition KEX_SECP224R1 :: u16 where
  [code_consts]: "KEX_SECP224R1 = 0x0015"

definition KEX_SECP256R1 :: u16 where
  [code_consts]: "KEX_SECP256R1 = 0x0017"

definition KEX_SECP384R1 :: u16 where
  [code_consts]: "KEX_SECP384R1 = 0x0018"

definition KEX_SECP521R1 :: u16 where
  [code_consts]: "KEX_SECP521R1 = 0x0019"

definition KEX_X25519 :: u16 where
  [code_consts]: "KEX_X25519 = 0x001D"

definition KEX_X448 :: u16 where
  [code_consts]: "KEX_X448 = 0x001E"

definition KEX_FFDHE2048 :: u16 where
  [code_consts]: "KEX_FFDHE2048 = 0x0100"

definition KEX_FFDHE3072 :: u16 where
  [code_consts]: "KEX_FFDHE3072 = 0x0101"

definition KEX_FFDHE4096 :: u16 where
  [code_consts]: "KEX_FFDHE4096 = 0x0102"

definition KEX_FFDHE6144 :: u16 where
  [code_consts]: "KEX_FFDHE6144 = 0x0103"

definition KEX_FFDHE8192 :: u16 where
  [code_consts]: "KEX_FFDHE8192 = 0x0104"

definition KEX_MLKEM512 :: u16 where
  [code_consts]: "KEX_MLKEM512 = 0x0200"

definition KEX_MLKEM768 :: u16 where
  [code_consts]: "KEX_MLKEM768 = 0x0201"

definition KEX_MLKEM1024 :: u16 where
  [code_consts]: "KEX_MLKEM1024 = 0x0202"

definition KEX_SECP256R1_MLKEM512 :: u16 where
  [code_consts]: "KEX_SECP256R1_MLKEM512 = 0x11E9"

definition KEX_MLKEM512_X25519 :: u16 where
  [code_consts]: "KEX_MLKEM512_X25519 = 0x11EA"

definition KEX_SECP256R1_MLKEM768 :: u16 where
  [code_consts]: "KEX_SECP256R1_MLKEM768 = 0x11EB"

definition KEX_X25519_MLKEM768 :: u16 where
  [code_consts]: "KEX_X25519_MLKEM768 = 0x11EC"

definition KEX_SECP384R1_MLKEM1024 :: u16 where
  [code_consts]: "KEX_SECP384R1_MLKEM1024 = 0x11ED"

definition KEX_X25519_KYBER768_DRAFT00 :: u16 where
  [code_consts]: "KEX_X25519_KYBER768_DRAFT00 = 0x6399"

definition KEX_SECP256R1_KYBER768_DRAFT00 :: u16 where
  [code_consts]: "KEX_SECP256R1_KYBER768_DRAFT00 = 0x639A"

definition ALERT_CLOSE_NOTIFY :: u8 where
  [code_consts]: "ALERT_CLOSE_NOTIFY = 0"

definition ALERT_UNEXPECTED_MESSAGE :: u8 where
  [code_consts]: "ALERT_UNEXPECTED_MESSAGE = 10"

definition ALERT_BAD_RECORD_MAC :: u8 where
  [code_consts]: "ALERT_BAD_RECORD_MAC = 20"

definition ALERT_RECORD_OVERFLOW :: u8 where
  [code_consts]: "ALERT_RECORD_OVERFLOW = 22"

definition ALERT_HANDSHAKE_FAILURE :: u8 where
  [code_consts]: "ALERT_HANDSHAKE_FAILURE = 40"

definition ALERT_BAD_CERTIFICATE :: u8 where
  [code_consts]: "ALERT_BAD_CERTIFICATE = 42"

definition ALERT_UNSUPPORTED_CERTIFICATE :: u8 where
  [code_consts]: "ALERT_UNSUPPORTED_CERTIFICATE = 43"

definition ALERT_CERTIFICATE_REVOKED :: u8 where
  [code_consts]: "ALERT_CERTIFICATE_REVOKED = 44"

definition ALERT_CERTIFICATE_EXPIRED :: u8 where
  [code_consts]: "ALERT_CERTIFICATE_EXPIRED = 45"

definition ALERT_CERTIFICATE_UNKNOWN :: u8 where
  [code_consts]: "ALERT_CERTIFICATE_UNKNOWN = 46"

definition ALERT_ILLEGAL_PARAMETER :: u8 where
  [code_consts]: "ALERT_ILLEGAL_PARAMETER = 47"

definition ALERT_UNKNOWN_CA :: u8 where
  [code_consts]: "ALERT_UNKNOWN_CA = 48"

definition ALERT_ACCESS_DENIED :: u8 where
  [code_consts]: "ALERT_ACCESS_DENIED = 49"

definition ALERT_DECODE_ERROR :: u8 where
  [code_consts]: "ALERT_DECODE_ERROR = 50"

definition ALERT_DECRYPT_ERROR :: u8 where
  [code_consts]: "ALERT_DECRYPT_ERROR = 51"

definition ALERT_PROTOCOL_VERSION :: u8 where
  [code_consts]: "ALERT_PROTOCOL_VERSION = 70"

definition ALERT_INSUFFICIENT_SECURITY :: u8 where
  [code_consts]: "ALERT_INSUFFICIENT_SECURITY = 71"

definition ALERT_INTERNAL_ERROR :: u8 where
  [code_consts]: "ALERT_INTERNAL_ERROR = 80"

definition ALERT_INAPPROPRIATE_FALLBACK :: u8 where
  [code_consts]: "ALERT_INAPPROPRIATE_FALLBACK = 86"

definition ALERT_USER_CANCELED :: u8 where
  [code_consts]: "ALERT_USER_CANCELED = 90"

definition ALERT_MISSING_EXTENSION :: u8 where
  [code_consts]: "ALERT_MISSING_EXTENSION = 109"

definition ALERT_UNSUPPORTED_EXTENSION :: u8 where
  [code_consts]: "ALERT_UNSUPPORTED_EXTENSION = 110"

definition ALERT_UNRECOGNIZED_NAME :: u8 where
  [code_consts]: "ALERT_UNRECOGNIZED_NAME = 112"

definition ALERT_BAD_CERTIFICATE_STATUS_RESPONSE :: u8 where
  [code_consts]: "ALERT_BAD_CERTIFICATE_STATUS_RESPONSE = 113"

definition ALERT_UNKNOWN_PSK_IDENTITY :: u8 where
  [code_consts]: "ALERT_UNKNOWN_PSK_IDENTITY = 115"

definition ALERT_CERTIFICATE_REQUIRED :: u8 where
  [code_consts]: "ALERT_CERTIFICATE_REQUIRED = 116"

definition ALERT_NO_APPLICATION_PROTOCOL :: u8 where
  [code_consts]: "ALERT_NO_APPLICATION_PROTOCOL = 120"

definition AF_INET :: u32 where
  [code_consts]: "AF_INET = 2"

definition AF_INET6 :: u32 where
  [code_consts]: "AF_INET6 = 10"

section \<open>Predicates\<close>

definition is_grease :: "u16 \<Rightarrow> bool" where
  "is_grease value =
     (let hi = (ucast (drop_bit 8 value) :: u8);
          lo = (ucast (value AND 0xFF) :: u8)
      in hi = lo \<and> hi AND 0x0F = 0x0A)"

definition is_pqc_sig_alg :: "u16 \<Rightarrow> bool" where
  "is_pqc_sig_alg i = (0x0904 \<le> i \<and> i \<le> 0x0906)"

definition is_pqc_group :: "u16 \<Rightarrow> bool" where
  "is_pqc_group i =
     ((0x0200 \<le> i \<and> i \<le> 0x0202) \<or> (0x11E9 \<le> i \<and> i \<le> 0x11ED) \<or> i = 0x6399 \<or> i = 0x639A)"

definition is_client_hello :: "u8 \<Rightarrow> bool" where
  "is_client_hello handshake_type = (handshake_type = HANDSHAKE_CLIENT_HELLO)"

definition is_server_hello :: "u8 \<Rightarrow> bool" where
  "is_server_hello handshake_type = (handshake_type = HANDSHAKE_SERVER_HELLO)"

section \<open>The code points a predicate stands for\<close>

text \<open>The sixteen code points RFC 8701 reserves.\<close>

definition grease_values :: "u16 list" where
  "grease_values = map (\<lambda>k. of_nat (257 * (16 * k + 10))) [0..<16]"

lemma unat_hi: "unat (ucast (drop_bit 8 (v :: u16)) :: u8) = unat v div 256"
proof -
  have "unat v div 256 < 256"
    using unat_u16_less [of v] by simp
  then show ?thesis
    by (simp add: unsigned_ucast_eq drop_bit_eq_div take_bit_eq_mod unat_div)
qed

lemma unat_lo: "unat (ucast ((v :: u16) AND 0xFF) :: u8) = unat v mod 256"
proof -
  have "v AND 0xFF = take_bit 8 v"
    by (simp add: take_bit_eq_mask mask_eq_exp_minus_1)
  then show ?thesis
    by (simp add: unsigned_ucast_eq take_bit_eq_mod unat_mod)
qed

lemma nibble_eq: "(b :: u8) AND 0x0F = 0x0A \<longleftrightarrow> unat b mod 16 = 10"
proof -
  have "b AND 0x0F = take_bit 4 b"
    by (simp add: take_bit_eq_mask mask_eq_exp_minus_1)
  then have "unat (b AND 0x0F) = unat b mod 16"
    by (simp add: take_bit_eq_mod unat_mod)
  then show ?thesis
    by (simp add: word_unat_eq_iff)
qed

lemma is_grease_unat:
  "is_grease v \<longleftrightarrow> (\<exists>k < 16. unat v = 257 * (16 * k + 10))"
proof -
  have "is_grease v \<longleftrightarrow> unat v div 256 = unat v mod 256 \<and> unat v div 256 mod 16 = 10"
    unfolding is_grease_def Let_def nibble_eq unat_hi
    by (subst word_unat_eq_iff) (simp only: unat_hi unat_lo)
  also have "\<dots> \<longleftrightarrow> (\<exists>k < 16. unat v = 257 * (16 * k + 10))"
  proof
    define d where "d = unat v div 256"
    assume "unat v div 256 = unat v mod 256 \<and> unat v div 256 mod 16 = 10"
    then have d: "unat v mod 256 = d" "d mod 16 = 10"
      unfolding d_def by metis+
    then have "\<exists>q. d = 16 * q + 10"
      by (metis mult_div_mod_eq)
    then obtain q where q: "d = 16 * q + 10" ..
    have "unat v = 257 * (16 * q + 10)"
      using mult_div_mod_eq [of 256 "unat v"] d(1) q by (simp add: d_def)
    moreover have "d < 256"
      using unat_u16_less [of v] by (simp add: d_def)
    then have "q < 16"
      using q by simp
    ultimately show "\<exists>k < 16. unat v = 257 * (16 * k + 10)"
      by blast
  next
    assume "\<exists>k < 16. unat v = 257 * (16 * k + 10)"
    then obtain k where k: "k < 16" "unat v = 257 * (16 * k + 10)"
      by blast
    then have "unat v = 256 * (16 * k + 10) + (16 * k + 10)" "16 * k + 10 < 256"
      by simp_all
    then have "unat v div 256 = 16 * k + 10" "unat v mod 256 = 16 * k + 10"
      by (metis add_cancel_left_right div_less div_mult_self4 mult.commute zero_neq_numeral,
          metis mod_less mod_mult_self4)
    then show "unat v div 256 = unat v mod 256 \<and> unat v div 256 mod 16 = 10"
      by simp
  qed
  finally show ?thesis .
qed

lemma is_grease_iff: "is_grease v \<longleftrightarrow> v \<in> set grease_values"
proof
  assume "is_grease v"
  then obtain k where k: "k < 16" "unat v = 257 * (16 * k + 10)"
    by (auto simp: is_grease_unat)
  then have "v = of_nat (257 * (16 * k + 10))"
    by (metis of_nat_unat ucast_id)
  with k(1) show "v \<in> set grease_values"
    by (auto simp: grease_values_def)
next
  assume "v \<in> set grease_values"
  then obtain k where k: "k < 16" and v: "v = of_nat (257 * (16 * k + 10))"
    by (auto simp: grease_values_def)
  have "257 * (16 * k + 10) < 2 ^ LENGTH(16)"
    using k by simp
  then have "unat v = 257 * (16 * k + 10)"
    unfolding v by (subst unat_of_nat) simp
  with k show "is_grease v"
    by (auto simp: is_grease_unat)
qed

text \<open>The post-quantum groups and signature schemes the ranges stand for.\<close>

definition pqc_groups :: "u16 list" where
  "pqc_groups =
     [KEX_MLKEM512, KEX_MLKEM768, KEX_MLKEM1024, KEX_SECP256R1_MLKEM512, KEX_MLKEM512_X25519,
      KEX_SECP256R1_MLKEM768, KEX_X25519_MLKEM768, KEX_SECP384R1_MLKEM1024,
      KEX_X25519_KYBER768_DRAFT00, KEX_SECP256R1_KYBER768_DRAFT00]"

lemma word_range_unat: "(a \<le> i \<and> i \<le> b) \<longleftrightarrow> unat a \<le> unat i \<and> unat i \<le> unat b"
  by (simp add: word_le_nat_alt)

lemma is_pqc_group_iff: "is_pqc_group g \<longleftrightarrow> g \<in> set pqc_groups"
proof -
  have "(512 \<le> unat g \<and> unat g \<le> 514) = (unat g = 512 \<or> unat g = 513 \<or> unat g = 514)"
    by arith
  moreover have "(4585 \<le> unat g \<and> unat g \<le> 4589) =
      (unat g = 4585 \<or> unat g = 4586 \<or> unat g = 4587 \<or> unat g = 4588 \<or> unat g = 4589)"
    by arith
  ultimately show ?thesis
    by (auto simp: is_pqc_group_def pqc_groups_def code_consts word_range_unat word_unat_eq_iff)
qed

lemma is_pqc_sig_alg_iff:
  "is_pqc_sig_alg a \<longleftrightarrow> a \<in> {SIG_ALG_MLDSA44, SIG_ALG_MLDSA65, SIG_ALG_MLDSA87}"
proof -
  have "(2308 \<le> unat a \<and> unat a \<le> 2310) = (unat a = 2308 \<or> unat a = 2309 \<or> unat a = 2310)"
    by arith
  then show ?thesis
    by (auto simp: is_pqc_sig_alg_def code_consts word_range_unat word_unat_eq_iff)
qed

text \<open>No post-quantum group is a GREASE value, so filtering GREASE keeps every one of them.\<close>

lemma pqc_group_not_grease: "is_pqc_group g \<Longrightarrow> \<not> is_grease g"
  by (auto simp: is_pqc_group_iff pqc_groups_def code_consts is_grease_def)

end
