(* ===== verification/Capture_Record.thy ===== *)
theory Capture_Record
  imports Codes Rust_Std
begin

text \<open>
  \<open>crates/tls-probe-common/src/domains\<close>: the structures the kernel half and the user-space
  half share, and the form in which a capture crosses the ring buffer.

  \<open>RawTlsCapture\<close> is \<open>repr(C)\<close> with its payload last, so the kernel emits the 88 header bytes
  and the used part of the payload only, and the loader copies what it received over a
  zeroed structure (\<open>drain_item\<close>).  Arrays \<open>[u8; n]\<close> are byte lists; \<open>capture_wf\<close> states
  their lengths.
\<close>

section \<open>Connections\<close>

definition COMM_SIZE :: nat where "COMM_SIZE = 16"

record ConnKey =
  ck_src_addr :: bytes
  ck_dst_addr :: bytes
  ck_src_port :: u16
  ck_dst_port :: u16

record ConnInfo =
  ci_pid :: u32
  ci_tgid :: u32
  ci_comm :: bytes
  ci_cgroup_id :: u64

record ConnStash =
  st_sock_ptr :: u64
  st_info :: ConnInfo

record ReasmKey =
  rk_conn :: ConnKey
  rk_dir :: u8

record ReasmState =
  rs_remaining :: u32
  rs_segments_left :: u8

section \<open>The capture record\<close>

definition RAW_PAYLOAD_SIZE :: nat where "RAW_PAYLOAD_SIZE = 4096"
definition ADDR_SIZE :: nat where "ADDR_SIZE = 16"
definition RAW_CAPTURE_HEADER_SIZE :: nat where "RAW_CAPTURE_HEADER_SIZE = 88"

definition TLS_HANDSHAKE_CLIENT_HELLO :: u8 where "TLS_HANDSHAKE_CLIENT_HELLO = 0x01"
definition TLS_HANDSHAKE_SERVER_HELLO :: u8 where "TLS_HANDSHAKE_SERVER_HELLO = 0x02"
definition TLS_HANDSHAKE_CERTIFICATE :: u8 where "TLS_HANDSHAKE_CERTIFICATE = 0x0B"
definition TLS_HANDSHAKE_CERTIFICATE_REQUEST :: u8 where "TLS_HANDSHAKE_CERTIFICATE_REQUEST = 0x0D"

definition FLAG_FRAGMENT :: u8 where "FLAG_FRAGMENT = push_bit 0 1"
definition FLAG_CONTINUATION :: u8 where "FLAG_CONTINUATION = push_bit 1 1"
definition FLAG_ALERT :: u8 where "FLAG_ALERT = push_bit 2 1"
definition FLAG_INGRESS :: u8 where "FLAG_INGRESS = push_bit 3 1"

definition MAX_REASM_SEGMENTS :: u8 where "MAX_REASM_SEGMENTS = 4"

lemmas flag_defs = FLAG_FRAGMENT_def FLAG_CONTINUATION_def FLAG_ALERT_def FLAG_INGRESS_def

lemmas hs_type_defs = TLS_HANDSHAKE_CLIENT_HELLO_def TLS_HANDSHAKE_SERVER_HELLO_def
  TLS_HANDSHAKE_CERTIFICATE_def TLS_HANDSHAKE_CERTIFICATE_REQUEST_def

record RawTlsCapture =
  timestamp_ns :: u64
  cgroup_id :: u64
  src_addr :: bytes
  dst_addr :: bytes
  src_port :: u16
  dst_port :: u16
  is_ipv6 :: u8
  handshake_type :: u8
  record_version :: u16
  payload_len :: u16
  tcp_seq :: u32
  flags :: u8
  content_type :: u8
  pid :: u32
  comm :: bytes
  payload :: bytes

definition default_capture :: RawTlsCapture where
  "default_capture =
     \<lparr>timestamp_ns = 0, cgroup_id = 0, src_addr = replicate ADDR_SIZE 0,
      dst_addr = replicate ADDR_SIZE 0, src_port = 0, dst_port = 0, is_ipv6 = 0,
      handshake_type = 0, record_version = 0, payload_len = 0, tcp_seq = 0, flags = 0,
      content_type = 0, pid = 0, comm = replicate 16 0, payload = replicate RAW_PAYLOAD_SIZE 0\<rparr>"

definition capture_wf :: "RawTlsCapture \<Rightarrow> bool" where
  "capture_wf c \<longleftrightarrow> length (src_addr c) = ADDR_SIZE \<and> length (dst_addr c) = ADDR_SIZE \<and>
     length (comm c) = 16 \<and> length (payload c) = RAW_PAYLOAD_SIZE"

text \<open>\<open>cap.flags & f != 0\<close>.\<close>

definition has_flag :: "u8 \<Rightarrow> RawTlsCapture \<Rightarrow> bool" where
  "has_flag f c = (flags c AND f \<noteq> 0)"

definition cap_is_ipv6 :: "RawTlsCapture \<Rightarrow> bool" where
  "cap_is_ipv6 c = (is_ipv6 c \<noteq> 0)"

definition payload_slice :: "RawTlsCapture \<Rightarrow> bytes" where
  "payload_slice c = take (min (unat (payload_len c)) RAW_PAYLOAD_SIZE) (payload c)"

definition cap_is_client_hello :: "RawTlsCapture \<Rightarrow> bool" where
  "cap_is_client_hello c = (handshake_type c = TLS_HANDSHAKE_CLIENT_HELLO)"

definition cap_is_server_hello :: "RawTlsCapture \<Rightarrow> bool" where
  "cap_is_server_hello c = (handshake_type c = TLS_HANDSHAKE_SERVER_HELLO)"

definition conn_key_of :: "RawTlsCapture \<Rightarrow> ConnKey" where
  "conn_key_of c =
     \<lparr>ck_src_addr = src_addr c, ck_dst_addr = dst_addr c,
      ck_src_port = src_port c, ck_dst_port = dst_port c\<rparr>"

lemma payload_slice_bound: "length (payload_slice c) \<le> RAW_PAYLOAD_SIZE"
  by (simp add: payload_slice_def)

lemma length_payload_slice:
  "capture_wf c \<Longrightarrow> length (payload_slice c) = min (unat (payload_len c)) RAW_PAYLOAD_SIZE"
  by (simp add: payload_slice_def capture_wf_def)

section \<open>Addresses as text\<close>

text \<open>
  \<open>format_addr\<close>.  For IPv6 it defers to \<open>Display for Ipv6Addr\<close>: IPv4-mapped addresses
  keep the dotted quad, otherwise the first longest run of two or more zero segments
  becomes \<open>::\<close>.
\<close>

fun segments :: "bytes \<Rightarrow> nat list" where
  "segments (a # b # r) = (unat a * 256 + unat b) # segments r"
| "segments _ = []"

fun zero_run :: "nat \<Rightarrow> nat \<times> nat \<Rightarrow> nat \<times> nat \<Rightarrow> nat list \<Rightarrow> nat \<times> nat" where
  "zero_run i cur best [] = best"
| "zero_run i cur best (s # ss) =
     (if s = 0
      then (let cur' = (if snd cur = 0 then i else fst cur, snd cur + 1)
            in zero_run (i + 1) cur' (if snd best < snd cur' then cur' else best) ss)
      else zero_run (i + 1) (0, 0) best ss)"

definition dotted :: "bytes \<Rightarrow> string" where
  "dotted a = join ''.'' (map (\<lambda>b. dec (unat b)) (take 4 a))"

definition ipv6_str :: "bytes \<Rightarrow> string" where
  "ipv6_str a =
     (let ss = segments a; z = zero_run 0 (0, 0) (0, 0) ss in
      if take 10 a = replicate 10 0 \<and> take 2 (drop 10 a) = [0xFF, 0xFF]
      then ''::ffff:'' @ dotted (drop 12 a)
      else if 1 < snd z
      then join '':'' (map hex (take (fst z) ss)) @ ''::'' @
           join '':'' (map hex (drop (fst z + snd z) ss))
      else join '':'' (map hex ss))"

definition format_addr :: "bytes \<Rightarrow> bool \<Rightarrow> string" where
  "format_addr a v6 = (if v6 then ipv6_str a else dotted a)"

definition src_addr_str :: "RawTlsCapture \<Rightarrow> string" where
  "src_addr_str c = format_addr (src_addr c) (cap_is_ipv6 c)"

definition dst_addr_str :: "RawTlsCapture \<Rightarrow> string" where
  "dst_addr_str c = format_addr (dst_addr c) (cap_is_ipv6 c)"

lemma format_addr_v4: "format_addr [192, 168, 1, 100] False = ''192.168.1.100''"
  by (simp add: format_addr_def dotted_def dec.simps)

lemma format_addr_v6:
  "format_addr [0x20, 0x01, 0x0d, 0xb8, 0, 0, 0, 0, 0, 0, 0, 0, 0, 0, 0, 1] True = ''2001:db8::1''"
  by (simp add: format_addr_def ipv6_str_def hex.simps)

section \<open>Across the ring buffer\<close>

text \<open>
  The memory image of a capture: every field at its \<open>repr(C)\<close> offset, with two bytes of
  padding before \<open>tcp_seq\<close> and two before \<open>pid\<close>.
\<close>

definition header_image :: "RawTlsCapture \<Rightarrow> bytes" where
  "header_image c =
     le_bytes 8 (unat (timestamp_ns c)) @ le_bytes 8 (unat (cgroup_id c)) @
     src_addr c @ dst_addr c @
     le_bytes 2 (unat (src_port c)) @ le_bytes 2 (unat (dst_port c)) @
     [is_ipv6 c, handshake_type c] @
     le_bytes 2 (unat (record_version c)) @ le_bytes 2 (unat (payload_len c)) @ [0, 0] @
     le_bytes 4 (unat (tcp_seq c)) @ [flags c, content_type c, 0, 0] @
     le_bytes 4 (unat (pid c)) @ comm c"

definition capture_image :: "RawTlsCapture \<Rightarrow> bytes" where
  "capture_image c = header_image c @ payload c"

definition CAPTURE_SIZE :: nat where
  "CAPTURE_SIZE = RAW_CAPTURE_HEADER_SIZE + RAW_PAYLOAD_SIZE"

definition le_at :: "nat \<Rightarrow> nat \<Rightarrow> bytes \<Rightarrow> 'a::len word" where
  "le_at n off bs = of_nat (le_val (take n (drop off bs)))"

definition bytes_at :: "nat \<Rightarrow> nat \<Rightarrow> bytes \<Rightarrow> bytes" where
  "bytes_at n off bs = take n (drop off bs)"

definition capture_of_image :: "bytes \<Rightarrow> RawTlsCapture" where
  "capture_of_image m =
     \<lparr>timestamp_ns = le_at 8 0 m, cgroup_id = le_at 8 8 m,
      src_addr = bytes_at 16 16 m, dst_addr = bytes_at 16 32 m,
      src_port = le_at 2 48 m, dst_port = le_at 2 50 m,
      is_ipv6 = le_at 1 52 m, handshake_type = le_at 1 53 m,
      record_version = le_at 2 54 m, payload_len = le_at 2 56 m,
      tcp_seq = le_at 4 60 m, flags = le_at 1 64 m, content_type = le_at 1 65 m,
      pid = le_at 4 68 m, comm = bytes_at 16 72 m, payload = bytes_at RAW_PAYLOAD_SIZE 88 m\<rparr>"

text \<open>
  What the loader makes of one ring-buffer item: nothing if it is shorter than the header,
  otherwise a zeroed structure overwritten by the bytes received (at most its size).
\<close>

definition drain_item :: "bytes \<Rightarrow> RawTlsCapture option" where
  "drain_item bs =
     (if length bs < RAW_CAPTURE_HEADER_SIZE then None
      else let copy_len = min (length bs) CAPTURE_SIZE in
        Some (capture_of_image
          (take copy_len bs @ drop copy_len (capture_image default_capture))))"

text \<open>The bytes the kernel half emits for a capture.\<close>

definition emitted_bytes :: "RawTlsCapture \<Rightarrow> bytes" where
  "emitted_bytes c =
     take (RAW_CAPTURE_HEADER_SIZE + min (unat (payload_len c)) RAW_PAYLOAD_SIZE) (capture_image c)"

lemma length_header_image: "capture_wf c \<Longrightarrow> length (header_image c) = RAW_CAPTURE_HEADER_SIZE"
  by (simp add: header_image_def capture_wf_def ADDR_SIZE_def RAW_CAPTURE_HEADER_SIZE_def)

lemma default_capture_wf: "capture_wf default_capture"
  by (simp add: capture_wf_def default_capture_def)

lemma capture_of_image_header:
  assumes "capture_wf c" "length p = RAW_PAYLOAD_SIZE"
  shows "capture_of_image (header_image c @ p) = c\<lparr>payload := p\<rparr>"
  using assms
  by (simp add: capture_of_image_def header_image_def capture_wf_def le_at_def bytes_at_def
      ADDR_SIZE_def le_word_roundtrip)

lemma drain_emitted:
  assumes "capture_wf c"
  shows "drain_item (emitted_bytes c) =
    Some (c\<lparr>payload := payload_slice c @ replicate (RAW_PAYLOAD_SIZE - length (payload_slice c)) 0\<rparr>)"
proof -
  let ?n = "min (unat (payload_len c)) RAW_PAYLOAD_SIZE"
  have len: "length (header_image c) = RAW_CAPTURE_HEADER_SIZE"
    and plen: "length (payload c) = RAW_PAYLOAD_SIZE"
    and dlen: "length (header_image default_capture) = RAW_CAPTURE_HEADER_SIZE"
    using assms default_capture_wf by (simp_all add: length_header_image capture_wf_def)
  have em: "emitted_bytes c = header_image c @ take ?n (payload c)"
    using len by (simp add: emitted_bytes_def capture_image_def)
  then have elen: "length (emitted_bytes c) = RAW_CAPTURE_HEADER_SIZE + ?n"
    using len plen by simp
  have "drop (RAW_CAPTURE_HEADER_SIZE + ?n) (capture_image default_capture) =
      replicate (RAW_PAYLOAD_SIZE - ?n) 0"
    using dlen by (simp add: capture_image_def default_capture_def)
  then have "drain_item (emitted_bytes c) =
      Some (capture_of_image (header_image c @ (take ?n (payload c) @ replicate (RAW_PAYLOAD_SIZE - ?n) 0)))"
    using elen by (simp add: drain_item_def Let_def CAPTURE_SIZE_def) (simp add: em)
  also have "\<dots> = Some (c\<lparr>payload := take ?n (payload c) @ replicate (RAW_PAYLOAD_SIZE - ?n) 0\<rparr>)"
    using assms plen by (subst capture_of_image_header) simp_all
  finally show ?thesis
    using plen by (simp add: payload_slice_def)
qed

end
