(* ===== verification/Stores.thy ===== *)
theory Stores
  imports Probe_Prelude
begin

text \<open>
  The keyed containers of the user-space half: \<open>std::collections::HashMap\<close> and
  \<open>BTreeMap\<close>, and the interface the correlator and the reassembler use them through.

  Both containers are association lists without duplicate keys.  A \<open>BTreeMap\<close> keeps its
  entries in key order, which the reassembler relies on; a \<open>HashMap\<close> promises no order,
  so code that iterates over one takes the iteration order as a parameter.

  The locale \<open>kv_store\<close> states what a client may rely on; it is interpreted on both
  containers below.
\<close>

section \<open>The interface\<close>

locale kv_store =
  fixes empty :: "'m"
    and insert :: "'k \<Rightarrow> 'v \<Rightarrow> 'm \<Rightarrow> 'm"
    and remove :: "'k \<Rightarrow> 'm \<Rightarrow> 'm"
    and entries :: "'m \<Rightarrow> ('k \<times> 'v) list"
    and invar :: "'m \<Rightarrow> bool"
  assumes entries_empty: "entries empty = []"
    and invar_empty: "invar empty"
    and distinct_keys: "invar m \<Longrightarrow> distinct (map fst (entries m))"
    and lookup_insert: "invar m \<Longrightarrow> map_of (entries (insert k v m)) = (map_of (entries m))(k \<mapsto> v)"
    and lookup_remove: "invar m \<Longrightarrow> map_of (entries (remove k m)) = (map_of (entries m))(k := None)"
    and invar_insert: "invar m \<Longrightarrow> invar (insert k v m)"
    and invar_remove: "invar m \<Longrightarrow> invar (remove k m)"
begin

lemma len_card: "invar m \<Longrightarrow> length (entries m) = card (dom (map_of (entries m)))"
  by (metis distinct_keys distinct_card dom_map_of_conv_image_fst length_map set_map)

lemma len_insert:
  assumes "invar m"
  shows "length (entries (insert k v m)) =
    (if map_of (entries m) k = None then Suc (length (entries m)) else length (entries m))"
proof -
  have "length (entries (insert k v m)) = card (Set.insert k (dom (map_of (entries m))))"
    using assms by (simp add: len_card invar_insert lookup_insert)
  moreover have "finite (dom (map_of (entries m)))"
    by (rule finite_dom_map_of)
  ultimately show ?thesis
    using assms by (auto simp: card_insert_if len_card domIff)
qed

lemma len_remove:
  assumes "invar m"
  shows "length (entries (remove k m)) =
    (if map_of (entries m) k = None then length (entries m) else length (entries m) - 1)"
proof -
  have "length (entries (remove k m)) = card (dom (map_of (entries m)) - {k})"
    using assms by (simp add: len_card invar_remove lookup_remove)
  moreover have "finite (dom (map_of (entries m)))"
    by (rule finite_dom_map_of)
  ultimately show ?thesis
    using assms by (auto simp: len_card domIff)
qed

lemma len_remove_le: "invar m \<Longrightarrow> length (entries (remove k m)) \<le> length (entries m)"
  by (simp add: len_remove)

lemma len_insert_le: "invar m \<Longrightarrow> length (entries (insert k v m)) \<le> Suc (length (entries m))"
  by (simp add: len_insert)

text \<open>
  Making room before an insertion: a container that is at its limit loses one present key
  first, so a limit of at least one entry is kept.
\<close>

lemma evict_then_insert_bound:
  assumes "invar m" "length (entries m) \<le> n" "0 < n"
    and "n \<le> length (entries m) \<Longrightarrow> map_of (entries m) k' \<noteq> None \<and> m' = remove k' m"
    and "\<not> n \<le> length (entries m) \<Longrightarrow> m' = m"
  shows "length (entries (insert k v m')) \<le> n"
proof (cases "n \<le> length (entries m)")
  case True
  with assms have m': "m' = remove k' m" and k': "map_of (entries m) k' \<noteq> None"
    by auto
  have "length (entries (insert k v m')) \<le> Suc (length (entries m'))"
    using assms(1) m' by (simp add: len_insert_le invar_remove)
  also have "length (entries m') = length (entries m) - 1"
    using assms(1) k' by (auto simp: m' len_remove)
  finally show ?thesis using assms(2,3) True by linarith
next
  case False
  with assms have "length (entries (insert k v m')) \<le> Suc (length (entries m))"
    by (simp add: len_insert_le)
  with False show ?thesis by simp
qed

end

section \<open>HashMap\<close>

definition hm_insert :: "'k \<Rightarrow> 'v \<Rightarrow> ('k \<times> 'v) list \<Rightarrow> ('k \<times> 'v) list" where
  "hm_insert k v m = (k, v) # filter (\<lambda>e. fst e \<noteq> k) m"

definition kv_remove :: "'k \<Rightarrow> ('k \<times> 'v) list \<Rightarrow> ('k \<times> 'v) list" where
  "kv_remove k m = filter (\<lambda>e. fst e \<noteq> k) m"

text \<open>\<open>get_mut\<close> followed by an assignment: the entry of \<open>k\<close>, if any, is updated in place.\<close>

definition kv_modify :: "'k \<Rightarrow> ('v \<Rightarrow> 'v) \<Rightarrow> ('k \<times> 'v) list \<Rightarrow> ('k \<times> 'v) list" where
  "kv_modify k f m = map (\<lambda>(j, v). (j, if j = k then f v else v)) m"

definition hm_ok :: "('k \<times> 'v) list \<Rightarrow> bool" where
  "hm_ok m \<longleftrightarrow> distinct (map fst m)"

lemma map_of_filter_fst:
  "map_of (filter (\<lambda>e. fst e \<noteq> k) m) = (map_of m)(k := None)"
  by (induction m) (auto simp: fun_eq_iff)

lemma map_of_kv_remove [simp]: "map_of (kv_remove k m) = (map_of m)(k := None)"
  by (simp add: kv_remove_def map_of_filter_fst)

lemma map_of_hm_insert [simp]: "map_of (hm_insert k v m) = (map_of m)(k \<mapsto> v)"
  by (simp add: hm_insert_def map_of_filter_fst)

lemma map_of_kv_modify [simp]:
  "map_of (kv_modify k f m) = (\<lambda>j. if j = k then map_option f (map_of m k) else map_of m j)"
  by (induction m) (auto simp: kv_modify_def fun_eq_iff)

lemma keys_kv_modify [simp]: "map fst (kv_modify k f m) = map fst m"
  by (induction m) (auto simp: kv_modify_def)

lemma length_kv_modify [simp]: "length (kv_modify k f m) = length m"
  by (simp add: kv_modify_def)

lemma distinct_filter_fst: "distinct (map fst m) \<Longrightarrow> distinct (map fst (filter P m))"
  by (induction m) auto

lemma hm_ok_insert [simp]: "hm_ok m \<Longrightarrow> hm_ok (hm_insert k v m)"
  by (auto simp: hm_ok_def hm_insert_def intro: distinct_filter_fst)

lemma hm_ok_remove [simp]: "hm_ok m \<Longrightarrow> hm_ok (kv_remove k m)"
  by (simp add: hm_ok_def kv_remove_def distinct_filter_fst)

lemma hm_ok_modify [simp]: "hm_ok (kv_modify k f m) = hm_ok m"
  by (simp add: hm_ok_def)

interpretation hm: kv_store "[]" hm_insert kv_remove "\<lambda>m. m" hm_ok
proof (unfold_locales, goal_cases)
  case 1 show ?case by simp
next
  case 2 show ?case by (simp add: hm_ok_def)
next
  case (3 m) then show ?case by (simp add: hm_ok_def)
next
  case (4 m k v) show ?case by simp
next
  case (5 m k) show ?case by simp
next
  case (6 m k v) then show ?case by simp
next
  case (7 m k) then show ?case by simp
qed

section \<open>BTreeMap\<close>

fun bt_insert :: "'k::linorder \<Rightarrow> 'v \<Rightarrow> ('k \<times> 'v) list \<Rightarrow> ('k \<times> 'v) list" where
  "bt_insert k v [] = [(k, v)]"
| "bt_insert k v ((j, w) # m) =
     (if k < j then (k, v) # (j, w) # m
      else if k = j then (k, v) # m
      else (j, w) # bt_insert k v m)"

definition bt_ok :: "('k::linorder \<times> 'v) list \<Rightarrow> bool" where
  "bt_ok m \<longleftrightarrow> sorted_wrt (<) (map fst m)"

lemma bt_ok_Nil [simp]: "bt_ok []"
  by (simp add: bt_ok_def)

lemma bt_ok_Cons [simp]: "bt_ok ((k, v) # m) \<longleftrightarrow> (\<forall>j \<in> fst ` set m. k < j) \<and> bt_ok m"
  by (auto simp: bt_ok_def)

lemma bt_ok_distinct: "bt_ok m \<Longrightarrow> distinct (map fst m)"
  by (simp add: bt_ok_def strict_sorted_iff)

lemma map_of_bt_insert [simp]: "map_of (bt_insert k v m) = (map_of m)(k \<mapsto> v)"
  by (induction m rule: bt_insert.induct) (auto simp: fun_eq_iff)

lemma keys_bt_insert: "fst ` set (bt_insert k v m) = insert k (fst ` set m)"
  by (induction k v m rule: bt_insert.induct) auto

lemma bt_ok_insert [simp]: "bt_ok m \<Longrightarrow> bt_ok (bt_insert k v m)"
  by (induction k v m rule: bt_insert.induct) (auto simp: keys_bt_insert)

lemma bt_ok_filter: "bt_ok m \<Longrightarrow> bt_ok (filter P m)"
  by (induction m) auto

lemma bt_ok_remove [simp]: "bt_ok m \<Longrightarrow> bt_ok (kv_remove k m)"
  by (simp add: kv_remove_def bt_ok_filter)

lemma bt_ok_modify [simp]: "bt_ok (kv_modify k f m) = bt_ok m"
  by (simp add: bt_ok_def)

lemma set_bt_insert: "bt_ok m \<Longrightarrow> set (bt_insert k v m) = insert (k, v) {e \<in> set m. fst e \<noteq> k}"
  by (induction k v m rule: bt_insert.induct) auto

lemma set_bt_insert_sub: "set (bt_insert k v m) \<subseteq> insert (k, v) (set m)"
  by (induction k v m rule: bt_insert.induct) auto

lemma bt_insert_not_Nil [simp]: "bt_insert k v m \<noteq> []"
  by (induction k v m rule: bt_insert.induct) auto

lemma bt_ok_map_of: "bt_ok m \<Longrightarrow> map_of m k = Some v \<longleftrightarrow> (k, v) \<in> set m"
  by (simp add: bt_ok_distinct)

text \<open>A sorted map is determined by what it looks up.\<close>

lemma bt_ok_unique:
  assumes "bt_ok m" "bt_ok m'" "set m = set m'"
  shows "m = m'"
proof -
  have "sorted (map fst m)" "distinct (map fst m)" "sorted (map fst m')" "distinct (map fst m')"
    using assms(1,2) by (simp_all add: bt_ok_def strict_sorted_iff)
  then have "map fst m = map fst m'"
    using assms(3) by (metis list.set_map sorted_distinct_set_unique)
  moreover have "map snd m = map (the \<circ> map_of m) (map fst m)"
    "map snd m' = map (the \<circ> map_of m') (map fst m')"
    using bt_ok_distinct [OF assms(1)] bt_ok_distinct [OF assms(2)] by (auto simp: map_of_eq_Some_iff)
  moreover have "map_of m = map_of m'"
    using assms by (simp add: map_of_inject_set bt_ok_distinct)
  ultimately show ?thesis
    by (metis zip_map_fst_snd)
qed

lemma kv_remove_bt_insert [simp]: "kv_remove k (bt_insert k v m) = kv_remove k m"
  by (induction k v m rule: bt_insert.induct) (auto simp: kv_remove_def)

lemma kv_modify_absent: "map_of m k = None \<Longrightarrow> kv_modify k f m = m"
  by (induction m) (auto simp: kv_modify_def split: if_splits)

lemma kv_modify_bt_insert:
  "map_of m k = None \<Longrightarrow> kv_modify k f (bt_insert k v m) = bt_insert k (f v) m"
proof (induction k v m rule: bt_insert.induct)
  case (1 k v)
  then show ?case
    by (simp add: kv_modify_def)
next
  case (2 k v j w m)
  then have "kv_modify k f m = m"
    by (intro kv_modify_absent) (simp split: if_splits)
  with 2 show ?case
    by (auto simp: kv_modify_def split: if_splits)
qed

lemma kv_remove_modify [simp]: "kv_remove k (kv_modify k f m) = kv_remove k m"
  by (induction m) (auto simp: kv_remove_def kv_modify_def)

lemma kv_remove_absent: "map_of m k = None \<Longrightarrow> kv_remove k m = m"
  by (induction m) (auto simp: kv_remove_def split: if_splits)

interpretation bt: kv_store "[]" bt_insert kv_remove "\<lambda>m. m" bt_ok
proof (unfold_locales, goal_cases)
  case 1 show ?case by simp
next
  case 2 show ?case by simp
next
  case (3 m) then show ?case by (rule bt_ok_distinct)
next
  case (4 m k v) show ?case by simp
next
  case (5 m k) show ?case by simp
next
  case (6 m k v) then show ?case by simp
next
  case (7 m k) then show ?case by simp
qed

end
