(* ===== verification/Loader.thy ===== *)
theory Loader
  imports Procfs Capture_Record Stores
begin

text \<open>
  \<open>crates/tls-probe-cli/src/loader.rs\<close> and \<open>error.rs\<close>: which interfaces the probe attaches to, what it
  attaches, and the task that drains the ring buffer into the channel to the worker.

  The files of procfs and sysfs are in \<open>NetEnv\<close>, \<open>None\<close> for one that cannot be read.  aya, which
  loads and attaches the programs, is a parameter: which of its calls fail, with which error.
  The text of a wrapped error is not modelled.
\<close>

section \<open>Interfaces\<close>

datatype ProbeError = LoadError string | AttachError string | MapNotFound string

record NetEnv =
  ne_route :: "string option"
  ne_if_inet6 :: "string option"
  ne_net_dir :: "string list option"
  ne_operstate :: "string \<Rightarrow> string option"

definition LOOPBACK_IFACE :: string where
  "LOOPBACK_IFACE = ''lo''"

definition DEFAULT_ROUTE_DEST :: string where
  "DEFAULT_ROUTE_DEST = ''00000000''"

definition ACTIVE_OPERSTATES :: "string list" where
  "ACTIVE_OPERSTATES = [''up'', ''unknown'']"

definition IPV4_LINK_LOCAL_PREFIX :: u32 where
  "IPV4_LINK_LOCAL_PREFIX = 0x0000FEA9"

definition IPV4_LINK_LOCAL_MASK :: u32 where
  "IPV4_LINK_LOCAL_MASK = 0x0000FFFF"

definition IPV6_SCOPE_LINK_LOCAL :: nat where
  "IPV6_SCOPE_LINK_LOCAL = 0x20"

fun default_route_in :: "string list \<Rightarrow> string option" where
  "default_route_in [] = None"
| "default_route_in (line # rest) =
     (let fields = split_whitespace line in
      if length fields \<ge> 2 \<and> fields ! 1 = DEFAULT_ROUTE_DEST then Some (fields ! 0) else default_route_in rest)"

definition detect_default_interface :: "NetEnv \<Rightarrow> (ProbeError, string) run" where
  "detect_default_interface env =
     (case ne_route env of
        None \<Rightarrow> Fail (LoadError ''Failed to read route table'')
      | Some route \<Rightarrow>
          (case default_route_in (drop 1 (str_lines route)) of
             Some iface \<Rightarrow> Ret iface
           | None \<Rightarrow> Fail (LoadError ''No default route found. Use --interface to specify explicitly.'')))"

definition is_operationally_up :: "NetEnv \<Rightarrow> string \<Rightarrow> bool" where
  "is_operationally_up env iface =
     (case ne_operstate env iface of None \<Rightarrow> False | Some s \<Rightarrow> trim s \<in> set ACTIVE_OPERSTATES)"

definition routable_v4_line :: "string \<Rightarrow> string \<Rightarrow> bool" where
  "routable_v4_line iface line =
     (let fields = split_whitespace line in
      if fields = [] then False
      else if fields ! 0 \<noteq> iface then False
      else if length fields < 3 then False
      else
        (case from_str_radix 32 16 (fields ! 1) of
           None \<Rightarrow> False
         | Some dest \<Rightarrow>
             (let gateway = (case from_str_radix 32 16 (fields ! 2) of None \<Rightarrow> 0 | Some g \<Rightarrow> g) in
              (of_nat dest AND IPV4_LINK_LOCAL_MASK) \<noteq> IPV4_LINK_LOCAL_PREFIX \<or> gateway \<noteq> 0)))"

definition has_routable_ipv4 :: "NetEnv \<Rightarrow> string \<Rightarrow> bool" where
  "has_routable_ipv4 env iface =
     (case ne_route env of None \<Rightarrow> False | Some route \<Rightarrow> list_ex (routable_v4_line iface) (drop 1 (str_lines route)))"

definition routable_v6_line :: "string \<Rightarrow> string \<Rightarrow> bool" where
  "routable_v6_line iface line =
     (let fields = split_whitespace line in
      if length fields < 6 then False
      else if fields ! 5 \<noteq> iface then False
      else
        (case from_str_radix 32 16 (fields ! 3) of
           None \<Rightarrow> False
         | Some scope \<Rightarrow> scope \<noteq> IPV6_SCOPE_LINK_LOCAL))"

definition has_routable_ipv6 :: "NetEnv \<Rightarrow> string \<Rightarrow> bool" where
  "has_routable_ipv6 env iface =
     (case ne_if_inet6 env of None \<Rightarrow> False | Some content \<Rightarrow> list_ex (routable_v6_line iface) (str_lines content))"

definition has_routable_address :: "NetEnv \<Rightarrow> string \<Rightarrow> bool" where
  "has_routable_address env iface = (has_routable_ipv4 env iface \<or> has_routable_ipv6 env iface)"

definition detect_routable_interfaces :: "NetEnv \<Rightarrow> (ProbeError, string list) run" where
  "detect_routable_interfaces env =
     (case ne_net_dir env of
        None \<Rightarrow> Fail (LoadError ''Failed to read /sys/class/net'')
      | Some names \<Rightarrow>
          (let candidates =
             filter (has_routable_address env) (filter (is_operationally_up env) (filter (\<lambda>n. n \<noteq> LOOPBACK_IFACE) names))
           in if candidates = []
              then Fail (LoadError ''No routable interfaces found. Use --interface to specify explicitly.'')
              else Ret candidates))"

definition detect_interfaces :: "NetEnv \<Rightarrow> string \<Rightarrow> (ProbeError, string list) run" where
  "detect_interfaces env mode =
     (if mode = ''auto'' then run_map (\<lambda>iface. [iface]) (detect_default_interface env)
      else if mode = ''all'' then detect_routable_interfaces env
      else Ret (map trim (split_on CHR '','' mode)))"

section \<open>Attaching\<close>

datatype EbpfProgram = Ingress | Egress

definition program_name :: "EbpfProgram \<Rightarrow> string" where
  "program_name p = (case p of Ingress \<Rightarrow> ''tls_ingress'' | Egress \<Rightarrow> ''tls_egress'')"

definition CONNECT_KPROBES :: "string list" where
  "CONNECT_KPROBES = [''tcp_v4_connect'', ''tcp_v6_connect'']"

definition CONNECT_KRETPROBES :: "(string \<times> string) list" where
  "CONNECT_KRETPROBES = [(''tcp_v4_connect_ret'', ''tcp_v4_connect''), (''tcp_v6_connect_ret'', ''tcp_v6_connect'')]"

definition ACCEPT_KRETPROBE :: string where
  "ACCEPT_KRETPROBE = ''inet_csk_accept''"

text \<open>
  \<open>lo_live\<close> and \<open>lo_probes\<close> are what the kernel has attached: classifiers to interfaces, probes to
  kernel functions.  They stay when the loader skips an interface or gives up on attribution.
\<close>

record TlsProbeLoader =
  lo_programs_loaded :: bool
  lo_attached_interfaces :: "string list"
  lo_live :: "(EbpfProgram \<times> string) list"
  lo_probes :: "(string \<times> string) list"

text \<open>
  aya's answers, an error or none: finding a program of the object file, converting it to its type and
  loading it; attaching a classifier to an interface; attaching a probe to a kernel function.
\<close>

record Aya =
  ay_load :: "string \<Rightarrow> ProbeError option"
  ay_attach :: "EbpfProgram \<Rightarrow> string \<Rightarrow> ProbeError option"
  ay_attach_probe :: "string \<Rightarrow> string \<Rightarrow> ProbeError option"

definition loader_new :: TlsProbeLoader where
  "loader_new = \<lparr>lo_programs_loaded = False, lo_attached_interfaces = [], lo_live = [], lo_probes = []\<rparr>"

primrec load_classifiers :: "Aya \<Rightarrow> EbpfProgram list \<Rightarrow> (ProbeError, unit) run" where
  "load_classifiers ay [] = Ret ()"
| "load_classifiers ay (p # ps) =
     (case ay_load ay (program_name p) of Some e \<Rightarrow> Fail e | None \<Rightarrow> load_classifiers ay ps)"

text \<open>One iteration per probe: its program and the function it attaches to.\<close>

fun attach_probes :: "Aya \<Rightarrow> (string \<times> string) list \<Rightarrow> TlsProbeLoader \<Rightarrow> ProbeError option \<times> TlsProbeLoader" where
  "attach_probes ay [] lo = (None, lo)"
| "attach_probes ay ((prog, fn) # ps) lo =
     (case ay_load ay prog of
        Some e \<Rightarrow> (Some e, lo)
      | None \<Rightarrow>
          (case ay_attach_probe ay prog fn of
             Some e \<Rightarrow> (Some e, lo)
           | None \<Rightarrow> attach_probes ay ps (lo\<lparr>lo_probes := lo_probes lo @ [(prog, fn)]\<rparr>)))"

definition load_and_attach_attribution_probes :: "Aya \<Rightarrow> TlsProbeLoader \<Rightarrow> ProbeError option \<times> TlsProbeLoader" where
  "load_and_attach_attribution_probes ay lo =
     (case attach_probes ay (map (\<lambda>name. (name, name)) CONNECT_KPROBES) lo of
        (Some e, lo1) \<Rightarrow> (Some e, lo1)
      | (None, lo1) \<Rightarrow>
          (case attach_probes ay CONNECT_KRETPROBES lo1 of
             (Some e, lo2) \<Rightarrow> (Some e, lo2)
           | (None, lo2) \<Rightarrow> attach_probes ay [(ACCEPT_KRETPROBE, ACCEPT_KRETPROBE)] lo2))"

text \<open>The error of the attribution probes is a warning.\<close>

definition load_programs :: "Aya \<Rightarrow> TlsProbeLoader \<Rightarrow> (ProbeError, TlsProbeLoader) run" where
  "load_programs ay lo =
     rbind (load_classifiers ay [Ingress, Egress]) (\<lambda>_.
     Ret ((snd (load_and_attach_attribution_probes ay lo))\<lparr>lo_programs_loaded := True\<rparr>))"

primrec attach_programs ::
  "Aya \<Rightarrow> string \<Rightarrow> EbpfProgram list \<Rightarrow> TlsProbeLoader \<Rightarrow> ProbeError option \<times> TlsProbeLoader" where
  "attach_programs ay iface [] lo = (None, lo)"
| "attach_programs ay iface (p # ps) lo =
     (case ay_attach ay p iface of
        Some e \<Rightarrow> (Some e, lo)
      | None \<Rightarrow> attach_programs ay iface ps (lo\<lparr>lo_live := lo_live lo @ [(p, iface)]\<rparr>))"

definition attach_interface :: "Aya \<Rightarrow> string \<Rightarrow> TlsProbeLoader \<Rightarrow> ProbeError option \<times> TlsProbeLoader" where
  "attach_interface ay iface lo = attach_programs ay iface [Ingress, Egress] lo"

definition link_ids :: "string \<Rightarrow> string list" where
  "link_ids iface = [''tc:'' @ iface @ '':ingress'', ''tc:'' @ iface @ '':egress'']"

primrec attach_all :: "Aya \<Rightarrow> string list \<Rightarrow> string list \<Rightarrow> TlsProbeLoader \<Rightarrow> string list \<times> TlsProbeLoader" where
  "attach_all ay [] attached lo = (attached, lo)"
| "attach_all ay (iface # ifaces) attached lo =
     (case attach_interface ay iface lo of
        (None, lo1) \<Rightarrow>
          attach_all ay ifaces (attached @ link_ids iface)
            (lo1\<lparr>lo_attached_interfaces := lo_attached_interfaces lo1 @ [iface]\<rparr>)
      | (Some e, lo1) \<Rightarrow> attach_all ay ifaces attached lo1)"

definition loader_attach :: "Aya \<Rightarrow> string list \<Rightarrow> TlsProbeLoader \<Rightarrow> (ProbeError, string list) run \<times> TlsProbeLoader" where
  "loader_attach ay ifaces lo =
     (case (if lo_programs_loaded lo then Ret lo else load_programs ay lo) of
        Panic \<Rightarrow> (Panic, lo)
      | Fail e \<Rightarrow> (Fail e, lo)
      | Ret lo1 \<Rightarrow>
          (case attach_all ay ifaces [] lo1 of
             (attached, lo2) \<Rightarrow>
               (if attached = []
                then Fail (AttachError ''No probes were attached. Use --interface to specify a valid interface.'')
                else Ret attached, lo2)))"

section \<open>Draining the ring buffer\<close>

text \<open>
  The channel to the worker: what it holds, its capacity, whether its receiver is there.  \<open>try_send\<close>
  never waits.
\<close>

record Channel =
  ch_queue :: "RawTlsCapture list"
  ch_capacity :: nat
  ch_open :: bool

datatype SendResult = SendOk | SendFull | SendClosed

definition try_send :: "RawTlsCapture \<Rightarrow> Channel \<Rightarrow> SendResult \<times> Channel" where
  "try_send c ch =
     (if \<not> ch_open ch then (SendClosed, ch)
      else if length (ch_queue ch) \<ge> ch_capacity ch then (SendFull, ch)
      else (SendOk, ch\<lparr>ch_queue := ch_queue ch @ [c]\<rparr>))"

text \<open>One item of the ring buffer; \<open>False\<close> when the task returns.\<close>

definition drain_one :: "bytes \<Rightarrow> u64 \<Rightarrow> Channel \<Rightarrow> bool \<times> u64 \<times> Channel" where
  "drain_one item dropped ch =
     (case drain_item item of
        None \<Rightarrow> (True, dropped, ch)
      | Some capture \<Rightarrow>
          (case try_send capture ch of
             (SendOk, ch1) \<Rightarrow> (True, dropped, ch1)
           | (SendFull, ch1) \<Rightarrow> (True, dropped + 1, ch1)
           | (SendClosed, ch1) \<Rightarrow> (False, dropped, ch1)))"

text \<open>
  The task runs beside the kernel, which appends to the ring buffer, and the worker, which takes
  from the channel and may go away; the loader stops the task when the capture ends.  One step is
  one action of one of them; the two loops of the task are the repetition of \<open>Drain\<close>.
\<close>

record Pipe =
  pi_ring :: "bytes list"
  pi_draining :: bool
  pi_dropped :: u64
  pi_chan :: Channel

datatype PipeEvent = Emit bytes | Drain | Receive RawTlsCapture | HangUp | Halt

definition EVENT_CHANNEL_CAPACITY :: nat where
  "EVENT_CHANNEL_CAPACITY = 1000"

definition pipe_new :: Pipe where
  "pipe_new =
     \<lparr>pi_ring = [], pi_draining = True, pi_dropped = 0,
      pi_chan = \<lparr>ch_queue = [], ch_capacity = EVENT_CHANNEL_CAPACITY, ch_open = True\<rparr>\<rparr>"

inductive pipe_step :: "Pipe \<Rightarrow> PipeEvent \<Rightarrow> Pipe \<Rightarrow> bool" where
  emit: "pipe_step p (Emit item) (p\<lparr>pi_ring := pi_ring p @ [item]\<rparr>)"
| drain: "pi_draining p \<Longrightarrow> pi_ring p = item # rest \<Longrightarrow>
    drain_one item (pi_dropped p) (pi_chan p) = (go, dropped, ch) \<Longrightarrow>
    pipe_step p Drain (p\<lparr>pi_ring := rest, pi_draining := go, pi_dropped := dropped, pi_chan := ch\<rparr>)"
| receive: "ch_queue (pi_chan p) = c # q \<Longrightarrow>
    pipe_step p (Receive c) (p\<lparr>pi_chan := (pi_chan p)\<lparr>ch_queue := q\<rparr>\<rparr>)"
| hang_up: "pipe_step p HangUp (p\<lparr>pi_chan := (pi_chan p)\<lparr>ch_open := False\<rparr>\<rparr>)"
| halt: "pipe_step p Halt (p\<lparr>pi_draining := False\<rparr>)"

inductive pipe_run :: "PipeEvent list \<Rightarrow> Pipe \<Rightarrow> bool" where
  start: "pipe_run [] pipe_new"
| step: "pipe_run evs p \<Longrightarrow> pipe_step p ev p' \<Longrightarrow> pipe_run (evs @ [ev]) p'"

definition emitted :: "PipeEvent list \<Rightarrow> bytes list" where
  "emitted evs = List.map_filter (\<lambda>ev. case ev of Emit item \<Rightarrow> Some item | _ \<Rightarrow> None) evs"

definition received :: "PipeEvent list \<Rightarrow> RawTlsCapture list" where
  "received evs = List.map_filter (\<lambda>ev. case ev of Receive c \<Rightarrow> Some c | _ \<Rightarrow> None) evs"

section \<open>What the drain task keeps\<close>

lemma map_filter_append [simp]: "List.map_filter f (xs @ ys) = List.map_filter f xs @ List.map_filter f ys"
  by (simp add: List.map_filter_def)

lemma trace_append [simp]:
  "emitted (evs @ [ev]) = emitted evs @ (case ev of Emit item \<Rightarrow> [item] | _ \<Rightarrow> [])"
  "received (evs @ [ev]) = received evs @ (case ev of Receive c \<Rightarrow> [c] | _ \<Rightarrow> [])"
  by (cases ev; simp add: emitted_def received_def map_filter_simps)+

text \<open>
  \<open>accounted taken got n\<close>: of the items taken from the ring buffer, those that are captures are in
  \<open>got\<close>, in order, but for \<open>n\<close> of them.
\<close>

definition accounted :: "bytes list \<Rightarrow> RawTlsCapture list \<Rightarrow> nat \<Rightarrow> bool" where
  "accounted taken got n =
     (subseq got (List.map_filter drain_item taken) \<and>
      length (List.map_filter drain_item taken) = length got + n)"

lemma subseq_snoc: "subseq xs ys \<Longrightarrow> subseq xs (ys @ [y])" "subseq xs ys \<Longrightarrow> subseq (xs @ [y]) (ys @ [y])"
  by (auto intro: subseq_append_iff [THEN iffD2] list_emb_append_mono)

lemma accounted_steps:
  assumes "accounted taken got n"
  shows "drain_item item = None \<Longrightarrow> accounted (taken @ [item]) got n"
    "drain_item item = Some c \<Longrightarrow> accounted (taken @ [item]) (got @ [c]) n"
    "drain_item item = Some c \<Longrightarrow> accounted (taken @ [item]) got (Suc n)"
  using assms by (simp_all add: accounted_def map_filter_simps subseq_snoc)

definition pipe_ok :: "PipeEvent list \<Rightarrow> Pipe \<Rightarrow> bool" where
  "pipe_ok evs p =
     (ch_open (pi_chan p) \<and> ch_capacity (pi_chan p) = EVENT_CHANNEL_CAPACITY \<and>
      length (ch_queue (pi_chan p)) \<le> EVENT_CHANNEL_CAPACITY \<and>
      (\<exists>taken n. emitted evs = taken @ pi_ring p \<and> pi_dropped p = of_nat n \<and>
         accounted taken (received evs @ ch_queue (pi_chan p)) n))"

lemma drain_one_ok:
  assumes "drain_one item dropped ch = (go, dropped', ch')" "ch_open ch" "length (ch_queue ch) \<le> ch_capacity ch"
    and acc: "accounted taken (got @ ch_queue ch) n" and n: "dropped = of_nat n"
  shows "go \<and> ch_open ch' \<and> ch_capacity ch' = ch_capacity ch \<and> length (ch_queue ch') \<le> ch_capacity ch \<and>
    (\<exists>m. dropped' = of_nat m \<and> accounted (taken @ [item]) (got @ ch_queue ch') m)"
proof (cases "drain_item item")
  case None
  then show ?thesis
    using assms accounted_steps(1) [OF acc None] by (auto simp: drain_one_def)
next
  case (Some c)
  show ?thesis
  proof (cases "ch_capacity ch \<le> length (ch_queue ch)")
    case True
    then have "dropped' = of_nat (Suc n) \<and> ch' = ch \<and> go"
      using assms Some by (auto simp: drain_one_def try_send_def add.commute)
    then show ?thesis
      using assms(2,3) accounted_steps(3) [OF acc Some] by blast
  next
    case False
    then have "dropped' = of_nat n \<and> ch' = ch\<lparr>ch_queue := ch_queue ch @ [c]\<rparr> \<and> go"
      using assms Some by (simp add: drain_one_def try_send_def)
    then show ?thesis
      using assms(2) False accounted_steps(2) [OF acc Some] by auto
  qed
qed

lemma pipe_step_ok:
  assumes "pipe_step p ev p'" "pipe_ok evs p" "ev \<noteq> HangUp"
  shows "pipe_ok (evs @ [ev]) p'"
  using assms(1)
proof cases
  case (drain item rest go dropped ch)
  obtain taken n where t: "emitted evs = taken @ item # rest" "pi_dropped p = of_nat n"
    "accounted taken (received evs @ ch_queue (pi_chan p)) n"
    using assms(2) drain by (auto simp: pipe_ok_def)
  obtain m where "go" "ch_open ch" "ch_capacity ch = EVENT_CHANNEL_CAPACITY"
    "length (ch_queue ch) \<le> EVENT_CHANNEL_CAPACITY" "dropped = of_nat m"
    "accounted (taken @ [item]) (received evs @ ch_queue ch) m"
    using drain_one_ok [OF drain(5) _ _ t(3,2)] assms(2) by (auto simp: pipe_ok_def)
  then show ?thesis
    unfolding pipe_ok_def drain by (auto simp: t(1) intro!: exI [of _ "taken @ [item]"] exI [of _ m])
qed (use assms in \<open>auto simp: pipe_ok_def\<close>)

lemma pipe_run_ok: "pipe_run evs p \<Longrightarrow> HangUp \<notin> set evs \<Longrightarrow> pipe_ok evs p"
proof (induction rule: pipe_run.induct)
  case start
  show ?case
    by (simp add: pipe_ok_def pipe_new_def emitted_def received_def map_filter_simps accounted_def)
next
  case (step evs p ev p')
  then show ?case
    by (intro pipe_step_ok) auto
qed

text \<open>Nothing is lost in silence between the ring buffer and the worker.  In every interleaving of
  the kernel, the draining task, the worker and the shutdown, as long as the worker's end of the
  channel is there: the worker has received, and the channel holds, in the order of the ring
  buffer, every capture taken from it except as many as the drop counter says; the channel never
  holds more than a thousand.\<close>

theorem drain_accounts:
  assumes "pipe_run evs p" "HangUp \<notin> set evs"
  shows "length (ch_queue (pi_chan p)) \<le> 1000 \<and>
    (\<exists>taken n. emitted evs = taken @ pi_ring p \<and> pi_dropped p = of_nat n \<and>
       subseq (received evs @ ch_queue (pi_chan p)) (List.map_filter drain_item taken) \<and>
       length (List.map_filter drain_item taken) = length (received evs @ ch_queue (pi_chan p)) + n)"
  using pipe_run_ok [OF assms] by (simp add: pipe_ok_def accounted_def EVENT_CHANNEL_CAPACITY_def)

definition sample_pipe :: Pipe where
  "sample_pipe = pipe_new\<lparr>pi_chan := (pi_chan pipe_new)\<lparr>ch_queue := [the (drain_item (emitted_bytes default_capture))]\<rparr>\<rparr>"

lemma sample_pipe_run: "pipe_run [Emit [1], Emit (emitted_bytes default_capture), Drain, Drain] sample_pipe"
proof -
  let ?i = "emitted_bytes default_capture" and ?p = pipe_new
  have short: "drain_item [1] = None"
    by (simp add: drain_item_def RAW_CAPTURE_HEADER_SIZE_def)
  obtain c where c: "drain_item ?i = Some c"
    using drain_emitted [OF default_capture_wf] by blast
  have "pipe_run ([] @ [Emit [1]]) (?p\<lparr>pi_ring := [[1]]\<rparr>)"
    using pipe_run.step [OF pipe_run.start pipe_step.emit [of pipe_new "[1]"]] by (simp add: pipe_new_def)
  from pipe_run.step [OF this pipe_step.emit [of _ ?i]]
  have "pipe_run [Emit [1], Emit ?i] (?p\<lparr>pi_ring := [[1], ?i]\<rparr>)"
    by simp
  from pipe_run.step [OF this pipe_step.drain]
  have "pipe_run [Emit [1], Emit ?i, Drain] (?p\<lparr>pi_ring := [?i]\<rparr>)"
    by (simp add: pipe_new_def drain_one_def short)
  from pipe_run.step [OF this pipe_step.drain]
  show ?thesis
    by (simp add: pipe_new_def sample_pipe_def drain_one_def c try_send_def EVENT_CHANNEL_CAPACITY_def)
qed

lemma drain_accounts_witness:
  "\<exists>taken n. emitted [Emit [1], Emit (emitted_bytes default_capture), Drain, Drain] = taken @ pi_ring sample_pipe \<and>
     pi_dropped sample_pipe = of_nat n \<and> length (List.map_filter drain_item taken) = 1 + n"
  using drain_accounts [OF sample_pipe_run] by (auto simp: received_def map_filter_simps sample_pipe_def)

section \<open>Which interfaces\<close>

text \<open>Rows of the routing table as the kernel prints them: interface, destination and gateway.\<close>

record Route =
  rt_iface :: string
  rt_dest :: bytes
  rt_gateway :: bytes
  rt_rest :: "string list"

definition route_words :: "Route \<Rightarrow> string list" where
  "route_words r = [rt_iface r, kernel_hex 8 (le_val (rt_dest r)), kernel_hex 8 (le_val (rt_gateway r))] @ rt_rest r"

definition route_ok :: "Route \<Rightarrow> bool" where
  "route_ok r = (length (rt_dest r) = 4 \<and> length (rt_gateway r) = 4 \<and> (\<forall>w \<in> set (rt_iface r # rt_rest r). word_ok w))"

definition route_file :: "string \<Rightarrow> Route list \<Rightarrow> string" where
  "route_file header rs = proc_text (header # map (\<lambda>r. join '' '' (route_words r)) rs)"

lemma route_words_ok: "route_ok r \<Longrightarrow> \<forall>w \<in> set (route_words r). word_ok w"
  by (simp add: route_ok_def route_words_def kernel_hex_word)

lemma route_lines:
  assumes "header_ok header" "\<forall>r \<in> set rs. route_ok r"
  shows "drop 1 (str_lines (route_file header rs)) = map (\<lambda>r. join '' '' (route_words r)) rs"
proof -
  have "\<forall>l \<in> set (header # map (\<lambda>r. join '' '' (route_words r)) rs). header_ok l"
    using assms route_words_ok words_header_ok by auto
  then show ?thesis
    unfolding route_file_def by (simp add: proc_text_lines)
qed

lemma addr_parsed: "length a = 4 \<Longrightarrow> from_str_radix 32 16 (kernel_hex 8 (le_val a)) = Some (le_val a)"
  using le_val_less [of a] by (intro kernel_hex_parsed) simp_all

lemma four_bytes:
  assumes "length (a :: bytes) = 4"
  obtains b c d e where "a = [b, c, d, e]"
  using assms by (auto simp: length_Suc_conv eval_nat_numeral)

text \<open>The mask test reads the first two bytes of the address.\<close>

lemma link_local_test:
  assumes "length a = 4"
  shows "(of_nat (le_val a) AND IPV4_LINK_LOCAL_MASK) = IPV4_LINK_LOCAL_PREFIX \<longleftrightarrow> take 2 a = [169, 254]"
proof -
  obtain b c d e where a: "a = [b, c, d, e]"
    using assms by (rule four_bytes)
  have v: "le_val a mod 65536 = unat b + 256 * unat c"
  proof -
    have "le_val a = (unat b + 256 * unat c) + 65536 * le_val [d, e]"
      by (simp add: a)
    moreover have "unat b + 256 * unat c < 65536"
      using unat_u8_less [of b] unat_u8_less [of c] by linarith
    ultimately show ?thesis
      by (simp only: mod_mult_self2 mod_less)
  qed
  have "(of_nat (le_val a) AND IPV4_LINK_LOCAL_MASK) = take_bit 16 (of_nat (le_val a) :: u32)"
    by (simp add: take_bit_eq_mask mask_eq_exp_minus_1 IPV4_LINK_LOCAL_MASK_def)
  also have "\<dots> = (of_nat (le_val a mod 65536) :: u32)"
    by (simp add: word_unat_eq_iff unsigned_take_bit_eq unsigned_of_nat flip: take_bit_eq_mod [where n = 16, simplified])
  also have "\<dots> = IPV4_LINK_LOCAL_PREFIX \<longleftrightarrow> unat b + 256 * unat c = 65193"
    unfolding v IPV4_LINK_LOCAL_PREFIX_def using unat_u8_less [of b] unat_u8_less [of c]
    by (simp add: word_unat_eq_iff unat_of_nat del: of_nat_add of_nat_mult of_nat_unat)
  also have "\<dots> \<longleftrightarrow> unat b = 169 \<and> unat c = 254"
  proof
    assume v: "unat b + 256 * unat c = 65193"
    then have "unat c = 254"
      using unat_u8_less [of b] by linarith
    with v show "unat b = 169 \<and> unat c = 254"
      by linarith
  qed simp
  finally show ?thesis
    by (simp add: a word_unat_eq_iff)
qed

lemma le_val_zero: "length a = 4 \<Longrightarrow> le_val a = 0 \<longleftrightarrow> a = [0, 0, 0, 0]"
  by (elim four_bytes) (simp add: unsigned_eq_0_iff)

lemma default_dest:
  assumes "length a = 4"
  shows "kernel_hex 8 (le_val a) = DEFAULT_ROUTE_DEST \<longleftrightarrow> a = [0, 0, 0, 0]"
proof -
  have zero: "kernel_hex 8 0 = DEFAULT_ROUTE_DEST"
    by code_simp
  have "from_str_radix 32 16 (kernel_hex 8 0) = Some 0"
    by (intro kernel_hex_parsed) simp_all
  then have "le_val a = 0" if "kernel_hex 8 (le_val a) = DEFAULT_ROUTE_DEST"
    using addr_parsed [OF assms] that zero by simp
  then have "kernel_hex 8 (le_val a) = DEFAULT_ROUTE_DEST \<longleftrightarrow> le_val a = 0"
    using zero by metis
  then show ?thesis
    unfolding le_val_zero [OF assms] .
qed

lemma route_row:
  assumes "route_ok r"
  shows "routable_v4_line iface (join '' '' (route_words r)) \<longleftrightarrow>
    rt_iface r = iface \<and> (take 2 (rt_dest r) \<noteq> [169, 254] \<or> rt_gateway r \<noteq> [0, 0, 0, 0])"
proof -
  have words: "split_whitespace (join '' '' (route_words r)) = route_words r"
    using assms by (intro row_words route_words_ok)
  have len: "length (rt_dest r) = 4" "length (rt_gateway r) = 4"
    using assms by (simp_all add: route_ok_def)
  show ?thesis
    unfolding routable_v4_line_def words
    by (auto simp add: route_words_def addr_parsed len link_local_test le_val_zero [OF len(2), symmetric])
qed

lemma default_route_rows:
  assumes "\<forall>r \<in> set rs. route_ok r"
  shows "default_route_in (map (\<lambda>r. join '' '' (route_words r)) rs) =
    map_option rt_iface (find (\<lambda>r. rt_dest r = [0, 0, 0, 0]) rs)"
  using assms
proof (induction rs)
  case (Cons r rs)
  then have ok: "route_ok r"
    by simp
  then have words: "split_whitespace (join '' '' (route_words r)) = route_words r"
    by (intro row_words route_words_ok)
  have dest: "length (rt_dest r) = 4"
    using ok by (simp add: route_ok_def)
  have "default_route_in (map (\<lambda>r. join '' '' (route_words r)) (r # rs)) =
      (if rt_dest r = [0, 0, 0, 0] then Some (rt_iface r)
       else default_route_in (map (\<lambda>r. join '' '' (route_words r)) rs))"
    unfolding list.map default_route_in.simps words Let_def
    using default_dest [OF dest] by (simp add: route_words_def)
  with Cons show ?case
    by simp
qed simp


text \<open>A lower half of the address space routed through a tunnel, ahead of the default route.\<close>

definition tunnel_routes :: "Route list" where
  "tunnel_routes =
     [\<lparr>rt_iface = ''tun0'', rt_dest = [0, 0, 0, 0], rt_gateway = [10, 8, 0, 1], rt_rest = [''0003'', ''00000080'']\<rparr>,
      \<lparr>rt_iface = ''eth0'', rt_dest = [0, 0, 0, 0], rt_gateway = [10, 0, 0, 1], rt_rest = [''0003'', ''00000000'']\<rparr>]"

definition tunnel_env :: NetEnv where
  "tunnel_env =
     \<lparr>ne_route = Some (route_file ''Iface'' tunnel_routes), ne_if_inet6 = None, ne_net_dir = None, ne_operstate = \<lambda>_. None\<rparr>"


section \<open>What gets attached\<close>

definition attaches :: "Aya \<Rightarrow> string \<Rightarrow> bool" where
  "attaches ay iface = (ay_attach ay Ingress iface = None \<and> ay_attach ay Egress iface = None)"

definition live_of :: "Aya \<Rightarrow> string \<Rightarrow> (EbpfProgram \<times> string) list" where
  "live_of ay iface =
     (if ay_attach ay Ingress iface \<noteq> None then []
      else if ay_attach ay Egress iface \<noteq> None then [(Ingress, iface)]
      else [(Ingress, iface), (Egress, iface)])"

lemma attach_interface_exact:
  "attach_interface ay iface lo =
     (if attaches ay iface then None
      else (case ay_attach ay Ingress iface of None \<Rightarrow> ay_attach ay Egress iface | Some e \<Rightarrow> Some e),
      lo\<lparr>lo_live := lo_live lo @ live_of ay iface\<rparr>)"
  by (auto simp: attach_interface_def attaches_def live_of_def split: option.splits)

lemma attach_all_exact:
  "attach_all ay ifaces attached lo =
     (attached @ concat (map link_ids (filter (attaches ay) ifaces)),
      lo\<lparr>lo_attached_interfaces := lo_attached_interfaces lo @ filter (attaches ay) ifaces,
        lo_live := lo_live lo @ concat (map (live_of ay) ifaces)\<rparr>)"
  by (induction ifaces arbitrary: attached lo)
    (auto simp: attach_interface_exact attaches_def split: option.splits)

lemma link_ids_empty: "concat (map link_ids ifaces) = [] \<longleftrightarrow> ifaces = []"
  by (cases ifaces) (simp_all add: link_ids_def)

text \<open>The attribution probes, in the order of the code, and which of them work.\<close>

definition attribution_probes :: "(string \<times> string) list" where
  "attribution_probes =
     map (\<lambda>name. (name, name)) CONNECT_KPROBES @ CONNECT_KRETPROBES @ [(ACCEPT_KRETPROBE, ACCEPT_KRETPROBE)]"

definition probe_works :: "Aya \<Rightarrow> string \<times> string \<Rightarrow> bool" where
  "probe_works ay = (\<lambda>(prog, fn). ay_load ay prog = None \<and> ay_attach_probe ay prog fn = None)"

lemma attach_probes_exact:
  "snd (attach_probes ay ps lo) = lo\<lparr>lo_probes := lo_probes lo @ takeWhile (probe_works ay) ps\<rparr>"
  by (induction ay ps lo rule: attach_probes.induct) (auto simp: probe_works_def split: option.splits)

lemma attach_probes_append:
  "attach_probes ay (ps @ qs) lo =
     (case attach_probes ay ps lo of (Some e, lo1) \<Rightarrow> (Some e, lo1) | (None, lo1) \<Rightarrow> attach_probes ay qs lo1)"
  by (induction ay ps lo rule: attach_probes.induct) (simp_all split: option.splits)

lemma attribution_exact:
  "snd (load_and_attach_attribution_probes ay lo) =
     lo\<lparr>lo_probes := lo_probes lo @ takeWhile (probe_works ay) attribution_probes\<rparr>"
proof -
  have "load_and_attach_attribution_probes ay lo = attach_probes ay attribution_probes lo"
    by (simp add: load_and_attach_attribution_probes_def attribution_probes_def attach_probes_append
        del: attach_probes.simps split: prod.splits option.splits)
  then show ?thesis
    by (simp add: attach_probes_exact)
qed

text \<open>C35: what \<open>attach\<close> reports.  When a classifier cannot be loaded, \<open>attach\<close> fails with that error and
  nothing is attached.  Otherwise it reports and counts, in order, the interfaces on which both
  programs attach, and fails when there are none; what is live in the kernel is that, and also the
  ingress program of each interface whose egress program did not attach, which nothing reports.  The
  attribution probes never make it fail: those before the first that does not work stay.\<close>

theorem attach_exact:
  "(case load_classifiers ay [Ingress, Egress] of
      Fail e \<Rightarrow> loader_attach ay ifaces loader_new = (Fail e, loader_new)
    | Panic \<Rightarrow> False
    | Ret _ \<Rightarrow>
        (let ok = filter (attaches ay) ifaces; r = loader_attach ay ifaces loader_new in
         fst r =
           (if ok = [] then Fail (AttachError ''No probes were attached. Use --interface to specify a valid interface.'')
            else Ret (concat (map link_ids ok))) \<and>
         lo_attached_interfaces (snd r) = ok \<and>
         lo_live (snd r) = concat (map (live_of ay) ifaces) \<and>
         lo_probes (snd r) = takeWhile (probe_works ay) attribution_probes))"
proof (cases "load_classifiers ay [Ingress, Egress]")
  case Panic
  then show ?thesis
    by (auto split: option.splits)
next
  case (Fail e)
  then show ?thesis
    by (simp add: loader_attach_def load_programs_def loader_new_def del: load_classifiers.simps)
next
  case (Ret u)
  then show ?thesis
    by (simp add: loader_attach_def load_programs_def loader_new_def attach_all_exact Let_def attribution_exact
        link_ids_empty del: load_classifiers.simps concat_eq_Nil_conv)
qed

end
