(* ===== verification/Attribution.thy ===== *)
theory Attribution
  imports Capture_Record
begin

text \<open>
  \<open>crates/tls-probe-ebpf/src/main.rs\<close> and \<open>process.rs\<close>: the maps of the kernel half and the
  probes that attribute a connection to a process.

  The kernel's helpers are parameters: what the current task is (\<open>TaskEnv\<close>), what a read of
  kernel memory returns, and how an insertion into an LRU hash map changes it.  \<open>lru_insert_ok\<close>
  states what the documentation promises of such an insertion: it fails and leaves the map as it
  was, or it stores the entry, possibly after other entries have been evicted.
\<close>

section \<open>BPF maps\<close>

type_synonym ('k, 'v) bpf_map = "'k \<Rightarrow> 'v option"

type_synonym ('k, 'v) bpf_insert = "'k \<Rightarrow> 'v \<Rightarrow> ('k, 'v) bpf_map \<Rightarrow> ('k, 'v) bpf_map"

definition lru_insert_ok :: "('k, 'v) bpf_insert \<Rightarrow> bool" where
  "lru_insert_ok ins = (\<forall>k v m. ins k v m = m \<or> (\<exists>D. ins k v m = (m |` D)(k \<mapsto> v)))"

definition bpf_remove :: "'k \<Rightarrow> ('k, 'v) bpf_map \<Rightarrow> ('k, 'v) bpf_map" where
  "bpf_remove k m = m(k := None)"

record Kernel =
  tls_events :: "bytes list"
  conn_map :: "(ConnKey, ConnInfo) bpf_map"
  connect_stash :: "(u64, ConnStash) bpf_map"
  reasm_map :: "(ReasmKey, ReasmState) bpf_map"
  scratch :: "RawTlsCapture option"
  ringbuf_drops :: "u64 option"

section \<open>The current task\<close>

record TaskEnv =
  te_pid_tgid :: u64
  te_comm :: "bytes option"
  te_cgroup_id :: u64
  te_read_kernel :: "u64 \<Rightarrow> nat \<Rightarrow> bytes option"

definition SKC_DADDR_OFFSET :: u64 where "SKC_DADDR_OFFSET = 0"
definition SKC_RCV_SADDR_OFFSET :: u64 where "SKC_RCV_SADDR_OFFSET = 4"
definition SKC_DPORT_OFFSET :: u64 where "SKC_DPORT_OFFSET = 12"
definition SKC_NUM_OFFSET :: u64 where "SKC_NUM_OFFSET = 14"
definition SKC_FAMILY_OFFSET :: u64 where "SKC_FAMILY_OFFSET = 16"
definition SKC_V6_DADDR_OFFSET :: u64 where "SKC_V6_DADDR_OFFSET = 32"
definition SKC_V6_RCV_SADDR_OFFSET :: u64 where "SKC_V6_RCV_SADDR_OFFSET = 48"
definition AF_INET :: u16 where "AF_INET = 2"
definition AF_INET6 :: u16 where "AF_INET6 = 10"

lemmas skc_offsets = SKC_DADDR_OFFSET_def SKC_RCV_SADDR_OFFSET_def SKC_DPORT_OFFSET_def
  SKC_NUM_OFFSET_def SKC_FAMILY_OFFSET_def SKC_V6_DADDR_OFFSET_def SKC_V6_RCV_SADDR_OFFSET_def
  AF_INET_def AF_INET6_def

definition current_conn_info :: "TaskEnv \<Rightarrow> ConnInfo" where
  "current_conn_info te =
     \<lparr>ci_pid = ucast (drop_bit 32 (te_pid_tgid te)), ci_tgid = ucast (te_pid_tgid te),
      ci_comm = (case te_comm te of None \<Rightarrow> replicate COMM_SIZE 0 | Some c \<Rightarrow> c),
      ci_cgroup_id = te_cgroup_id te\<rparr>"

definition read_ports :: "TaskEnv \<Rightarrow> u64 \<Rightarrow> u16 \<times> u16" where
  "read_ports te sk =
     (let dport = (case te_read_kernel te (sk + SKC_DPORT_OFFSET) 2 of
                     None \<Rightarrow> 0 | Some b \<Rightarrow> be16 (b ! 0) (b ! 1));
          sport = (case te_read_kernel te (sk + SKC_NUM_OFFSET) 2 of
                     None \<Rightarrow> 0 | Some b \<Rightarrow> of_nat (le_val b))
      in (sport, dport))"

definition read_v4 :: "TaskEnv \<Rightarrow> u64 \<Rightarrow> bytes" where
  "read_v4 te p =
     (case te_read_kernel te p 4 of
        None \<Rightarrow> replicate 16 0 | Some b \<Rightarrow> b @ replicate 12 0)"

definition read_v6 :: "TaskEnv \<Rightarrow> u64 \<Rightarrow> bytes" where
  "read_v6 te p = (case te_read_kernel te p 16 of None \<Rightarrow> replicate 16 0 | Some b \<Rightarrow> b)"

section \<open>Outbound connections\<close>

text \<open>Each probe returns whether it succeeded; the program that calls it ignores that.\<close>

definition stash_connect_entry ::
  "(u64, ConnStash) bpf_insert \<Rightarrow> TaskEnv \<Rightarrow> u64 option \<Rightarrow> Kernel \<Rightarrow> bool \<times> Kernel" where
  "stash_connect_entry ins te arg0 k =
     (case arg0 of
        None \<Rightarrow> (False, k)
      | Some sk \<Rightarrow>
          (True, k\<lparr>connect_stash :=
             ins (te_pid_tgid te) \<lparr>st_sock_ptr = sk, st_info = current_conn_info te\<rparr> (connect_stash k)\<rparr>))"

definition finish_connect_v4 ::
  "(ConnKey, ConnInfo) bpf_insert \<Rightarrow> TaskEnv \<Rightarrow> 32 word \<Rightarrow> Kernel \<Rightarrow> bool \<times> Kernel" where
  "finish_connect_v4 ins te ret k =
     (if ret \<noteq> 0 then (False, k\<lparr>connect_stash := bpf_remove (te_pid_tgid te) (connect_stash k)\<rparr>)
      else
        (case connect_stash k (te_pid_tgid te) of
           None \<Rightarrow> (False, k)
         | Some st \<Rightarrow>
             (let sk = st_sock_ptr st;
                  k1 = k\<lparr>connect_stash := bpf_remove (te_pid_tgid te) (connect_stash k)\<rparr>;
                  src = read_v4 te (sk + SKC_RCV_SADDR_OFFSET);
                  dst = read_v4 te (sk + SKC_DADDR_OFFSET);
                  (sport, dport) = read_ports te sk;
                  key = \<lparr>ck_src_addr = src, ck_dst_addr = dst, ck_src_port = sport, ck_dst_port = dport\<rparr>
              in (True, k1\<lparr>conn_map := ins key (st_info st) (conn_map k1)\<rparr>))))"

definition finish_connect_v6 ::
  "(ConnKey, ConnInfo) bpf_insert \<Rightarrow> TaskEnv \<Rightarrow> 32 word \<Rightarrow> Kernel \<Rightarrow> bool \<times> Kernel" where
  "finish_connect_v6 ins te ret k =
     (if ret \<noteq> 0 then (False, k\<lparr>connect_stash := bpf_remove (te_pid_tgid te) (connect_stash k)\<rparr>)
      else
        (case connect_stash k (te_pid_tgid te) of
           None \<Rightarrow> (False, k)
         | Some st \<Rightarrow>
             (let sk = st_sock_ptr st;
                  k1 = k\<lparr>connect_stash := bpf_remove (te_pid_tgid te) (connect_stash k)\<rparr>;
                  src = read_v6 te (sk + SKC_V6_RCV_SADDR_OFFSET);
                  dst = read_v6 te (sk + SKC_V6_DADDR_OFFSET);
                  (sport, dport) = read_ports te sk;
                  key = \<lparr>ck_src_addr = src, ck_dst_addr = dst, ck_src_port = sport, ck_dst_port = dport\<rparr>
              in (True, k1\<lparr>conn_map := ins key (st_info st) (conn_map k1)\<rparr>))))"

section \<open>Inbound connections\<close>

definition try_record_accept ::
  "(ConnKey, ConnInfo) bpf_insert \<Rightarrow> TaskEnv \<Rightarrow> u64 \<Rightarrow> Kernel \<Rightarrow> bool \<times> Kernel" where
  "try_record_accept ins te sk k =
     (if sk = 0 then (False, k)
      else
        (case te_read_kernel te (sk + SKC_FAMILY_OFFSET) 2 of
           None \<Rightarrow> (False, k)
         | Some fb \<Rightarrow>
             (let family = of_nat (le_val fb) :: u16;
                  addrs =
                    (if family = AF_INET
                     then Some (read_v4 te (sk + SKC_RCV_SADDR_OFFSET), read_v4 te (sk + SKC_DADDR_OFFSET))
                     else if family = AF_INET6
                     then Some (read_v6 te (sk + SKC_V6_RCV_SADDR_OFFSET), read_v6 te (sk + SKC_V6_DADDR_OFFSET))
                     else None)
              in case addrs of
                   None \<Rightarrow> (False, k)
                 | Some (src, dst) \<Rightarrow>
                     (let (sport, dport) = read_ports te sk;
                          key = \<lparr>ck_src_addr = src, ck_dst_addr = dst, ck_src_port = sport, ck_dst_port = dport\<rparr>
                      in (True, k\<lparr>conn_map := ins key (current_conn_info te) (conn_map k)\<rparr>)))))"

section \<open>The programs\<close>

text \<open>What the kernel runs; each returns 0 whatever has happened.\<close>

definition tcp_v4_connect :: "(u64, ConnStash) bpf_insert \<Rightarrow> TaskEnv \<Rightarrow> u64 option \<Rightarrow> Kernel \<Rightarrow> Kernel" where
  "tcp_v4_connect ins te arg0 k = snd (stash_connect_entry ins te arg0 k)"

definition tcp_v6_connect :: "(u64, ConnStash) bpf_insert \<Rightarrow> TaskEnv \<Rightarrow> u64 option \<Rightarrow> Kernel \<Rightarrow> Kernel" where
  "tcp_v6_connect ins te arg0 k = snd (stash_connect_entry ins te arg0 k)"

definition tcp_v4_connect_ret :: "(ConnKey, ConnInfo) bpf_insert \<Rightarrow> TaskEnv \<Rightarrow> 32 word \<Rightarrow> Kernel \<Rightarrow> Kernel" where
  "tcp_v4_connect_ret ins te ret k = snd (finish_connect_v4 ins te ret k)"

definition tcp_v6_connect_ret :: "(ConnKey, ConnInfo) bpf_insert \<Rightarrow> TaskEnv \<Rightarrow> 32 word \<Rightarrow> Kernel \<Rightarrow> Kernel" where
  "tcp_v6_connect_ret ins te ret k = snd (finish_connect_v6 ins te ret k)"

definition inet_csk_accept :: "(ConnKey, ConnInfo) bpf_insert \<Rightarrow> TaskEnv \<Rightarrow> u64 \<Rightarrow> Kernel \<Rightarrow> Kernel" where
  "inet_csk_accept ins te sk k = snd (try_record_accept ins te sk k)"

lemmas programs = tcp_v4_connect_def tcp_v6_connect_def tcp_v4_connect_ret_def tcp_v6_connect_ret_def
  inet_csk_accept_def

section \<open>Properties\<close>

text \<open>What \<open>struct sock_common\<close> holds for a connected IPv4 socket at \<open>sk\<close>.\<close>

definition sock_v4_at :: "TaskEnv \<Rightarrow> u64 \<Rightarrow> bytes \<Rightarrow> bytes \<Rightarrow> u16 \<Rightarrow> u16 \<Rightarrow> bool" where
  "sock_v4_at te sk saddr daddr sport dport =
     (te_read_kernel te (sk + 4) 4 = Some saddr \<and> te_read_kernel te sk 4 = Some daddr \<and>
      te_read_kernel te (sk + 12) 2 = Some (be16_bytes dport) \<and>
      te_read_kernel te (sk + 14) 2 = Some (le_bytes 2 (unat sport)) \<and>
      te_read_kernel te (sk + 16) 2 = Some (le_bytes 2 2))"

definition v4_key :: "bytes \<Rightarrow> bytes \<Rightarrow> u16 \<Rightarrow> u16 \<Rightarrow> ConnKey" where
  "v4_key saddr daddr sport dport =
     \<lparr>ck_src_addr = saddr @ replicate 12 0, ck_dst_addr = daddr @ replicate 12 0,
      ck_src_port = sport, ck_dst_port = dport\<rparr>"

lemma read_ports_sock:
  assumes "sock_v4_at te sk saddr daddr sport dport"
  shows "read_ports te sk = (sport, dport)"
proof -
  have "of_nat (le_val (le_bytes 2 (unat sport))) = sport"
    by (rule le_word_roundtrip) simp
  with assms show ?thesis
    by (simp add: sock_v4_at_def read_ports_def skc_offsets be16_bytes_def be16_of_bytes)
qed

lemma read_addrs_sock:
  "sock_v4_at te sk saddr daddr sport dport \<Longrightarrow>
     read_v4 te (sk + SKC_RCV_SADDR_OFFSET) = saddr @ replicate 12 0 \<and>
     read_v4 te (sk + SKC_DADDR_OFFSET) = daddr @ replicate 12 0"
  by (simp add: sock_v4_at_def read_v4_def skc_offsets)

text \<open>What the two sides record of a connection, for insertions that do not fail.\<close>

lemma connect_records:
  assumes "sock_v4_at te' sk saddr daddr sport dport" "te_pid_tgid te' = te_pid_tgid te"
    and "\<And>m k v. ins_stash k v m k = Some v" "\<And>m k v. ins_conn k v m k = Some v"
  shows "conn_map (tcp_v4_connect_ret ins_conn te' 0 (tcp_v4_connect ins_stash te (Some sk) k))
    (v4_key saddr daddr sport dport) = Some (current_conn_info te)"
  using read_addrs_sock [OF assms(1)] read_ports_sock [OF assms(1)] assms(2)
  by (simp add: assms(3,4) programs stash_connect_entry_def finish_connect_v4_def bpf_remove_def v4_key_def)

lemma accept_records:
  assumes "sock_v4_at te sk saddr daddr sport dport" "sk \<noteq> 0" "\<And>m k v. ins k v m k = Some v"
  shows "conn_map (inet_csk_accept ins te sk k) (v4_key saddr daddr sport dport) =
    Some (current_conn_info te)"
proof -
  have "te_read_kernel te (sk + 16) 2 = Some (le_bytes 2 2)"
    using assms(1) by (simp add: sock_v4_at_def)
  moreover have "of_nat (le_val (le_bytes 2 2)) = AF_INET"
    using le_val_le_bytes [of 2 2] by (simp add: skc_offsets)
  ultimately show ?thesis
    using assms(2,3) read_addrs_sock [OF assms(1)] read_ports_sock [OF assms(1)]
    by (simp add: programs try_record_accept_def SKC_FAMILY_OFFSET_def v4_key_def)
qed


text \<open>An accepted IPv4 connection is recorded under the same local-first key as the connect side
  uses, with the accepting task's identity.\<close>

theorem accept_attribution:
  assumes "sock_v4_at te sk saddr daddr sport dport" "sk \<noteq> 0" "\<And>m k v. ins k v m k = Some v"
  shows "conn_map (inet_csk_accept ins te sk k) (v4_key saddr daddr sport dport) =
    Some (current_conn_info te)"
  using assms by (rule accept_records)

section \<open>Witnesses\<close>

definition sample_task :: TaskEnv where
  "sample_task =
     \<lparr>te_pid_tgid = 0x0000002A0000002B, te_comm = Some (replicate 16 99), te_cgroup_id = 7,
      te_read_kernel = (\<lambda>p n.
        if p = 1004 \<and> n = 4 then Some [10, 0, 0, 1]
        else if p = 1000 \<and> n = 4 then Some [10, 0, 0, 2]
        else if p = 1012 \<and> n = 2 then Some (be16_bytes 443)
        else if p = 1014 \<and> n = 2 then Some (le_bytes 2 40000)
        else if p = 1016 \<and> n = 2 then Some (le_bytes 2 2)
        else None)\<rparr>"

definition kernel_start :: Kernel where
  "kernel_start =
     \<lparr>tls_events = [], conn_map = Map.empty, connect_stash = Map.empty, reasm_map = Map.empty,
      scratch = Some default_capture, ringbuf_drops = Some 0\<rparr>"

lemma sample_sock: "sock_v4_at sample_task 1000 [10, 0, 0, 1] [10, 0, 0, 2] 40000 443"
  by (simp add: sock_v4_at_def sample_task_def)


lemma accept_attribution_witness:
  "conn_map (inet_csk_accept (\<lambda>k v m. m(k \<mapsto> v)) sample_task 1000 kernel_start)
     (v4_key [10, 0, 0, 1] [10, 0, 0, 2] 40000 443) = Some (current_conn_info sample_task)"
  using accept_attribution [OF sample_sock, of "\<lambda>k v m. m(k \<mapsto> v)"] by simp

end
