(* ===== verification/Startup.thy ===== *)
theory Startup
  imports Loader Attribution Rust_Text
begin

text \<open>
  \<open>crates/tls-probe-cli/src/capabilities.rs\<close> and \<open>self_test.rs\<close>: what the probe checks before it
  captures.

  What the kernel answers is a parameter: the release of \<open>uname\<close>, whether a capability is in the
  effective set, the limits of locked memory, the outcome of each \<open>accept\<close> with the clock after it,
  and the entries of the connection map.  The messages of the log are not modelled.
\<close>

section \<open>Kernel version and capabilities\<close>

datatype Capability = CAP_BPF | CAP_NET_ADMIN | CAP_PERFMON | CAP_SYS_RESOURCE | CAP_SYS_ADMIN

primrec cap_name :: "Capability \<Rightarrow> string" where
  "cap_name CAP_BPF = ''CAP_BPF''"
| "cap_name CAP_NET_ADMIN = ''CAP_NET_ADMIN''"
| "cap_name CAP_PERFMON = ''CAP_PERFMON''"
| "cap_name CAP_SYS_RESOURCE = ''CAP_SYS_RESOURCE''"
| "cap_name CAP_SYS_ADMIN = ''CAP_SYS_ADMIN''"

definition REQUIRED_CAPS_NEW_KERNEL :: "Capability list" where
  "REQUIRED_CAPS_NEW_KERNEL = [CAP_BPF, CAP_NET_ADMIN, CAP_PERFMON, CAP_SYS_RESOURCE]"

definition REQUIRED_CAPS_OLD_KERNEL :: "Capability list" where
  "REQUIRED_CAPS_OLD_KERNEL = [CAP_SYS_ADMIN, CAP_NET_ADMIN, CAP_SYS_RESOURCE]"

text \<open>\<open>str::split\<close> by a predicate.\<close>

fun split_when :: "(char \<Rightarrow> bool) \<Rightarrow> string \<Rightarrow> string list" where
  "split_when P [] = [[]]"
| "split_when P (c # cs) =
     (if P c then [] # split_when P cs
      else (case split_when P cs of [] \<Rightarrow> [[c]] | seg # segs \<Rightarrow> (c # seg) # segs))"

definition is_ascii_digit :: "char \<Rightarrow> bool" where
  "is_ascii_digit c = (48 \<le> (of_char c :: nat) \<and> (of_char c :: nat) \<le> 57)"

text \<open>\<open>None\<close> when \<open>uname\<close> fails.\<close>

definition kernel_version :: "string option \<Rightarrow> nat \<times> nat \<times> nat" where
  "kernel_version release =
     (case release of
        None \<Rightarrow> (0, 0, 0)
      | Some release_str \<Rightarrow>
          (case List.map_filter (from_str_radix 32 10) (take 3 (split_when (\<lambda>c. \<not> is_ascii_digit c) release_str)) of
             major # minor # patch # _ \<Rightarrow> (major, minor, patch)
           | [major, minor] \<Rightarrow> (major, minor, 0)
           | [major] \<Rightarrow> (major, 0, 0)
           | [] \<Rightarrow> (0, 0, 0)))"

definition has_cap_bpf_support :: "string option \<Rightarrow> bool" where
  "has_cap_bpf_support release =
     (case kernel_version release of (major, minor, _) \<Rightarrow> major > 5 \<or> (major = 5 \<and> minor \<ge> 8))"

definition to_lower :: "char \<Rightarrow> char" where
  "to_lower c =
     (let n = (of_char c :: nat) in if 65 \<le> n \<and> n \<le> 90 then char_of (n + 32) else c)"

text \<open>\<open>caps::has_cap\<close> answers \<open>None\<close> when it fails; the capability then counts as missing.\<close>

definition check_capabilities :: "string option \<Rightarrow> (Capability \<Rightarrow> bool option) \<Rightarrow> (ProbeError, unit) run" where
  "check_capabilities release has_cap =
     (let required = (if has_cap_bpf_support release then REQUIRED_CAPS_NEW_KERNEL else REQUIRED_CAPS_OLD_KERNEL);
          missing = filter (\<lambda>c. has_cap c \<noteq> Some True) required
      in if missing \<noteq> [] then
           (let cap_names = map cap_name missing;
                suggestion =
                  (if has_cap_bpf_support release
                   then ''Run with sudo, or grant capabilities:'' @ [CHR 0x0A] @ ''  sudo setcap '' @ [CHR 0x27] @
                     join '','' (map (map to_lower) cap_names) @ ''+ep'' @ [CHR 0x27] @ '' <binary>''
                   else ''Run with sudo (kernel < 5.8 requires CAP_SYS_ADMIN)'')
            in Fail (LoadError (''Missing required capabilities: '' @ join '', '' cap_names @ ''.'' @ [CHR 0x0A] @ suggestion)))
         else Ret ())"

section \<open>Locked memory\<close>

record RLimit =
  rlim_cur :: u64
  rlim_max :: u64

definition RLIM_INFINITY :: u64 where
  "RLIM_INFINITY = - 1"

definition MIN_MEMLOCK_BYTES :: u64 where
  "MIN_MEMLOCK_BYTES = 64 * 1024 * 1024"

text \<open>
  The limits of the process go in and out: \<open>None\<close> when \<open>getrlimit\<close> fails; \<open>set_ok\<close> says whether
  \<open>setrlimit\<close> accepts.
\<close>

definition ensure_memlock_rlimit :: "bool \<Rightarrow> RLimit option \<Rightarrow> (ProbeError, unit) run \<times> RLimit option" where
  "ensure_memlock_rlimit set_ok limits =
     (case limits of
        None \<Rightarrow> (Fail (LoadError ''Failed to get RLIMIT_MEMLOCK''), None)
      | Some rlim \<Rightarrow>
          if rlim_cur rlim \<ge> MIN_MEMLOCK_BYTES \<or> rlim_cur rlim = RLIM_INFINITY then (Ret (), Some rlim)
          else
            (let new_limit = (if rlim_max rlim = RLIM_INFINITY then RLIM_INFINITY else min (rlim_max rlim) MIN_MEMLOCK_BYTES)
             in (Ret (), Some (if set_ok then rlim\<lparr>rlim_cur := new_limit\<rparr> else rlim))))"

section \<open>The attribution self-test\<close>

datatype AcceptResult = Accepted | WouldBlock | AcceptError

text \<open>
  The loop at its \<open>n\<close>-th call of \<open>accept\<close>: \<open>accept n\<close> is what the call answers, \<open>now n\<close> the clock, in
  milliseconds, when the code reads it after that call.
\<close>

partial_function (option) wait_loop :: "(nat \<Rightarrow> AcceptResult) \<Rightarrow> (nat \<Rightarrow> nat) \<Rightarrow> nat \<Rightarrow> nat \<Rightarrow> bool option" where
  [code]: "wait_loop accept now deadline n =
     (case accept n of
        Accepted \<Rightarrow> Some True
      | AcceptError \<Rightarrow> Some False
      | WouldBlock \<Rightarrow> if now n \<ge> deadline then Some False else wait_loop accept now deadline (n + 1))"

definition wait_for_accept :: "(nat \<Rightarrow> AcceptResult) \<Rightarrow> (nat \<Rightarrow> nat) \<Rightarrow> nat \<Rightarrow> nat \<Rightarrow> bool option" where
  "wait_for_accept accept now start timeout = wait_loop accept now (start + timeout) 0"

text \<open>
  The answers of the system: whether the listener binds and has an address, how it accepts, the clock
  at the start of the wait.  The connection map is \<open>None\<close> when it is not available; an entry that
  cannot be read is \<open>None\<close>.
\<close>

record SelfTestEnv =
  sf_bind :: bool
  sf_local_addr :: bool
  sf_accept :: "nat \<Rightarrow> AcceptResult"
  sf_now :: "nat \<Rightarrow> nat"
  sf_start :: nat
  sf_pid :: u32

definition run_self_test :: "SelfTestEnv \<Rightarrow> (ConnKey \<times> ConnInfo) option list option \<Rightarrow> bool option" where
  "run_self_test e map_entries =
     (case map_entries of
        None \<Rightarrow> Some False
      | Some entries \<Rightarrow>
          if \<not> sf_bind e then Some False
          else if \<not> sf_local_addr e then Some False
          else
            Option.bind (wait_for_accept (sf_accept e) (sf_now e) (sf_start e) 2000) (\<lambda>accepted.
              if \<not> accepted then Some False
              else
                (let localhost = [127, 0, 0, 1] @ replicate 12 0
                 in Some (list_ex (\<lambda>(key, info). ck_src_addr key = localhost \<and> ck_dst_addr key = localhost \<and>
                      ci_pid info = sf_pid e) (List.map_filter id entries)))))"

section \<open>Versions and capabilities\<close>

lemma split_when_nonempty [simp]: "split_when P s \<noteq> []"
  by (induction s) (auto split: list.split)

lemma split_when_append: "P c \<Longrightarrow> split_when P (a @ c # b) = split_when P a @ split_when P b"
  by (induction a) (auto split: list.split)

lemma split_when_none: "\<forall>c \<in> set s. \<not> P c \<Longrightarrow> split_when P s = [s]"
  by (induction s) auto

lemma is_ascii_digit_dec: "\<forall>c \<in> set (dec n). is_ascii_digit c"
proof -
  have digit: "is_ascii_digit (digit_char d)" if "d < 10" for d
    using that by (auto simp: is_ascii_digit_def digit_char_def)
  show ?thesis
  proof (induction n rule: dec.induct)
    case (1 n)
    then show ?case
      by (subst dec.simps) (auto simp: digit simp del: dec.simps)
  qed
qed

text \<open>A release as the kernel prints it: major, a dot, minor, then anything that is not a digit first.\<close>

definition release_of :: "nat \<Rightarrow> nat \<Rightarrow> string \<Rightarrow> string" where
  "release_of major minor rest = dec major @ ''.'' @ dec minor @ rest"

lemma release_version:
  assumes "major < 2 ^ 32" "minor < 2 ^ 32" "rest = [] \<or> \<not> is_ascii_digit (hd rest)"
  shows "\<exists>patch. kernel_version (Some (release_of major minor rest)) = (major, minor, patch)"
proof -
  let ?P = "\<lambda>c. \<not> is_ascii_digit c"
  have dot: "?P CHR ''.''"
    by (simp add: is_ascii_digit_def)
  have whole: "split_when ?P (dec n) = [dec n]" for n
    using is_ascii_digit_dec by (intro split_when_none) simp
  have "\<exists>tl. split_when ?P (dec minor @ rest) = dec minor # tl"
  proof (cases rest)
    case (Cons c cs)
    with assms(3) have "?P c"
      by simp
    then show ?thesis
      unfolding Cons by (simp add: split_when_append whole)
  qed (simp add: whole)
  then obtain tl where tl: "split_when ?P (dec minor @ rest) = dec minor # tl"
    by blast
  have "split_when ?P (release_of major minor rest) = dec major # dec minor # tl"
    using split_when_append [where P = ?P and c = "CHR ''.''" and a = "dec major" and b = "dec minor @ rest"] dot by (simp add: release_of_def whole tl)
  then have "take 3 (split_when ?P (release_of major minor rest)) = dec major # dec minor # take 1 tl"
    by (simp add: numeral_3_eq_3)
  moreover have "from_str_radix 32 10 (dec major) = Some major" "from_str_radix 32 10 (dec minor) = Some minor"
    using assms(1,2) by (simp_all add: parse_dec)
  ultimately show ?thesis
    by (simp add: kernel_version_def map_filter_simps split: list.split)
qed

text \<open>C33: which capabilities the probe asks for.  On a kernel whose release says \<open>major.minor\<close>, the check
  passes exactly when the effective set can be read to hold CAP_NET_ADMIN, CAP_SYS_RESOURCE and,
  from 5.8 on, CAP_BPF and CAP_PERFMON, before that CAP_SYS_ADMIN; it never panics.\<close>

theorem capabilities_checked:
  assumes "major < 2 ^ 32" "minor < 2 ^ 32" "rest = [] \<or> \<not> is_ascii_digit (hd rest)"
  shows "(check_capabilities (Some (release_of major minor rest)) has_cap = Ret () \<longleftrightarrow>
      (\<forall>c \<in> {CAP_NET_ADMIN, CAP_SYS_RESOURCE} \<union>
          (if major > 5 \<or> (major = 5 \<and> minor \<ge> 8) then {CAP_BPF, CAP_PERFMON} else {CAP_SYS_ADMIN}).
        has_cap c = Some True)) \<and>
    check_capabilities release has_cap \<noteq> Panic"
proof -
  obtain patch where "kernel_version (Some (release_of major minor rest)) = (major, minor, patch)"
    using release_version [OF assms] by blast
  then have "has_cap_bpf_support (Some (release_of major minor rest)) \<longleftrightarrow> major > 5 \<or> (major = 5 \<and> minor \<ge> 8)"
    by (simp add: has_cap_bpf_support_def)
  then show ?thesis
    by (simp add: check_capabilities_def REQUIRED_CAPS_NEW_KERNEL_def REQUIRED_CAPS_OLD_KERNEL_def Let_def)
qed

lemma capabilities_checked_witness:
  "check_capabilities (Some (release_of 5 15 ''.0-generic'')) (\<lambda>c. Some (c \<noteq> CAP_SYS_ADMIN)) = Ret () \<and>
   check_capabilities (Some (release_of 5 4 ''.0-generic'')) (\<lambda>c. Some (c \<noteq> CAP_SYS_ADMIN)) \<noteq> Ret ()"
  using capabilities_checked [of 5 15 "''.0-generic''" "\<lambda>c. Some (c \<noteq> CAP_SYS_ADMIN)"]
    capabilities_checked [of 5 4 "''.0-generic''" "\<lambda>c. Some (c \<noteq> CAP_SYS_ADMIN)"]
  by (simp add: is_ascii_digit_def)

section \<open>Limits\<close>

text \<open>The limit of locked memory.  Whatever the limits are, the check succeeds when they can be read;
  with the soft limit at most the hard one, as the kernel keeps it, the hard limit stays, the soft
  limit is not lowered and not raised past the hard limit, and, when the kernel accepts the change,
  it reaches 64 MiB or the hard limit.\<close>

theorem memlock_raised:
  assumes "rlim_cur rlim \<le> rlim_max rlim"
  shows "\<exists>rlim'. ensure_memlock_rlimit set_ok (Some rlim) = (Ret (), Some rlim') \<and>
    rlim_max rlim' = rlim_max rlim \<and> rlim_cur rlim \<le> rlim_cur rlim' \<and> rlim_cur rlim' \<le> rlim_max rlim' \<and>
    (set_ok \<longrightarrow> min (rlim_max rlim) (64 * 1024 * 1024) \<le> rlim_cur rlim')"
proof -
  have top: "rlim_cur rlim \<le> RLIM_INFINITY" "\<not> RLIM_INFINITY \<le> 67108864"
    by (simp add: RLIM_INFINITY_def) (simp add: RLIM_INFINITY_def word_le_nat_alt unsigned_minus_1_eq_mask mask_eq_exp_minus_1)
  show ?thesis
    using assms top by (auto simp: ensure_memlock_rlimit_def MIN_MEMLOCK_BYTES_def min_def Let_def)
qed

lemma memlock_raised_witness:
  "\<exists>rlim'. ensure_memlock_rlimit True (Some \<lparr>rlim_cur = 8388608, rlim_max = 33554432\<rparr>) = (Ret (), Some rlim') \<and>
     33554432 \<le> rlim_cur rlim'"
  using memlock_raised [of "\<lparr>rlim_cur = 8388608, rlim_max = 33554432\<rparr>" True] by auto

section \<open>The self-test ends\<close>

text \<open>
  \<open>thread::sleep\<close> sleeps at least as long as it is asked to: between two readings of the clock at
  least ten milliseconds pass.
\<close>

definition clock_ok :: "(nat \<Rightarrow> nat) \<Rightarrow> bool" where
  "clock_ok now = (\<forall>n. now n + 10 \<le> now (Suc n))"

lemma clock_after: "clock_ok now \<Longrightarrow> now 0 + 10 * n \<le> now n"
proof (induction n)
  case (Suc n)
  then have "now n + 10 \<le> now (Suc n)"
    by (simp add: clock_ok_def)
  with Suc show ?case
    by simp
qed simp

lemma wait_loop_ends:
  assumes "clock_ok now" "deadline \<le> now (n + m)"
  shows "wait_loop accept now deadline n \<noteq> None"
  using assms(2)
proof (induction m arbitrary: n)
  case 0
  then show ?case
    by (subst wait_loop.simps) (simp add: ex_bool_eq split: AcceptResult.split)
next
  case (Suc m)
  then show ?case
    using Suc.IH [of "n + 1"] by (subst wait_loop.simps) (simp add: ex_bool_eq split: AcceptResult.split)
qed

lemma wait_loop_accepts:
  assumes "n \<le> k" "accept k = Accepted" "\<forall>i. n \<le> i \<and> i < k \<longrightarrow> accept i = WouldBlock \<and> now i < deadline"
  shows "wait_loop accept now deadline n = Some True"
  using assms
proof (induction "k - n" arbitrary: n)
  case 0
  then show ?case
    by (subst wait_loop.simps) simp
next
  case (Suc d)
  then have "wait_loop accept now deadline (n + 1) = Some True"
    by (intro Suc.hyps(1)) simp_all
  moreover have "accept n = WouldBlock" "now n < deadline"
    using Suc by simp_all
  ultimately show ?case
    by (subst wait_loop.simps) simp
qed

text \<open>C32: the wait for the loopback connection ends.  Whatever \<open>accept\<close> answers, the loop returns; it
  returns success when a connection is there at some call before the deadline and every call
  before that one found none.\<close>

theorem wait_for_accept_ends:
  assumes "clock_ok now" "start \<le> now 0"
  shows "(\<exists>b. wait_for_accept accept now start timeout = Some b) \<and>
    (accept k = Accepted \<and> (\<forall>i < k. accept i = WouldBlock \<and> now i < start + timeout) \<longrightarrow>
      wait_for_accept accept now start timeout = Some True)"
proof
  have "start + timeout \<le> now (0 + timeout)"
    using clock_after [OF assms(1), of timeout] assms(2) by simp
  from wait_loop_ends [OF assms(1) this]
  show "\<exists>b. wait_for_accept accept now start timeout = Some b"
    by (auto simp: wait_for_accept_def)
  show "accept k = Accepted \<and> (\<forall>i < k. accept i = WouldBlock \<and> now i < start + timeout) \<longrightarrow>
      wait_for_accept accept now start timeout = Some True"
    using wait_loop_accepts [of 0 k accept now "start + timeout"] by (simp add: wait_for_accept_def)
qed

lemma wait_for_accept_ends_witness:
  "(\<exists>b. wait_for_accept (\<lambda>n. if n = 5 then Accepted else WouldBlock) (\<lambda>n. 3 + 10 * n) 1 2000 = Some b) \<and>
   wait_for_accept (\<lambda>n. if n = 5 then Accepted else WouldBlock) (\<lambda>n. 3 + 10 * n) 1 2000 = Some True"
  using wait_for_accept_ends [of "\<lambda>n. 3 + 10 * n" 1 "\<lambda>n. if n = 5 then Accepted else WouldBlock" 2000 5]
  by (simp add: clock_ok_def ex_bool_eq)

section \<open>The self-test against the probes\<close>

text \<open>
  The iteration over the connection map: its entries in some order, and entries that could not be
  read.
\<close>

definition iterates :: "(ConnKey \<times> ConnInfo) option list \<Rightarrow> (ConnKey, ConnInfo) bpf_map \<Rightarrow> bool" where
  "iterates entries m = (\<forall>k v. Some (k, v) \<in> set entries \<longleftrightarrow> m k = Some v)"

definition loopback :: bytes where
  "loopback = [127, 0, 0, 1]"

lemma map_filter_id_set: "set (List.map_filter id xs) = {x. Some x \<in> set xs}"
  by (force simp: List.map_filter_def)

lemma self_test_exact:
  assumes "sf_bind e" "sf_local_addr e" "wait_for_accept (sf_accept e) (sf_now e) (sf_start e) 2000 = Some True"
    and "iterates entries m"
  shows "run_self_test e (Some entries) =
    Some (\<exists>k v. m k = Some v \<and> ck_src_addr k = loopback @ replicate 12 0 \<and>
      ck_dst_addr k = loopback @ replicate 12 0 \<and> ci_pid v = sf_pid e)"
  using assms by (auto simp: run_self_test_def Let_def list_ex_iff map_filter_id_set iterates_def loopback_def)

text \<open>C31: what the self-test says of the probes.  When the loopback connection was accepted and the offsets
  into \<open>sock_common\<close> are right, the test passes after either of the two probes has recorded the
  connection: the entry of the connect probes is enough, and so is the entry of the accept probe
  alone, since the accepting process is the probe itself.  It fails when no entry has both
  addresses on the loopback and this process.\<close>

theorem self_test_verdict:
  assumes "sf_bind e" "sf_local_addr e" "wait_for_accept (sf_accept e) (sf_now e) (sf_start e) 2000 = Some True"
    and "iterates entries (conn_map k2)" "sf_pid e = ucast (drop_bit 32 (te_pid_tgid te))"
    and "sock_v4_at te sk [127, 0, 0, 1] [127, 0, 0, 1] sport dport" "sk \<noteq> 0"
    and "\<And>m k v. ins_stash k v m k = Some v" "\<And>m k v. ins_conn k v m k = Some v"
  shows "(k2 = tcp_v4_connect_ret ins_conn te 0 (tcp_v4_connect ins_stash te (Some sk) k0) \<longrightarrow>
      run_self_test e (Some entries) = Some True) \<and>
    (k2 = inet_csk_accept ins_conn te sk k0 \<longrightarrow> run_self_test e (Some entries) = Some True) \<and>
    ((\<forall>k v. conn_map k2 k = Some v \<longrightarrow> \<not> (ck_src_addr k = [127, 0, 0, 1] @ replicate 12 0 \<and>
        ck_dst_addr k = [127, 0, 0, 1] @ replicate 12 0 \<and> ci_pid v = sf_pid e)) \<longrightarrow>
      run_self_test e (Some entries) = Some False)"
proof (intro conjI impI)
  note exact = self_test_exact [OF assms(1-4), unfolded loopback_def]
  let ?k = "v4_key [127, 0, 0, 1] [127, 0, 0, 1] sport dport"
  have passes: "run_self_test e (Some entries) = Some True" if "conn_map k2 ?k = Some (current_conn_info te)"
    unfolding exact using that assms(5)
    by (auto intro!: exI [of _ ?k] exI [of _ "current_conn_info te"] simp: v4_key_def current_conn_info_def)
  show "run_self_test e (Some entries) = Some True"
    if "k2 = tcp_v4_connect_ret ins_conn te 0 (tcp_v4_connect ins_stash te (Some sk) k0)"
    using connect_records [where te = te and ins_stash = ins_stash and ins_conn = ins_conn and k = k0, OF assms(6) refl assms(8,9)] passes that by simp
  show "run_self_test e (Some entries) = Some True" if "k2 = inet_csk_accept ins_conn te sk k0"
    using accept_records [where ins = ins_conn and k = k0, OF assms(6,7,9)] passes that by simp
  show "run_self_test e (Some entries) = Some False"
    if "\<forall>k v. conn_map k2 k = Some v \<longrightarrow> \<not> (ck_src_addr k = [127, 0, 0, 1] @ replicate 12 0 \<and>
        ck_dst_addr k = [127, 0, 0, 1] @ replicate 12 0 \<and> ci_pid v = sf_pid e)"
    unfolding exact using that by auto
qed

text \<open>The probe as process 42, on a socket at address 1000 between two loopback ports.\<close>

definition loop_task :: TaskEnv where
  "loop_task =
     \<lparr>te_pid_tgid = 0x0000002A0000002B, te_comm = Some (replicate 16 99), te_cgroup_id = 7,
      te_read_kernel = (\<lambda>p n.
        if p = 1004 \<and> n = 4 then Some [127, 0, 0, 1]
        else if p = 1000 \<and> n = 4 then Some [127, 0, 0, 1]
        else if p = 1012 \<and> n = 2 then Some (be16_bytes 443)
        else if p = 1014 \<and> n = 2 then Some (le_bytes 2 40000)
        else if p = 1016 \<and> n = 2 then Some (le_bytes 2 2)
        else None)\<rparr>"

definition loop_env :: SelfTestEnv where
  "loop_env =
     \<lparr>sf_bind = True, sf_local_addr = True, sf_accept = \<lambda>_. Accepted, sf_now = \<lambda>n. 10 * n, sf_start = 0, sf_pid = 42\<rparr>"

lemma self_test_verdict_witness:
  "run_self_test loop_env
     (Some [None, Some (v4_key [127, 0, 0, 1] [127, 0, 0, 1] 40000 443, current_conn_info loop_task)]) = Some True"
proof -
  let ?ins = "\<lambda>k v m. m(k \<mapsto> v)" and ?k = "v4_key [127, 0, 0, 1] [127, 0, 0, 1] 40000 443"
  let ?k2 = "inet_csk_accept ?ins loop_task 1000 kernel_start"
  have sock: "sock_v4_at loop_task 1000 [127, 0, 0, 1] [127, 0, 0, 1] 40000 443"
    by (simp add: sock_v4_at_def loop_task_def)
  have "conn_map ?k2 = [?k \<mapsto> current_conn_info loop_task]"
    using read_addrs_sock [OF sock] read_ports_sock [OF sock] sock le_val_le_bytes [of 2 2]
    by (simp add: inet_csk_accept_def try_record_accept_def kernel_start_def sock_v4_at_def SKC_FAMILY_OFFSET_def AF_INET_def v4_key_def)
  then have "iterates [None, Some (?k, current_conn_info loop_task)] (conn_map ?k2)"
    by (auto simp: iterates_def)
  moreover have "wait_for_accept (sf_accept loop_env) (sf_now loop_env) (sf_start loop_env) 2000 = Some True"
    by (simp add: loop_env_def wait_for_accept_def wait_loop.simps)
  moreover have "sf_pid loop_env = ucast (drop_bit 32 (te_pid_tgid loop_task))"
    by (simp add: loop_env_def loop_task_def)
  ultimately show ?thesis
    using self_test_verdict [of loop_env _ ?k2 loop_task 1000 40000 443 ?ins ?ins kernel_start] sock
    by (simp add: loop_env_def)
qed

end
