(* ===== verification/Extensions.thy ===== *)
theory Extensions
  imports Capture_Record
begin

text \<open>
  \<open>crates/tls-probe-parser/src/extensions.rs\<close>, \<open>types.rs\<close> and \<open>error.rs\<close>: extension types,
  the extension list parser and the extractors of the extensions the probe reports.

  Every \<open>while\<close> loop over an offset is a function with the distance to the end of the data
  as its measure; every subslice access is a checked read, so the \<open>no_panic\<close> lemmas state that
  no input makes the parser read out of bounds.
\<close>

section \<open>Types\<close>

datatype ParseError =
  TooShort | InvalidRecord | InvalidHandshakeType | UnexpectedEnd nat

datatype ExtensionType =
    ServerName
  | ApplicationLayerProtocolNegotiation
  | SupportedGroups
  | SignatureAlgorithms
  | SupportedVersions
  | KeyShare
  | SignatureAlgorithmsCert
  | SessionTicket
  | EarlyData
  | PskKeyExchangeModes
  | PreSharedKey
  | ExtUnknown u16

definition ext_type_from :: "u16 \<Rightarrow> ExtensionType" where
  "ext_type_from v =
     (if v = 0x0000 then ServerName
      else if v = 0x0010 then ApplicationLayerProtocolNegotiation
      else if v = 0x000A then SupportedGroups
      else if v = 0x000D then SignatureAlgorithms
      else if v = 0x0023 then SessionTicket
      else if v = 0x002A then EarlyData
      else if v = 0x002B then SupportedVersions
      else if v = 0x002D then PskKeyExchangeModes
      else if v = 0x0029 then PreSharedKey
      else if v = 0x0032 then SignatureAlgorithmsCert
      else if v = 0x0033 then KeyShare
      else ExtUnknown v)"

datatype TlsVersion = Ssl30 | Tls10 | Tls11 | Tls12 | Tls13 | VersionUnknown u16

definition tls_version_from :: "u16 \<Rightarrow> TlsVersion" where
  "tls_version_from v =
     (if v = 0x0300 then Ssl30
      else if v = 0x0301 then Tls10
      else if v = 0x0302 then Tls11
      else if v = 0x0303 then Tls12
      else if v = 0x0304 then Tls13
      else VersionUnknown v)"

primrec tls_version_as_str :: "TlsVersion \<Rightarrow> string" where
  "tls_version_as_str Ssl30 = ''SSL 3.0''"
| "tls_version_as_str Tls10 = ''TLS 1.0''"
| "tls_version_as_str Tls11 = ''TLS 1.1''"
| "tls_version_as_str Tls12 = ''TLS 1.2''"
| "tls_version_as_str Tls13 = ''TLS 1.3''"
| "tls_version_as_str (VersionUnknown v) = ''Unknown''"

primrec tls_version_to_u16 :: "TlsVersion \<Rightarrow> u16" where
  "tls_version_to_u16 Ssl30 = 0x0300"
| "tls_version_to_u16 Tls10 = 0x0301"
| "tls_version_to_u16 Tls11 = 0x0302"
| "tls_version_to_u16 Tls12 = 0x0303"
| "tls_version_to_u16 Tls13 = 0x0304"
| "tls_version_to_u16 (VersionUnknown v) = v"

record Extension =
  ext_type :: ExtensionType
  ext_data :: bytes

section \<open>The extension list\<close>

function parse_extensions_loop ::
  "bytes \<Rightarrow> nat \<Rightarrow> Extension list \<Rightarrow> (ParseError, Extension list) run" where
  "parse_extensions_loop d offset exts =
     (if offset + 4 \<le> length d then
        rbind (rd16 d offset) (\<lambda>ty.
        rbind (rd16 d (offset + 2)) (\<lambda>len.
          let ext_len = unat len; offset' = offset + 4 in
          if offset' + ext_len > length d then Ret exts
          else
            rbind (subslice d offset' (offset' + ext_len)) (\<lambda>body.
              parse_extensions_loop d (offset' + ext_len)
                (exts @ [\<lparr>ext_type = ext_type_from ty, ext_data = body\<rparr>]))))
      else Ret exts)"
  by pat_completeness auto
termination
  by (relation "measure (\<lambda>(d, offset, _). length d - offset)") auto

declare parse_extensions_loop.simps [simp del]

definition parse_extensions :: "bytes \<Rightarrow> (ParseError, Extension list) run" where
  "parse_extensions d = parse_extensions_loop d 0 []"

section \<open>Lists of 16-bit code points\<close>

text \<open>The loop shared by the list-valued extensions: \<open>limit\<close> is where the list is said to end.\<close>

function u16_list_loop :: "bytes \<Rightarrow> nat \<Rightarrow> nat \<Rightarrow> u16 list \<Rightarrow> (ParseError, u16 list) run" where
  "u16_list_loop d limit offset acc =
     (if offset + 2 \<le> length d \<and> offset < limit
      then rbind (rd16 d offset) (\<lambda>v. u16_list_loop d limit (offset + 2) (acc @ [v]))
      else Ret acc)"
  by pat_completeness auto
termination
  by (relation "measure (\<lambda>(d, _, offset, _). length d - offset)") auto

declare u16_list_loop.simps [simp del]

definition extract_supported_versions :: "Extension \<Rightarrow> bool \<Rightarrow> (ParseError, u16 list) run" where
  "extract_supported_versions ext is_client =
     (let d = ext_data ext in
      if is_client then
        (if d = [] then Ret []
         else rbind (idx d 0) (\<lambda>l. u16_list_loop d (1 + unat l) 1 []))
      else if length d \<ge> 2 then rbind (rd16 d 0) (\<lambda>v. Ret [v])
      else Ret [])"

definition extract_supported_groups :: "Extension \<Rightarrow> (ParseError, u16 list) run" where
  "extract_supported_groups ext =
     (let d = ext_data ext in
      if length d < 2 then Ret []
      else rbind (rd16 d 0) (\<lambda>l. u16_list_loop d (2 + unat l) 2 []))"

definition extract_signature_algorithms :: "Extension \<Rightarrow> (ParseError, u16 list) run" where
  "extract_signature_algorithms ext =
     (let d = ext_data ext in
      if length d < 2 then Ret []
      else rbind (rd16 d 0) (\<lambda>l. u16_list_loop d (2 + unat l) 2 []))"

definition extract_signature_algorithms_cert :: "Extension \<Rightarrow> (ParseError, u16 list) run" where
  "extract_signature_algorithms_cert ext =
     (let d = ext_data ext in
      if length d < 2 then Ret []
      else rbind (rd16 d 0) (\<lambda>l. u16_list_loop d (2 + unat l) 2 []))"

function key_share_loop :: "bytes \<Rightarrow> nat \<Rightarrow> nat \<Rightarrow> u16 list \<Rightarrow> (ParseError, u16 list) run" where
  "key_share_loop d limit offset acc =
     (if offset + 4 \<le> length d \<and> offset < limit
      then rbind (rd16 d offset) (\<lambda>group.
           rbind (rd16 d (offset + 2)) (\<lambda>key_len.
             key_share_loop d limit (offset + (4 + unat key_len)) (acc @ [group])))
      else Ret acc)"
  by pat_completeness auto
termination
  by (relation "measure (\<lambda>(d, _, offset, _). length d - offset)") auto

declare key_share_loop.simps [simp del]

definition extract_key_share_groups :: "Extension \<Rightarrow> bool \<Rightarrow> (ParseError, u16 list) run" where
  "extract_key_share_groups ext is_client =
     (let d = ext_data ext in
      if is_client then
        (if length d < 2 then Ret []
         else rbind (rd16 d 0) (\<lambda>l. key_share_loop d (2 + unat l) 2 []))
      else if length d \<ge> 2 then rbind (rd16 d 0) (\<lambda>v. Ret [v])
      else Ret [])"

section \<open>Names\<close>

definition extract_sni :: "Extension \<Rightarrow> (ParseError, string option) run" where
  "extract_sni ext =
     (let d = ext_data ext in
      if length d < 5 then Ret None
      else
        rbind (rd16 d 0) (\<lambda>_.
        rbind (idx d 2) (\<lambda>name_type.
          if name_type \<noteq> 0 then Ret None
          else
            rbind (rd16 d 3) (\<lambda>l.
              let name_len = unat l in
              if length d < 5 + name_len then Ret None
              else rbind (subslice d 5 (5 + name_len)) (\<lambda>name. Ret (from_utf8 name))))))"

function alpn_loop :: "bytes \<Rightarrow> nat \<Rightarrow> nat \<Rightarrow> string list \<Rightarrow> (ParseError, string list) run" where
  "alpn_loop d limit offset acc =
     (if offset < length d \<and> offset < limit
      then
        rbind (idx d offset) (\<lambda>l.
          let proto_len = unat l; offset' = offset + 1 in
          if offset' + proto_len > length d then Ret acc
          else
            rbind (subslice d offset' (offset' + proto_len)) (\<lambda>p.
              alpn_loop d limit (offset' + proto_len) (acc @ [from_utf8_lossy p])))
      else Ret acc)"
  by pat_completeness auto
termination
  by (relation "measure (\<lambda>(d, _, offset, _). length d - offset)") auto

declare alpn_loop.simps [simp del]

definition extract_alpn :: "Extension \<Rightarrow> (ParseError, string list) run" where
  "extract_alpn ext =
     (let d = ext_data ext in
      if length d < 2 then Ret []
      else rbind (rd16 d 0) (\<lambda>l. alpn_loop d (2 + unat l) 2 []))"

section \<open>Presence flags\<close>

definition has_pre_shared_key :: "Extension \<Rightarrow> bool" where
  "has_pre_shared_key ext = (ext_type ext = PreSharedKey)"

definition has_psk_key_exchange_modes :: "Extension \<Rightarrow> bool" where
  "has_psk_key_exchange_modes ext = (ext_type ext = PskKeyExchangeModes)"

definition has_early_data :: "Extension \<Rightarrow> bool" where
  "has_early_data ext = (ext_type ext = EarlyData)"

definition has_session_ticket :: "Extension \<Rightarrow> bool" where
  "has_session_ticket ext = (ext_type ext = SessionTicket)"

definition is_psk_selected :: "Extension \<Rightarrow> bool" where
  "is_psk_selected ext = (ext_type ext = PreSharedKey \<and> ext_data ext \<noteq> [])"

section \<open>The offset-free reading of each loop\<close>

text \<open>
  Each loop computes a function of the remaining bytes alone.  These reference functions
  recurse on the list; the lemmas below equate the loops with them, which at once shows that
  the loops never panic and never fail.
\<close>

function exts_of :: "bytes \<Rightarrow> Extension list" where
  "exts_of d =
     (if length d < 4 then []
      else let len = unat (be16 (d ! 2) (d ! 3)) in
        if length d < 4 + len then []
        else \<lparr>ext_type = ext_type_from (be16 (d ! 0) (d ! 1)), ext_data = take len (drop 4 d)\<rparr>
             # exts_of (drop (4 + len) d))"
  by pat_completeness auto
termination
  by (relation "measure length") auto

declare exts_of.simps [simp del]

fun u16s_upto :: "nat \<Rightarrow> bytes \<Rightarrow> u16 list" where
  "u16s_upto k (a # b # r) = (if 0 < k then be16 a b # u16s_upto (k - 2) r else [])"
| "u16s_upto k _ = []"

function shares_upto :: "nat \<Rightarrow> bytes \<Rightarrow> u16 list" where
  "shares_upto k d =
     (if 4 \<le> length d \<and> 0 < k
      then let len = unat (be16 (d ! 2) (d ! 3)) in
        be16 (d ! 0) (d ! 1) # shares_upto (k - (4 + len)) (drop (4 + len) d)
      else [])"
  by pat_completeness auto
termination
  by (relation "measure (\<lambda>(_, d). length d)") auto

declare shares_upto.simps [simp del]

function alpn_upto :: "nat \<Rightarrow> bytes \<Rightarrow> string list" where
  "alpn_upto k d =
     (if d \<noteq> [] \<and> 0 < k then
        let len = unat (d ! 0) in
        if length d < 1 + len then []
        else from_utf8_lossy (take len (drop 1 d)) # alpn_upto (k - (1 + len)) (drop (1 + len) d)
      else [])"
  by pat_completeness auto
termination
  by (relation "measure (\<lambda>(_, d). length d)") auto

declare alpn_upto.simps [simp del]

lemma parse_extensions_loop_eq:
  "parse_extensions_loop d offset exts = Ret (exts @ exts_of (drop offset d))"
proof (induction d offset exts rule: parse_extensions_loop.induct)
  case (1 d offset exts)
  define r where "r = drop offset d"
  define len where "len = unat (be16 (r ! 2) (r ! 3))"
  have lr: "length r = length d - offset"
    by (simp add: r_def)
  consider "length d < offset + 4"
    | "offset + 4 \<le> length d" "length d < offset + 4 + len"
    | "offset + 4 + len \<le> length d"
    by linarith
  then show ?case
  proof cases
    case 1
    then show ?thesis
      unfolding r_def [symmetric]
      by (simp add: parse_extensions_loop.simps [of d] exts_of.simps [of r] lr)
  next
    case 2
    then show ?thesis
      unfolding r_def [symmetric]
      by (simp add: parse_extensions_loop.simps [of d] exts_of.simps [of r] lr
          rd16_rest [OF r_def] rd16_rest2 [OF r_def] Let_def len_def)
  next
    case 3
    let ?e = "\<lparr>ext_type = ext_type_from (be16 (r ! 0) (r ! 1)), ext_data = take len (drop 4 r)\<rparr>"
    have "parse_extensions_loop d offset exts =
        parse_extensions_loop d (offset + 4 + len) (exts @ [?e])"
      using 3 by (subst parse_extensions_loop.simps)
        (simp add: rd16_rest [OF r_def] rd16_rest2 [OF r_def] subslice_rest [OF r_def]
          Let_def len_def [symmetric])
    also have "\<dots> = Ret ((exts @ [?e]) @ exts_of (drop (offset + 4 + len) d))"
      using 3 by (intro "1.IH") (simp_all add: len_def)
    also have "drop (offset + 4 + len) d = drop (4 + len) r"
      by (simp add: r_def add.commute add.left_commute)
    also have "(exts @ [?e]) @ exts_of (drop (4 + len) r) = exts @ exts_of r"
      using 3 lr by (subst (2) exts_of.simps) (simp add: Let_def len_def [symmetric])
    finally show ?thesis
      by (simp add: r_def)
  qed
qed

lemma parse_extensions_eq: "parse_extensions d = Ret (exts_of d)"
  by (simp add: parse_extensions_def parse_extensions_loop_eq)

lemma u16s_upto_short: "length d < 2 \<Longrightarrow> u16s_upto k d = []"
  by (cases "(k, d)" rule: u16s_upto.cases) auto

lemma u16_list_loop_eq:
  "u16_list_loop d limit offset acc = Ret (acc @ u16s_upto (limit - offset) (drop offset d))"
proof (induction d limit offset acc rule: u16_list_loop.induct)
  case (1 d limit offset acc)
  show ?case
  proof (cases "offset + 2 \<le> length d")
    case True
    with 1 show ?thesis
      by (simp add: u16_list_loop.simps [of d limit offset] rd16_in drop_unfold2)
  next
    case False
    then show ?thesis
      by (simp add: u16_list_loop.simps [of d limit offset] u16s_upto_short)
  qed
qed

lemma key_share_loop_eq:
  "key_share_loop d limit offset acc = Ret (acc @ shares_upto (limit - offset) (drop offset d))"
proof (induction d limit offset acc rule: key_share_loop.induct)
  case (1 d limit offset acc)
  define r where "r = drop offset d"
  define len where "len = unat (be16 (r ! 2) (r ! 3))"
  have lr: "length r = length d - offset"
    by (simp add: r_def)
  show ?case
  proof (cases "offset + 4 \<le> length d \<and> offset < limit")
    case True
    let ?g = "be16 (r ! 0) (r ! 1)"
    have r4: "4 \<le> length r"
      using True lr by linarith
    have "key_share_loop d limit offset acc =
        key_share_loop d limit (offset + (4 + len)) (acc @ [?g])"
      using True by (subst key_share_loop.simps)
        (simp add: rd16_rest [OF r_def] rd16_rest2 [OF r_def] len_def)
    also have "\<dots> = Ret ((acc @ [?g]) @
        shares_upto (limit - (offset + (4 + len))) (drop (offset + (4 + len)) d))"
      unfolding len_def using "1.IH" True by blast
    also have "drop (offset + (4 + len)) d = drop (4 + len) r"
      by (rule drop_rest [OF r_def])
    also have "limit - (offset + (4 + len)) = limit - offset - (4 + len)"
      by simp
    also have "(acc @ [?g]) @ shares_upto (limit - offset - (4 + len)) (drop (4 + len) r) =
        acc @ shares_upto (limit - offset) r"
      using True r4 by (subst (2) shares_upto.simps) (simp add: Let_def len_def [symmetric])
    finally show ?thesis
      by (simp add: r_def)
  next
    case False
    then show ?thesis
      unfolding r_def [symmetric]
      by (auto simp: key_share_loop.simps [of d limit offset] shares_upto.simps [of _ r] lr)
  qed
qed

lemma alpn_loop_eq:
  "alpn_loop d limit offset acc = Ret (acc @ alpn_upto (limit - offset) (drop offset d))"
proof (induction d limit offset acc rule: alpn_loop.induct)
  case (1 d limit offset acc)
  define r where "r = drop offset d"
  define len where "len = unat (r ! 0)"
  have lr: "length r = length d - offset"
    by (simp add: r_def)
  consider "\<not> (offset < length d \<and> offset < limit)"
    | "offset < length d" "offset < limit" "length d < offset + 1 + len"
    | "offset < limit" "offset + 1 + len \<le> length d"
    by linarith
  then show ?case
  proof cases
    case 1
    then show ?thesis
      unfolding r_def [symmetric]
      by (auto simp: alpn_loop.simps [of d limit offset] alpn_upto.simps [of _ r] simp flip: length_greater_0_conv simp: lr)
  next
    case 2
    then show ?thesis
      unfolding r_def [symmetric]
      by (auto simp: alpn_loop.simps [of d limit offset] alpn_upto.simps [of _ r] lr
          idx_rest [OF r_def] Let_def len_def)
  next
    case 3
    let ?p = "from_utf8_lossy (take len (drop 1 r))"
    have "alpn_loop d limit offset acc = alpn_loop d limit (offset + 1 + len) (acc @ [?p])"
      using 3 by (subst alpn_loop.simps)
        (simp add: idx_rest [OF r_def] subslice_rest [OF r_def, where a = 1, simplified]
          Let_def len_def [symmetric])
    also have "\<dots> = Ret ((acc @ [?p]) @
        alpn_upto (limit - (offset + 1 + len)) (drop (offset + 1 + len) d))"
      using 3 by (intro "1.IH") (simp_all add: len_def)
    also have "drop (offset + 1 + len) d = drop (1 + len) r"
      by (simp add: r_def add.commute)
    also have "limit - (offset + 1 + len) = limit - offset - (1 + len)"
      by simp
    also have "(acc @ [?p]) @ alpn_upto (limit - offset - (1 + len)) (drop (1 + len) r) =
        acc @ alpn_upto (limit - offset) r"
      using 3 lr by (subst (2) alpn_upto.simps) (auto simp: Let_def len_def [symmetric])
    finally show ?thesis
      by (simp add: r_def)
  qed
qed

lemmas loop_eqs = u16_list_loop_eq key_share_loop_eq alpn_loop_eq

section \<open>The extractors as functions of the extension data\<close>

definition list16_of :: "bytes \<Rightarrow> u16 list" where
  "list16_of d = (if length d < 2 then [] else u16s_upto (unat (be16 (d ! 0) (d ! 1))) (drop 2 d))"

definition list8_of :: "bytes \<Rightarrow> u16 list" where
  "list8_of d = (case d of [] \<Rightarrow> [] | l # r \<Rightarrow> u16s_upto (unat l) r)"

definition first16_of :: "bytes \<Rightarrow> u16 list" where
  "first16_of d = (if length d < 2 then [] else [be16 (d ! 0) (d ! 1)])"

definition shares_of :: "bytes \<Rightarrow> u16 list" where
  "shares_of d = (if length d < 2 then [] else shares_upto (unat (be16 (d ! 0) (d ! 1))) (drop 2 d))"

definition sni_of :: "bytes \<Rightarrow> string option" where
  "sni_of d =
     (if length d < 5 \<or> d ! 2 \<noteq> 0 then None
      else let n = unat (be16 (d ! 3) (d ! 4)) in
        if length d < 5 + n then None else from_utf8 (take n (drop 5 d)))"

definition alpn_of :: "bytes \<Rightarrow> string list" where
  "alpn_of d = (if length d < 2 then [] else alpn_upto (unat (be16 (d ! 0) (d ! 1))) (drop 2 d))"

lemma extract_supported_groups_eq: "extract_supported_groups e = Ret (list16_of (ext_data e))"
  by (simp add: extract_supported_groups_def list16_of_def Let_def rd16_in loop_eqs)

lemma extract_signature_algorithms_eq:
  "extract_signature_algorithms e = Ret (list16_of (ext_data e))"
  by (simp add: extract_signature_algorithms_def list16_of_def Let_def rd16_in loop_eqs)

lemma extract_signature_algorithms_cert_eq:
  "extract_signature_algorithms_cert e = Ret (list16_of (ext_data e))"
  by (simp add: extract_signature_algorithms_cert_def list16_of_def Let_def rd16_in loop_eqs)

lemma extract_supported_versions_eq:
  "extract_supported_versions e is_client =
     Ret (if is_client then list8_of (ext_data e) else first16_of (ext_data e))"
  by (simp add: extract_supported_versions_def list8_of_def first16_of_def Let_def rd16_in
      loop_eqs idx_in split: list.split)

lemma extract_key_share_groups_eq:
  "extract_key_share_groups e is_client =
     Ret (if is_client then shares_of (ext_data e) else first16_of (ext_data e))"
  by (simp add: extract_key_share_groups_def shares_of_def first16_of_def Let_def rd16_in loop_eqs)

lemma extract_sni_eq: "extract_sni e = Ret (sni_of (ext_data e))"
  by (simp add: extract_sni_def sni_of_def Let_def rd16_in run_simps)

lemma extract_alpn_eq: "extract_alpn e = Ret (alpn_of (ext_data e))"
  by (simp add: extract_alpn_def alpn_of_def Let_def rd16_in loop_eqs)

lemmas extract_eqs = extract_supported_groups_eq extract_signature_algorithms_eq
  extract_signature_algorithms_cert_eq extract_supported_versions_eq
  extract_key_share_groups_eq extract_sni_eq extract_alpn_eq

section \<open>Raw extension identifiers\<close>

text \<open>
  The identifiers \<open>parse_client_hello\<close> records for fingerprinting come from a second walk over
  the same bytes, which does not check that the body of an extension is complete.
\<close>

function ids_of :: "bytes \<Rightarrow> u16 list" where
  "ids_of d =
     (if length d < 4 then []
      else be16 (d ! 0) (d ! 1) # ids_of (drop (4 + unat (be16 (d ! 2) (d ! 3))) d))"
  by pat_completeness auto
termination
  by (relation "measure length") auto

declare ids_of.simps [simp del]

lemma ids_of_short: "length d < 4 \<Longrightarrow> ids_of d = []"
  by (simp add: ids_of.simps)

lemma exts_of_short: "length d < 4 \<Longrightarrow> exts_of d = []"
  by (simp add: exts_of.simps)

lemma ids_extend_exts:
  "map ext_type (exts_of d) = map ext_type_from (take (length (exts_of d)) (ids_of d)) \<and>
   length (exts_of d) \<le> length (ids_of d) \<and> length (ids_of d) \<le> Suc (length (exts_of d))"
proof (induction d rule: exts_of.induct)
  case (1 d)
  define len where "len = unat (be16 (d ! 2) (d ! 3))"
  consider "length d < 4" | "4 \<le> length d" "length d < 4 + len" | "4 + len \<le> length d"
    by linarith
  then show ?case
  proof cases
    case 1
    then show ?thesis
      by (simp add: ids_of_short exts_of_short)
  next
    case 2
    then show ?thesis
      by (simp add: ids_of.simps [of d] exts_of.simps [of d] Let_def len_def [symmetric] ids_of_short)
  next
    case 3
    have eqs: "ids_of d = be16 (d ! 0) (d ! 1) # ids_of (drop (4 + len) d)"
      "exts_of d = \<lparr>ext_type = ext_type_from (be16 (d ! 0) (d ! 1)), ext_data = take len (drop 4 d)\<rparr>
        # exts_of (drop (4 + len) d)"
      using 3 by (simp_all add: ids_of.simps [of d] exts_of.simps [of d] Let_def len_def [symmetric])
    from 3 show ?thesis
      using "1.IH" [of len] by (simp add: eqs len_def [symmetric])
  qed
qed

section \<open>Truncated captures\<close>

lemma exts_of_take_prefix: "prefix (exts_of (take n d)) (exts_of d)"
proof (induction d arbitrary: n rule: exts_of.induct)
  case (1 d)
  define len where "len = unat (be16 (d ! 2) (d ! 3))"
  show ?case
  proof (cases "length (take n d) < 4 + len")
    case True
    then have "exts_of (take n d) = []"
      by (simp add: exts_of.simps [of "take n d"] Let_def len_def)
    then show ?thesis
      by simp
  next
    case False
    then have n: "4 + len \<le> n" "4 + len \<le> length d"
      by simp_all
    let ?e = "\<lparr>ext_type = ext_type_from (be16 (d ! 0) (d ! 1)), ext_data = take len (drop 4 d)\<rparr>"
    have "exts_of d = ?e # exts_of (drop (4 + len) d)"
      using n by (simp add: exts_of.simps [of d] Let_def len_def [symmetric])
    moreover have "exts_of (take n d) = ?e # exts_of (take (n - (4 + len)) (drop (4 + len) d))"
      using n by (simp add: exts_of.simps [of "take n d"] Let_def len_def [symmetric] drop_take min_def)
    moreover have "prefix (exts_of (take (n - (4 + len)) (drop (4 + len) d))) (exts_of (drop (4 + len) d))"
      using "1.IH" [of len] n by (simp add: len_def [symmetric])
    ultimately show ?thesis
      by simp
  qed
qed

section \<open>Encoders\<close>

text \<open>The wire format of RFC 8446, section 4.2, written as functions; the parsers invert them.\<close>

definition enc_ext :: "u16 \<times> bytes \<Rightarrow> bytes" where
  "enc_ext = (\<lambda>(ty, body). be16_bytes ty @ be16_bytes (of_nat (length body)) @ body)"

definition enc_exts :: "(u16 \<times> bytes) list \<Rightarrow> bytes" where
  "enc_exts xs = concat (map enc_ext xs)"

definition ext_of :: "u16 \<times> bytes \<Rightarrow> Extension" where
  "ext_of = (\<lambda>(ty, body). \<lparr>ext_type = ext_type_from ty, ext_data = body\<rparr>)"

definition exts_fit :: "(u16 \<times> bytes) list \<Rightarrow> bool" where
  "exts_fit xs = (\<forall>x \<in> set xs. length (snd x) < 65536)"

definition enc_u16s :: "u16 list \<Rightarrow> bytes" where
  "enc_u16s vs = concat (map be16_bytes vs)"

definition enc_list16 :: "u16 list \<Rightarrow> bytes" where
  "enc_list16 vs = be16_bytes (of_nat (2 * length vs)) @ enc_u16s vs"

definition enc_list8 :: "u16 list \<Rightarrow> bytes" where
  "enc_list8 vs = of_nat (2 * length vs) # enc_u16s vs"

definition enc_shares :: "(u16 \<times> bytes) list \<Rightarrow> bytes" where
  "enc_shares xs = be16_bytes (of_nat (length (enc_exts xs))) @ enc_exts xs"

definition enc_sni :: "bytes \<Rightarrow> bytes" where
  "enc_sni host =
     be16_bytes (of_nat (length host + 3)) @ [0] @ be16_bytes (of_nat (length host)) @ host"

definition enc_protos :: "bytes list \<Rightarrow> bytes" where
  "enc_protos ps = concat (map (\<lambda>p. of_nat (length p) # p) ps)"

definition enc_alpn :: "bytes list \<Rightarrow> bytes" where
  "enc_alpn ps = be16_bytes (of_nat (length (enc_protos ps))) @ enc_protos ps"

lemma cons_reads:
  "(a # b # c # xs) ! 2 = c"
  "(a # b # c # d # xs) ! 3 = d"
  "(a # b # c # d # e # xs) ! 4 = e"
  "drop 2 (a # b # xs) = xs"
  "drop 5 (a # b # c # d # e # xs) = xs"
  "drop (4 + n) (a # b # c # d # xs) = drop n xs"
  by (simp_all add: numeral_eq_Suc)

lemma enc_ext_cons:
  "enc_ext (ty, body) @ rest =
     of_nat (unat ty div 256) # ucast ty #
     of_nat (unat (of_nat (length body) :: u16) div 256) # ucast (of_nat (length body) :: u16) #
     body @ rest"
  by (simp add: enc_ext_def be16_bytes_def)

lemma enc_ext_reads:
  "be16 ((enc_ext (ty, body) @ rest) ! 0) ((enc_ext (ty, body) @ rest) ! Suc 0) = ty"
  "be16 ((enc_ext (ty, body) @ rest) ! 2) ((enc_ext (ty, body) @ rest) ! 3) = of_nat (length body)"
  "drop (4 + n) (enc_ext (ty, body) @ rest) = drop n (body @ rest)"
  by (simp_all only: enc_ext_cons cons_reads nth_Cons_0 nth_Cons_Suc be16_of_bytes)

lemma length_enc_ext: "length (enc_ext (ty, body)) = 4 + length body"
  by (simp add: enc_ext_def)

lemma drop4_enc_ext: "drop 4 (enc_ext (ty, body) @ rest) = body @ rest"
  using enc_ext_reads(3) [of 0 ty body rest] by simp

lemma drop_enc_ext: "drop (4 + length body) (enc_ext (ty, body) @ rest) = rest"
  using enc_ext_reads(3) [of "length body" ty body rest] by simp

lemma exts_of_enc_ext:
  assumes "length body < 65536"
  shows "exts_of (enc_ext (ty, body) @ rest) = ext_of (ty, body) # exts_of rest"
proof -
  let ?d = "enc_ext (ty, body) @ rest"
  have "unat (be16 (?d ! 2) (?d ! 3)) = length body" "4 + length body \<le> length ?d"
    using assms by (simp_all add: enc_ext_reads unat_of_nat16 length_enc_ext)
  then show ?thesis
    by (subst exts_of.simps)
      (simp only: Let_def One_nat_def enc_ext_reads drop4_enc_ext drop_enc_ext ext_of_def; simp)
qed

lemma exts_of_enc_exts: "exts_fit xs \<Longrightarrow> exts_of (enc_exts xs) = map ext_of xs"
  by (induction xs) (auto simp: enc_exts_def exts_fit_def exts_of_enc_ext exts_of_short)

lemma ids_of_enc_ext:
  assumes "length body < 65536"
  shows "ids_of (enc_ext (ty, body) @ rest) = ty # ids_of rest"
proof -
  let ?d = "enc_ext (ty, body) @ rest"
  have "unat (be16 (?d ! 2) (?d ! 3)) = length body" "4 + length body \<le> length ?d"
    using assms by (simp_all add: enc_ext_reads unat_of_nat16 length_enc_ext)
  then show ?thesis
    by (subst ids_of.simps) (simp only: One_nat_def enc_ext_reads drop_enc_ext; simp)
qed

lemma ids_of_enc_exts: "exts_fit xs \<Longrightarrow> ids_of (enc_exts xs) = map fst xs"
  by (induction xs) (auto simp: enc_exts_def exts_fit_def ids_of_enc_ext ids_of_short)

lemma length_enc_u16s [simp]: "length (enc_u16s vs) = 2 * length vs"
  by (induction vs) (simp_all add: enc_u16s_def)

lemma u16s_upto_enc: "u16s_upto (2 * length vs) (enc_u16s vs @ rest) = vs"
proof (induction vs)
  case Nil
  then show ?case
    by (cases "(0 :: nat, rest)" rule: u16s_upto.cases) (auto simp: enc_u16s_def)
next
  case (Cons v vs)
  then show ?case
    by (simp add: enc_u16s_def be16_bytes_def be16_of_bytes)
qed

lemma be16_bytes_reads:
  "be16 ((be16_bytes w @ rest) ! 0) ((be16_bytes w @ rest) ! Suc 0) = w"
  "drop 2 (be16_bytes w @ rest) = rest"
  by (simp_all add: be16_bytes_def be16_of_bytes)

lemma list16_of_enc: "2 * length vs < 65536 \<Longrightarrow> list16_of (enc_list16 vs) = vs"
  using u16s_upto_enc [of vs "[]"] unat_of_nat16 [of "2 * length vs"]
  by (simp add: list16_of_def enc_list16_def be16_bytes_reads)

lemma list8_of_enc: "2 * length vs < 256 \<Longrightarrow> list8_of (enc_list8 vs) = vs"
  using u16s_upto_enc [of vs "[]"] unat_of_nat8 [of "2 * length vs"]
  by (simp add: list8_of_def enc_list8_def)

lemma first16_of_enc: "first16_of (be16_bytes v @ rest) = [v]"
  by (simp add: first16_of_def be16_bytes_reads)

lemma shares_upto_enc:
  "exts_fit xs \<Longrightarrow> shares_upto (length (enc_exts xs)) (enc_exts xs) = map fst xs"
proof (induction xs)
  case Nil
  then show ?case
    by (simp add: enc_exts_def shares_upto.simps)
next
  case (Cons x xs)
  obtain ty body where x: "x = (ty, body)"
    by (cases x)
  let ?rest = "enc_exts xs"
  have fit: "length body < 65536" "exts_fit xs"
    using Cons.prems by (simp_all add: exts_fit_def x)
  have enc: "enc_exts (x # xs) = enc_ext (ty, body) @ ?rest"
    by (simp add: enc_exts_def x)
  let ?d = "enc_ext (ty, body) @ ?rest"
  have "unat (be16 (?d ! 2) (?d ! 3)) = length body" "4 + length body \<le> length ?d"
    "length ?d - (4 + length body) = length ?rest"
    using fit by (simp_all add: enc_ext_reads unat_of_nat16 length_enc_ext)
  then have "shares_upto (length ?d) ?d = ty # shares_upto (length ?rest) ?rest"
    by (subst shares_upto.simps)
      (simp only: Let_def One_nat_def enc_ext_reads drop_enc_ext; auto simp: length_enc_ext)
  then show ?case
    using Cons.IH fit by (simp add: enc [unfolded x] x)
qed

lemma shares_of_enc:
  "exts_fit xs \<Longrightarrow> length (enc_exts xs) < 65536 \<Longrightarrow> shares_of (enc_shares xs) = map fst xs"
  by (simp add: shares_of_def enc_shares_def be16_bytes_reads unat_of_nat16 shares_upto_enc)

lemma sni_of_enc:
  assumes "length host < 65533"
  shows "sni_of (enc_sni host) = from_utf8 host"
proof -
  have enc: "enc_sni host =
      of_nat (unat (of_nat (length host + 3) :: u16) div 256) #
      ucast (of_nat (length host + 3) :: u16) # 0 #
      of_nat (unat (of_nat (length host) :: u16) div 256) #
      ucast (of_nat (length host) :: u16) # host"
    by (simp add: enc_sni_def be16_bytes_def)
  have "enc_sni host ! 2 = 0" "be16 (enc_sni host ! 3) (enc_sni host ! 4) = of_nat (length host)"
    "drop 5 (enc_sni host) = host" "length (enc_sni host) = 5 + length host"
    by (simp_all only: enc cons_reads be16_of_bytes) simp
  then show ?thesis
    using assms by (simp add: sni_of_def Let_def unat_of_nat16)
qed

lemma alpn_upto_enc:
  assumes "\<forall>p \<in> set ps. length p < 256"
  shows "alpn_upto (length (enc_protos ps)) (enc_protos ps) = map from_utf8_lossy ps"
  using assms
proof (induction ps)
  case Nil
  then show ?case
    by (simp add: enc_protos_def alpn_upto.simps)
next
  case (Cons p ps)
  then have "unat (of_nat (length p) :: u8) = length p"
    by (simp add: unat_of_nat8)
  with Cons show ?case
    by (subst alpn_upto.simps) (simp add: enc_protos_def Let_def)
qed

lemma alpn_of_enc:
  "\<forall>p \<in> set ps. length p < 256 \<Longrightarrow> length (enc_protos ps) < 65536 \<Longrightarrow>
     alpn_of (enc_alpn ps) = map from_utf8_lossy ps"
  by (simp add: alpn_of_def enc_alpn_def be16_bytes_reads unat_of_nat16 alpn_upto_enc)

lemmas enc_roundtrips = list16_of_enc list8_of_enc first16_of_enc shares_of_enc sni_of_enc alpn_of_enc

end
