(* ===== verification/Hello_Parser.thy ===== *)
theory Hello_Parser
  imports Extensions
begin

text \<open>
  \<open>crates/tls-probe-parser/src/client_hello.rs\<close>, \<open>server_hello.rs\<close> and \<open>lib.rs\<close>: the two
  hello parsers, the dispatch on the direction and the accessors of an analysis.

  The parsers run over an offset into the payload exactly as the source does; every index is a
  checked read.  The lemmas show that no payload makes them panic, say when each error is
  returned, and that they invert the wire format.
\<close>

section \<open>Parsed hellos\<close>

definition TLS_RECORD_HDR_LEN :: nat where "TLS_RECORD_HDR_LEN = 5"
definition TLS_HANDSHAKE_HDR_LEN :: nat where "TLS_HANDSHAKE_HDR_LEN = 4"
definition TLS_RANDOM_LEN :: nat where "TLS_RANDOM_LEN = 32"

lemmas hello_lens = TLS_RECORD_HDR_LEN_def TLS_HANDSHAKE_HDR_LEN_def TLS_RANDOM_LEN_def

record ParsedClientHello =
  ch_legacy_version :: u16
  ch_random :: bytes
  ch_session_id :: bytes
  ch_cipher_suites :: "u16 list"
  ch_compression_methods :: bytes
  ch_extensions :: "Extension list"
  ch_extension_ids :: "u16 list"
  ch_supported_versions :: "u16 list"
  ch_supported_groups :: "u16 list"
  ch_signature_algorithms :: "u16 list"
  ch_signature_algorithms_cert :: "u16 list"
  ch_key_share_groups :: "u16 list"
  ch_sni :: "string option"
  ch_alpn :: "string list"
  ch_psk_offered :: bool
  ch_early_data_offered :: bool
  ch_psk_key_exchange_modes_offered :: bool
  ch_session_ticket_offered :: bool

record ParsedServerHello =
  sh_legacy_version :: u16
  sh_random :: bytes
  sh_session_id :: bytes
  sh_cipher_suite :: u16
  sh_compression_method :: u8
  sh_extensions :: "Extension list"
  sh_negotiated_version :: "u16 option"
  sh_key_share_group :: "u16 option"
  sh_psk_selected :: bool

section \<open>The client hello\<close>

function cipher_loop :: "bytes \<Rightarrow> nat \<Rightarrow> nat \<Rightarrow> u16 list \<Rightarrow> (ParseError, u16 list) run" where
  "cipher_loop p cipher_end offset acc =
     (if offset + 2 \<le> cipher_end
      then rbind (rd16 p offset) (\<lambda>v. cipher_loop p cipher_end (offset + 2) (acc @ [v]))
      else Ret acc)"
  by pat_completeness auto
termination
  by (relation "measure (\<lambda>(_, e, offset, _). e - offset)") auto

function ids_loop :: "bytes \<Rightarrow> nat \<Rightarrow> nat \<Rightarrow> u16 list \<Rightarrow> (ParseError, u16 list) run" where
  "ids_loop p ext_end ext_offset acc =
     (if ext_offset + 4 \<le> ext_end
      then rbind (rd16 p ext_offset) (\<lambda>ty.
           rbind (rd16 p (ext_offset + 2)) (\<lambda>ext_data_len.
             ids_loop p ext_end (ext_offset + (4 + unat ext_data_len)) (acc @ [ty])))
      else Ret acc)"
  by pat_completeness auto
termination
  by (relation "measure (\<lambda>(_, e, offset, _). e - offset)") auto

declare cipher_loop.simps [simp del] ids_loop.simps [simp del]

definition client_ext_step ::
  "Extension \<Rightarrow> ParsedClientHello \<Rightarrow> (ParseError, ParsedClientHello) run" where
  "client_ext_step ext h =
     (case ext_type ext of
        SupportedVersions \<Rightarrow>
          run_map (\<lambda>v. h\<lparr>ch_supported_versions := v\<rparr>) (extract_supported_versions ext True)
      | SupportedGroups \<Rightarrow>
          run_map (\<lambda>v. h\<lparr>ch_supported_groups := v\<rparr>) (extract_supported_groups ext)
      | SignatureAlgorithms \<Rightarrow>
          run_map (\<lambda>v. h\<lparr>ch_signature_algorithms := v\<rparr>) (extract_signature_algorithms ext)
      | SignatureAlgorithmsCert \<Rightarrow>
          run_map (\<lambda>v. h\<lparr>ch_signature_algorithms_cert := v\<rparr>) (extract_signature_algorithms_cert ext)
      | KeyShare \<Rightarrow>
          run_map (\<lambda>v. h\<lparr>ch_key_share_groups := v\<rparr>) (extract_key_share_groups ext True)
      | ServerName \<Rightarrow> run_map (\<lambda>v. h\<lparr>ch_sni := v\<rparr>) (extract_sni ext)
      | PreSharedKey \<Rightarrow> Ret (h\<lparr>ch_psk_offered := has_pre_shared_key ext\<rparr>)
      | EarlyData \<Rightarrow> Ret (h\<lparr>ch_early_data_offered := has_early_data ext\<rparr>)
      | PskKeyExchangeModes \<Rightarrow>
          Ret (h\<lparr>ch_psk_key_exchange_modes_offered := has_psk_key_exchange_modes ext\<rparr>)
      | SessionTicket \<Rightarrow> Ret (h\<lparr>ch_session_ticket_offered := has_session_ticket ext\<rparr>)
      | ApplicationLayerProtocolNegotiation \<Rightarrow> run_map (\<lambda>v. h\<lparr>ch_alpn := v\<rparr>) (extract_alpn ext)
      | ExtUnknown _ \<Rightarrow> Ret h)"

primrec client_exts_loop ::
  "Extension list \<Rightarrow> ParsedClientHello \<Rightarrow> (ParseError, ParsedClientHello) run" where
  "client_exts_loop [] h = Ret h"
| "client_exts_loop (e # es) h = rbind (client_ext_step e h) (client_exts_loop es)"

definition client_base :: "u16 \<Rightarrow> bytes \<Rightarrow> bytes \<Rightarrow> u16 list \<Rightarrow> bytes \<Rightarrow> ParsedClientHello" where
  "client_base legacy_version random session_id cipher_suites compression_methods =
     \<lparr>ch_legacy_version = legacy_version, ch_random = random, ch_session_id = session_id,
      ch_cipher_suites = cipher_suites, ch_compression_methods = compression_methods,
      ch_extensions = [], ch_extension_ids = [], ch_supported_versions = [],
      ch_supported_groups = [], ch_signature_algorithms = [], ch_signature_algorithms_cert = [],
      ch_key_share_groups = [], ch_sni = None, ch_alpn = [], ch_psk_offered = False,
      ch_early_data_offered = False, ch_psk_key_exchange_modes_offered = False,
      ch_session_ticket_offered = False\<rparr>"

definition client_extensions ::
  "bytes \<Rightarrow> nat \<Rightarrow> ParsedClientHello \<Rightarrow> (ParseError, ParsedClientHello) run" where
  "client_extensions p offset h =
     (if offset + 2 \<le> length p then
        rbind (rd16 p offset) (\<lambda>l.
          let ext_len = unat l; offset = offset + 2;
              available = length p - offset; parse_len = min available ext_len
          in if parse_len > 0 then
               rbind (ids_loop p (offset + parse_len) offset []) (\<lambda>extension_ids.
               rbind (subslice p offset (offset + parse_len)) (\<lambda>d.
               rbind (parse_extensions d) (\<lambda>extensions.
                 client_exts_loop extensions
                   (h\<lparr>ch_extension_ids := extension_ids, ch_extensions := extensions\<rparr>))))
             else Ret h)
      else Ret h)"

definition parse_client_hello :: "bytes \<Rightarrow> (ParseError, ParsedClientHello) run" where
  "parse_client_hello p =
     (let hello_start = TLS_RECORD_HDR_LEN + TLS_HANDSHAKE_HDR_LEN in
      if length p < hello_start + 2 + TLS_RANDOM_LEN + 1 then Fail TooShort
      else
        let offset = hello_start in
        rbind (rd16 p offset) (\<lambda>legacy_version.
        let offset = offset + 2 in
        rbind (subslice p offset (offset + TLS_RANDOM_LEN)) (\<lambda>random.
        let offset = offset + TLS_RANDOM_LEN in
        rbind (idx p offset) (\<lambda>b.
        let session_id_len = unat b; offset = offset + 1 in
        if offset + session_id_len > length p then Fail (UnexpectedEnd offset)
        else
        rbind (subslice p offset (offset + session_id_len)) (\<lambda>session_id.
        let offset = offset + session_id_len in
        if offset + 2 > length p then Fail (UnexpectedEnd offset)
        else
        rbind (rd16 p offset) (\<lambda>cl.
        let cipher_len = unat cl; offset = offset + 2 in
        if offset + cipher_len > length p then Fail (UnexpectedEnd offset)
        else
        let cipher_end = offset + cipher_len in
        rbind (cipher_loop p cipher_end offset []) (\<lambda>cipher_suites.
        let offset = cipher_end in
        if offset \<ge> length p then Fail (UnexpectedEnd offset)
        else
        rbind (idx p offset) (\<lambda>b.
        let comp_len = unat b; offset = offset + 1 in
        if offset + comp_len > length p then Fail (UnexpectedEnd offset)
        else
        rbind (subslice p offset (offset + comp_len)) (\<lambda>compression_methods.
        let offset = offset + comp_len in
        client_extensions p offset
          (client_base legacy_version random session_id cipher_suites compression_methods))))))))))"

section \<open>The server hello\<close>

definition server_ext_step ::
  "Extension \<Rightarrow> ParsedServerHello \<Rightarrow> (ParseError, ParsedServerHello) run" where
  "server_ext_step ext h =
     (case ext_type ext of
        SupportedVersions \<Rightarrow>
          run_map (\<lambda>vs. h\<lparr>sh_negotiated_version := (case vs of [] \<Rightarrow> None | v # _ \<Rightarrow> Some v)\<rparr>)
            (extract_supported_versions ext False)
      | KeyShare \<Rightarrow>
          run_map (\<lambda>gs. h\<lparr>sh_key_share_group := (case gs of [] \<Rightarrow> None | g # _ \<Rightarrow> Some g)\<rparr>)
            (extract_key_share_groups ext False)
      | PreSharedKey \<Rightarrow> Ret (h\<lparr>sh_psk_selected := is_psk_selected ext\<rparr>)
      | _ \<Rightarrow> Ret h)"

primrec server_exts_loop ::
  "Extension list \<Rightarrow> ParsedServerHello \<Rightarrow> (ParseError, ParsedServerHello) run" where
  "server_exts_loop [] h = Ret h"
| "server_exts_loop (e # es) h = rbind (server_ext_step e h) (server_exts_loop es)"

definition server_base :: "u16 \<Rightarrow> bytes \<Rightarrow> bytes \<Rightarrow> u16 \<Rightarrow> u8 \<Rightarrow> ParsedServerHello" where
  "server_base legacy_version random session_id cipher_suite compression_method =
     \<lparr>sh_legacy_version = legacy_version, sh_random = random, sh_session_id = session_id,
      sh_cipher_suite = cipher_suite, sh_compression_method = compression_method,
      sh_extensions = [], sh_negotiated_version = None, sh_key_share_group = None,
      sh_psk_selected = False\<rparr>"

definition server_extensions ::
  "bytes \<Rightarrow> nat \<Rightarrow> ParsedServerHello \<Rightarrow> (ParseError, ParsedServerHello) run" where
  "server_extensions p offset h =
     (if offset + 2 \<le> length p then
        rbind (rd16 p offset) (\<lambda>l.
          let ext_len = unat l; offset = offset + 2;
              available = length p - offset; parse_len = min available ext_len
          in if parse_len > 0 then
               rbind (subslice p offset (offset + parse_len)) (\<lambda>d.
               rbind (parse_extensions d) (\<lambda>extensions.
                 server_exts_loop extensions (h\<lparr>sh_extensions := extensions\<rparr>)))
             else Ret h)
      else Ret h)"

definition parse_server_hello :: "bytes \<Rightarrow> (ParseError, ParsedServerHello) run" where
  "parse_server_hello p =
     (let hello_start = TLS_RECORD_HDR_LEN + TLS_HANDSHAKE_HDR_LEN in
      if length p < hello_start + 2 + TLS_RANDOM_LEN + 1 then Fail TooShort
      else
        let offset = hello_start in
        rbind (rd16 p offset) (\<lambda>legacy_version.
        let offset = offset + 2 in
        rbind (subslice p offset (offset + TLS_RANDOM_LEN)) (\<lambda>random.
        let offset = offset + TLS_RANDOM_LEN in
        rbind (idx p offset) (\<lambda>b.
        let session_id_len = unat b; offset = offset + 1 in
        if offset + session_id_len > length p then Fail (UnexpectedEnd offset)
        else
        rbind (subslice p offset (offset + session_id_len)) (\<lambda>session_id.
        let offset = offset + session_id_len in
        if offset + 2 > length p then Fail (UnexpectedEnd offset)
        else
        rbind (rd16 p offset) (\<lambda>cipher_suite.
        let offset = offset + 2 in
        if offset \<ge> length p then Fail (UnexpectedEnd offset)
        else
        rbind (idx p offset) (\<lambda>compression_method.
        let offset = offset + 1 in
        server_extensions p offset
          (server_base legacy_version random session_id cipher_suite compression_method))))))))"

section \<open>Dispatch and accessors\<close>

datatype TlsAnalysis =
    ClientHelloA u16 ParsedClientHello
  | ServerHelloA u16 ParsedServerHello

definition parse_tls_payload :: "bytes \<Rightarrow> bool \<Rightarrow> (ParseError, TlsAnalysis) run" where
  "parse_tls_payload p is_ch =
     (if length p < TLS_RECORD_HDR_LEN + TLS_HANDSHAKE_HDR_LEN then Fail TooShort
      else
        rbind (rd16 p 1) (\<lambda>record_version.
          if is_ch
          then rbind (parse_client_hello p) (\<lambda>hello. Ret (ClientHelloA record_version hello))
          else rbind (parse_server_hello p) (\<lambda>hello. Ret (ServerHelloA record_version hello))))"

primrec effective_version :: "TlsAnalysis \<Rightarrow> u16" where
  "effective_version (ClientHelloA _ h) =
     (case ch_supported_versions h of [] \<Rightarrow> ch_legacy_version h | v # _ \<Rightarrow> v)"
| "effective_version (ServerHelloA _ h) =
     (case sh_negotiated_version h of None \<Rightarrow> sh_legacy_version h | Some v \<Rightarrow> v)"

primrec cipher_suites :: "TlsAnalysis \<Rightarrow> u16 list" where
  "cipher_suites (ClientHelloA _ h) = ch_cipher_suites h"
| "cipher_suites (ServerHelloA _ h) = [sh_cipher_suite h]"

primrec key_exchange_groups :: "TlsAnalysis \<Rightarrow> u16 list" where
  "key_exchange_groups (ClientHelloA _ h) = ch_supported_groups h"
| "key_exchange_groups (ServerHelloA _ h) =
     (case sh_key_share_group h of None \<Rightarrow> [] | Some g \<Rightarrow> [g])"

primrec signature_algorithms :: "TlsAnalysis \<Rightarrow> u16 list" where
  "signature_algorithms (ClientHelloA _ h) = ch_signature_algorithms h"
| "signature_algorithms (ServerHelloA _ _) = []"

primrec analysis_sni :: "TlsAnalysis \<Rightarrow> string option" where
  "analysis_sni (ClientHelloA _ h) = ch_sni h"
| "analysis_sni (ServerHelloA _ _) = None"

primrec analysis_is_client_hello :: "TlsAnalysis \<Rightarrow> bool" where
  "analysis_is_client_hello (ClientHelloA _ _) = True"
| "analysis_is_client_hello (ServerHelloA _ _) = False"

section \<open>The loops over a range of the payload\<close>

fun u16s_of :: "bytes \<Rightarrow> u16 list" where
  "u16s_of (a # b # r) = be16 a b # u16s_of r"
| "u16s_of _ = []"

lemma u16s_of_short: "length d < 2 \<Longrightarrow> u16s_of d = []"
  by (cases d rule: u16s_of.cases) auto

lemma u16s_of_enc: "u16s_of (enc_u16s vs) = vs"
  by (induction vs) (simp_all add: enc_u16s_def be16_bytes_def be16_of_bytes)

lemma cipher_loop_eq:
  "e \<le> length p \<Longrightarrow>
     cipher_loop p e offset acc = Ret (acc @ u16s_of (take (e - offset) (drop offset p)))"
proof (induction p e offset acc rule: cipher_loop.induct)
  case (1 p e offset acc)
  show ?case
  proof (cases "offset + 2 \<le> e")
    case True
    then obtain n where n: "e = offset + 2 + n"
      using le_Suc_ex by blast
    have "take (e - offset) (drop offset p) = p ! offset # p ! (offset + 1) # take n (drop (offset + 2) p)"
      using True "1.prems" drop_unfold2 [of offset p] by (simp add: n)
    with True 1 n show ?thesis
      by (simp add: cipher_loop.simps [of p _ offset] rd16_in)
  next
    case False
    then show ?thesis
      by (simp add: cipher_loop.simps [of p e offset] u16s_of_short)
  qed
qed

lemma ids_loop_eq:
  "e \<le> length p \<Longrightarrow>
     ids_loop p e offset acc = Ret (acc @ ids_of (take (e - offset) (drop offset p)))"
proof (induction p e offset acc rule: ids_loop.induct)
  case (1 p e offset acc)
  define r where "r = drop offset p"
  define len where "len = unat (be16 (r ! 2) (r ! 3))"
  have lr: "length r = length p - offset"
    by (simp add: r_def)
  show ?case
  proof (cases "offset + 4 \<le> e")
    case True
    let ?g = "be16 (r ! 0) (r ! 1)"
    have "ids_loop p e offset acc = ids_loop p e (offset + (4 + len)) (acc @ [?g])"
      using True "1.prems" by (subst ids_loop.simps)
        (simp add: rd16_rest [OF r_def] rd16_rest2 [OF r_def] len_def)
    also have "\<dots> = Ret ((acc @ [?g]) @
        ids_of (take (e - (offset + (4 + len))) (drop (offset + (4 + len)) p)))"
      unfolding len_def using "1.IH" True "1.prems" by blast
    also have "drop (offset + (4 + len)) p = drop (4 + len) r"
      by (rule drop_rest [OF r_def])
    also have "take (e - (offset + (4 + len))) (drop (4 + len) r) =
        drop (4 + len) (take (e - offset) r)"
      by (simp add: drop_take)
    also have "(acc @ [?g]) @ ids_of (drop (4 + len) (take (e - offset) r)) =
        acc @ ids_of (take (e - offset) r)"
      using True "1.prems" lr by (subst (2) ids_of.simps) (simp add: len_def)
    finally show ?thesis
      by (simp add: r_def)
  next
    case False
    then show ?thesis
      by (simp add: ids_loop.simps [of p e offset] ids_of_short)
  qed
qed

section \<open>What the extension loop computes\<close>

text \<open>
  Each field comes from the last extension of its type; \<open>last_body\<close> is that extension's data.
\<close>

definition last_body :: "ExtensionType \<Rightarrow> Extension list \<Rightarrow> bytes option" where
  "last_body ty es = map_option ext_data (find (\<lambda>e. ext_type e = ty) (rev es))"

definition offered :: "ExtensionType \<Rightarrow> Extension list \<Rightarrow> bool" where
  "offered ty es = (ty \<in> ext_type ` set es)"

definition upd :: "'a \<Rightarrow> (bytes \<Rightarrow> 'a) \<Rightarrow> bytes option \<Rightarrow> 'a" where
  "upd x f b = (case b of None \<Rightarrow> x | Some d \<Rightarrow> f d)"

lemma upd_simps [simp]: "upd x f None = x" "upd x f (Some d) = f d"
  by (simp_all add: upd_def)

lemma last_body_Nil [simp]: "last_body ty [] = None"
  by (simp add: last_body_def)

lemma last_body_snoc [simp]:
  "last_body ty (es @ [e]) = (if ext_type e = ty then Some (ext_data e) else last_body ty es)"
  by (simp add: last_body_def)

lemma offered_Nil [simp]: "\<not> offered ty []"
  by (simp add: offered_def)

lemma offered_snoc [simp]: "offered ty (es @ [e]) \<longleftrightarrow> ext_type e = ty \<or> offered ty es"
  by (auto simp: offered_def)

definition client_fields :: "Extension list \<Rightarrow> ParsedClientHello \<Rightarrow> ParsedClientHello" where
  "client_fields es h =
     h\<lparr>ch_supported_versions := upd (ch_supported_versions h) list8_of (last_body SupportedVersions es),
       ch_supported_groups := upd (ch_supported_groups h) list16_of (last_body SupportedGroups es),
       ch_signature_algorithms :=
         upd (ch_signature_algorithms h) list16_of (last_body SignatureAlgorithms es),
       ch_signature_algorithms_cert :=
         upd (ch_signature_algorithms_cert h) list16_of (last_body SignatureAlgorithmsCert es),
       ch_key_share_groups := upd (ch_key_share_groups h) shares_of (last_body KeyShare es),
       ch_sni := upd (ch_sni h) sni_of (last_body ServerName es),
       ch_alpn := upd (ch_alpn h) alpn_of (last_body ApplicationLayerProtocolNegotiation es),
       ch_psk_offered := ch_psk_offered h \<or> offered PreSharedKey es,
       ch_early_data_offered := ch_early_data_offered h \<or> offered EarlyData es,
       ch_psk_key_exchange_modes_offered :=
         ch_psk_key_exchange_modes_offered h \<or> offered PskKeyExchangeModes es,
       ch_session_ticket_offered := ch_session_ticket_offered h \<or> offered SessionTicket es\<rparr>"

definition server_fields :: "Extension list \<Rightarrow> ParsedServerHello \<Rightarrow> ParsedServerHello" where
  "server_fields es h =
     h\<lparr>sh_negotiated_version := upd (sh_negotiated_version h)
         (\<lambda>d. if length d < 2 then None else Some (be16 (d ! 0) (d ! 1))) (last_body SupportedVersions es),
       sh_key_share_group := upd (sh_key_share_group h)
         (\<lambda>d. if length d < 2 then None else Some (be16 (d ! 0) (d ! 1))) (last_body KeyShare es),
       sh_psk_selected := upd (sh_psk_selected h) (\<lambda>d. d \<noteq> []) (last_body PreSharedKey es)\<rparr>"

lemma client_exts_loop_append:
  "client_exts_loop (es @ fs) h = rbind (client_exts_loop es h) (client_exts_loop fs)"
  by (induction es arbitrary: h) (auto simp: rbind_assoc intro!: rbind_cong_fun)

lemma server_exts_loop_append:
  "server_exts_loop (es @ fs) h = rbind (server_exts_loop es h) (server_exts_loop fs)"
  by (induction es arbitrary: h) (auto simp: rbind_assoc intro!: rbind_cong_fun)

lemma client_exts_loop_eq: "client_exts_loop es h = Ret (client_fields es h)"
proof (induction es rule: rev_induct)
  case Nil
  then show ?case
    by (simp add: client_fields_def)
next
  case (snoc e es)
  then show ?case
    by (cases "ext_type e")
      (simp_all add: client_exts_loop_append client_ext_step_def extract_eqs client_fields_def
        has_pre_shared_key_def has_early_data_def has_psk_key_exchange_modes_def
        has_session_ticket_def)
qed

lemma server_exts_loop_eq: "server_exts_loop es h = Ret (server_fields es h)"
proof (induction es rule: rev_induct)
  case Nil
  then show ?case
    by (simp add: server_fields_def)
next
  case (snoc e es)
  then show ?case
    by (cases "ext_type e")
      (simp_all add: server_exts_loop_append server_ext_step_def extract_eqs server_fields_def
        is_psk_selected_def first16_of_def)
qed

definition ext_block :: "bytes \<Rightarrow> bytes" where
  "ext_block r = (if length r < 2 then [] else take (unat (be16 (r ! 0) (r ! 1))) (drop 2 r))"

definition client_finish :: "bytes \<Rightarrow> ParsedClientHello \<Rightarrow> ParsedClientHello" where
  "client_finish d h =
     client_fields (exts_of d) (h\<lparr>ch_extension_ids := ids_of d, ch_extensions := exts_of d\<rparr>)"

definition server_finish :: "bytes \<Rightarrow> ParsedServerHello \<Rightarrow> ParsedServerHello" where
  "server_finish d h = server_fields (exts_of d) (h\<lparr>sh_extensions := exts_of d\<rparr>)"

lemma client_extensions_eq:
  assumes "ch_extensions h = []" "ch_extension_ids h = []"
  shows "client_extensions p offset h = Ret (client_finish (ext_block (drop offset p)) h)"
proof -
  have empty: "client_finish [] h = h"
    using assms by (simp add: client_finish_def client_fields_def exts_of_short ids_of_short)
  have mins: "take (min (length p - Suc (Suc offset)) n) (drop (Suc (Suc offset)) p) =
      take n (drop (Suc (Suc offset)) p)" for n
    by (simp add: min_def)
  show ?thesis
    by (auto simp: client_extensions_def Let_def rd16_in ids_loop_eq subslice_in mins
        parse_extensions_eq client_exts_loop_eq client_finish_def [symmetric] ext_block_def empty
        le_diff_conv2 not_le min_def)
qed

lemma server_extensions_eq:
  assumes "sh_extensions h = []"
  shows "server_extensions p offset h = Ret (server_finish (ext_block (drop offset p)) h)"
proof -
  have empty: "server_finish [] h = h"
    using assms by (simp add: server_finish_def server_fields_def exts_of_short)
  have mins: "take (min (length p - Suc (Suc offset)) n) (drop (Suc (Suc offset)) p) =
      take n (drop (Suc (Suc offset)) p)" for n
    by (simp add: min_def)
  show ?thesis
    by (auto simp: server_extensions_def Let_def rd16_in subslice_in mins
        parse_extensions_eq server_exts_loop_eq server_finish_def [symmetric] ext_block_def empty
        le_diff_conv2 not_le min_def)
qed

section \<open>The parsers without offsets into the control flow\<close>

definition sid_at :: "bytes \<Rightarrow> nat" where "sid_at p = unat (p ! 43)"

definition client_ciphers_at :: "bytes \<Rightarrow> nat" where "client_ciphers_at p = 44 + sid_at p + 2"

definition client_ciphers_len :: "bytes \<Rightarrow> nat" where
  "client_ciphers_len p = unat (be16 (p ! (44 + sid_at p)) (p ! (44 + sid_at p + 1)))"

definition client_comp_at :: "bytes \<Rightarrow> nat" where
  "client_comp_at p = client_ciphers_at p + client_ciphers_len p"

definition client_ext_at :: "bytes \<Rightarrow> nat" where
  "client_ext_at p = client_comp_at p + 1 + unat (p ! client_comp_at p)"

definition client_head :: "bytes \<Rightarrow> ParsedClientHello" where
  "client_head p =
     client_base (be16 (p ! 9) (p ! 10)) (take 32 (drop 11 p)) (take (sid_at p) (drop 44 p))
       (u16s_of (take (client_ciphers_len p) (drop (client_ciphers_at p) p)))
       (take (unat (p ! client_comp_at p)) (drop (client_comp_at p + 1) p))"

definition server_head :: "bytes \<Rightarrow> ParsedServerHello" where
  "server_head p =
     server_base (be16 (p ! 9) (p ! 10)) (take 32 (drop 11 p)) (take (sid_at p) (drop 44 p))
       (be16 (p ! (44 + sid_at p)) (p ! (44 + sid_at p + 1))) (p ! (44 + sid_at p + 2))"

lemma parse_client_hello_eq:
  "parse_client_hello p =
     (if length p < 44 then Fail TooShort
      else if length p < 44 + sid_at p then Fail (UnexpectedEnd 44)
      else if length p < client_ciphers_at p then Fail (UnexpectedEnd (44 + sid_at p))
      else if length p < client_comp_at p then Fail (UnexpectedEnd (client_ciphers_at p))
      else if length p < client_comp_at p + 1 then Fail (UnexpectedEnd (client_comp_at p))
      else if length p < client_ext_at p then Fail (UnexpectedEnd (client_comp_at p + 1))
      else Ret (client_finish (ext_block (drop (client_ext_at p) p)) (client_head p)))"
  by (simp add: parse_client_hello_def hello_lens Let_def rd16_in idx_in subslice_in
      sid_at_def client_ciphers_at_def client_ciphers_len_def client_comp_at_def client_ext_at_def
      client_head_def cipher_loop_eq client_extensions_eq client_base_def)

lemma parse_server_hello_eq:
  "parse_server_hello p =
     (if length p < 44 then Fail TooShort
      else if length p < 44 + sid_at p then Fail (UnexpectedEnd 44)
      else if length p < 44 + sid_at p + 2 then Fail (UnexpectedEnd (44 + sid_at p))
      else if length p < 44 + sid_at p + 3 then Fail (UnexpectedEnd (44 + sid_at p + 2))
      else Ret (server_finish (ext_block (drop (44 + sid_at p + 3) p)) (server_head p)))"
  by (simp add: parse_server_hello_def hello_lens Let_def rd16_in idx_in subslice_in
      sid_at_def server_head_def server_extensions_eq server_base_def)

section \<open>No payload makes the parser panic\<close>

lemma parse_client_hello_no_Panic: "parse_client_hello p \<noteq> Panic"
  by (simp add: parse_client_hello_eq)

lemma parse_server_hello_no_Panic: "parse_server_hello p \<noteq> Panic"
  by (simp add: parse_server_hello_eq)

lemma parse_payload_not_Panic: "parse_tls_payload p is_ch \<noteq> Panic"
  by (simp add: parse_tls_payload_def hello_lens rd16_in rbind_eq_Panic
      parse_client_hello_no_Panic parse_server_hello_no_Panic)

text \<open>C12: for every payload and either direction the hello parser returns an analysis or a
  parse error; it never indexes or slices out of bounds, so captured bytes cannot crash the
  probe.\<close>

theorem parse_tls_payload_no_panic: "parse_tls_payload p is_ch \<noteq> Panic"
  by (rule parse_payload_not_Panic)

text \<open>The client hello parser reports \<open>TooShort\<close> exactly for payloads shorter than the
  44 bytes up to the session id length; every other failure is \<open>UnexpectedEnd\<close> at an offset
  inside the payload.\<close>

theorem client_hello_errors:
  "(parse_client_hello p = Fail TooShort \<longleftrightarrow> length p < 44) \<and>
   (\<forall>e. parse_client_hello p = Fail e \<longrightarrow>
      e = TooShort \<or> (\<exists>off. e = UnexpectedEnd off \<and> 44 \<le> off \<and> off \<le> length p))"
  by (auto simp: parse_client_hello_eq client_ciphers_at_def client_comp_at_def split: if_splits)

lemma client_hello_errors_witness:
  "\<exists>off. parse_client_hello (replicate 43 0 @ [1]) = Fail (UnexpectedEnd off) \<and> off = 44"
proof -
  have "length (replicate 43 (0 :: u8) @ [1]) = 44"
    by simp
  moreover have "sid_at (replicate 43 0 @ [1]) = 1"
    by (simp add: sid_at_def nth_append)
  ultimately have fail: "parse_client_hello (replicate 43 0 @ [1]) = Fail (UnexpectedEnd 44)"
    by (simp add: parse_client_hello_eq)
  then show ?thesis
    using client_hello_errors [of "replicate 43 0 @ [1]"] by auto
qed

section \<open>Truncated and extended payloads\<close>

lemma exts_of_mono:
  "prefix a b \<Longrightarrow> prefix (exts_of a) (exts_of b)"
  using exts_of_take_prefix [of "length a" b] by (auto elim!: prefixE)

lemma ext_block_mono: "prefix (ext_block r) (ext_block (r @ s))"
proof (cases "length r < 2")
  case False
  then have "drop 2 (r @ s) = drop 2 r @ s" "(r @ s) ! 0 = r ! 0" "(r @ s) ! 1 = r ! 1"
    by (auto simp: nth_append)
  with False show ?thesis
    by (simp add: ext_block_def)
qed (simp add: ext_block_def)

text \<open>A client hello that parses still parses when the payload goes on: the captured
  prefix of a longer record gives the same version, random, session id, cipher suites and
  compression methods, and its extensions are a prefix of the full hello's extensions.\<close>

theorem client_hello_truncation:
  assumes "parse_client_hello p = Ret h"
  shows "\<exists>h'. parse_client_hello (p @ s) = Ret h' \<and>
    ch_legacy_version h' = ch_legacy_version h \<and> ch_random h' = ch_random h \<and>
    ch_session_id h' = ch_session_id h \<and> ch_cipher_suites h' = ch_cipher_suites h \<and>
    ch_compression_methods h' = ch_compression_methods h \<and>
    prefix (ch_extensions h) (ch_extensions h')"
proof -
  let ?q = "p @ s"
  have ok: "44 \<le> length p" "44 + sid_at p \<le> length p" "client_ciphers_at p \<le> length p"
    "client_comp_at p \<le> length p" "client_comp_at p + 1 \<le> length p" "client_ext_at p \<le> length p"
    and h: "h = client_finish (ext_block (drop (client_ext_at p) p)) (client_head p)"
    using assms by (simp_all add: parse_client_hello_eq split: if_splits)
  have sid: "sid_at ?q = sid_at p"
    using ok by (simp add: sid_at_def nth_append)
  have ca: "client_ciphers_at ?q = client_ciphers_at p"
    by (simp add: client_ciphers_at_def sid)
  have cl: "client_ciphers_len ?q = client_ciphers_len p"
    using ok by (simp add: client_ciphers_len_def client_ciphers_at_def sid nth_append)
  have co: "client_comp_at ?q = client_comp_at p"
    by (simp add: client_comp_at_def ca cl)
  have ea: "client_ext_at ?q = client_ext_at p"
    using ok by (simp add: client_ext_at_def co nth_append)
  have head: "client_head ?q = client_head p"
    using ok unfolding client_head_def
    by (simp add: sid ca cl co nth_append client_comp_at_def [of p] client_ext_at_def [of p])
  have "parse_client_hello ?q =
      Ret (client_finish (ext_block (drop (client_ext_at p) p @ s)) (client_head p))"
    using ok by (simp add: parse_client_hello_eq sid ca co ea head)
  moreover have "prefix (exts_of (ext_block (drop (client_ext_at p) p)))
      (exts_of (ext_block (drop (client_ext_at p) p @ s)))"
    by (intro exts_of_mono ext_block_mono)
  ultimately show ?thesis
    by (simp add: h client_finish_def client_fields_def)
qed

section \<open>Round trips\<close>

definition enc_client_hello ::
  "bytes \<Rightarrow> u16 \<Rightarrow> bytes \<Rightarrow> bytes \<Rightarrow> u16 list \<Rightarrow> bytes \<Rightarrow> (u16 \<times> bytes) list \<Rightarrow> bytes" where
  "enc_client_hello hdr lv random sid cs cm xs =
     hdr @ be16_bytes lv @ random @ of_nat (length sid) # sid @
     be16_bytes (of_nat (2 * length cs)) @ enc_u16s cs @
     of_nat (length cm) # cm @ be16_bytes (of_nat (length (enc_exts xs))) @ enc_exts xs"

definition enc_server_hello ::
  "bytes \<Rightarrow> u16 \<Rightarrow> bytes \<Rightarrow> bytes \<Rightarrow> u16 \<Rightarrow> u8 \<Rightarrow> (u16 \<times> bytes) list \<Rightarrow> bytes" where
  "enc_server_hello hdr lv random sid c cm xs =
     hdr @ be16_bytes lv @ random @ of_nat (length sid) # sid @
     be16_bytes c @ cm # be16_bytes (of_nat (length (enc_exts xs))) @ enc_exts xs"

definition hello_sizes :: "bytes \<Rightarrow> bytes \<Rightarrow> bytes \<Rightarrow> (u16 \<times> bytes) list \<Rightarrow> bool" where
  "hello_sizes hdr random sid xs =
     (length hdr = 9 \<and> length random = 32 \<and> length sid < 256 \<and>
      exts_fit xs \<and> length (enc_exts xs) < 65536)"

lemma ext_block_enc:
  "length d < 65536 \<Longrightarrow> ext_block (be16_bytes (of_nat (length d)) @ d @ rest) = d"
  using be16_bytes_reads(1) [of "of_nat (length d)" "d @ rest"]
  by (simp add: ext_block_def be16_bytes_reads(2) unat_of_nat16)

lemma be16_bytes_nths:
  "be16 (be16_bytes w ! 0) (be16_bytes w ! Suc 0) = w"
  by (simp add: be16_bytes_def be16_of_bytes)

lemma enc_client_hello_parts:
  fixes lv :: u16
  assumes "hello_sizes hdr random sid xs" "2 * length cs < 65536" "length cm < 256"
  defines "p \<equiv> enc_client_hello hdr lv random sid cs cm xs"
  shows "sid_at p = length sid"
    and "client_ciphers_at p = 46 + length sid"
    and "client_ciphers_len p = 2 * length cs"
    and "client_comp_at p = 46 + length sid + 2 * length cs"
    and "client_ext_at p = 47 + length sid + 2 * length cs + length cm"
    and "client_head p = client_base lv random sid cs cm"
    and "drop (client_ext_at p) p = be16_bytes (of_nat (length (enc_exts xs))) @ enc_exts xs"
    and "client_ext_at p \<le> length p"
proof -
  have len: "length hdr = 9" "length random = 32" "length sid < 256"
    using assms by (simp_all add: hello_sizes_def)
  show sid: "sid_at p = length sid"
    using len by (simp add: p_def enc_client_hello_def sid_at_def nth_append nth_Cons' unat_of_nat8)
  show ca: "client_ciphers_at p = 46 + length sid"
    by (simp add: client_ciphers_at_def sid)
  show cl: "client_ciphers_len p = 2 * length cs"
  proof -
    have "drop (44 + length sid) p = be16_bytes (of_nat (2 * length cs)) @ enc_u16s cs @
        of_nat (length cm) # cm @ be16_bytes (of_nat (length (enc_exts xs))) @ enc_exts xs"
      using len by (simp add: p_def enc_client_hello_def drop_Cons')
    from be16_eat [OF this] show ?thesis
      using assms(2) unat_of_nat16 [of "2 * length cs"] by (simp add: client_ciphers_len_def sid)
  qed
  show co: "client_comp_at p = 46 + length sid + 2 * length cs"
    by (simp add: client_comp_at_def ca cl)
  have cmn: "p ! client_comp_at p = of_nat (length cm)"
    using len unfolding co by (simp add: p_def enc_client_hello_def nth_append nth_Cons')
  show ea: "client_ext_at p = 47 + length sid + 2 * length cs + length cm"
    using assms(3) by (simp add: client_ext_at_def cmn [unfolded co] co unat_of_nat8)
  have "be16 (p ! 9) (p ! 10) = lv"
    using len by (simp add: p_def enc_client_hello_def nth_append nth_Cons' be16_bytes_nths)
  moreover have "take 32 (drop 11 p) = random" "take (length sid) (drop 44 p) = sid"
    "take (2 * length cs) (drop (46 + length sid) p) = enc_u16s cs"
    "take (length cm) (drop (47 + (length sid + 2 * length cs)) p) = cm"
    using len by (simp_all add: p_def enc_client_hello_def drop_Cons')
  ultimately show "client_head p = client_base lv random sid cs cm"
    using assms(3) by (simp add: client_head_def sid ca cl cmn [unfolded co] co unat_of_nat8 u16s_of_enc)
  show "drop (client_ext_at p) p = be16_bytes (of_nat (length (enc_exts xs))) @ enc_exts xs"
    using len unfolding ea by (simp add: p_def enc_client_hello_def drop_Cons')
  show "client_ext_at p \<le> length p"
    using len unfolding ea by (simp add: p_def enc_client_hello_def drop_Cons')
qed

lemma client_hello_parsed:
  assumes "hello_sizes hdr random sid xs" "2 * length cs < 65536" "length cm < 256"
  shows "parse_client_hello (enc_client_hello hdr lv random sid cs cm xs) =
    Ret (client_fields (map ext_of xs)
      ((client_base lv random sid cs cm)
        \<lparr>ch_extension_ids := map fst xs, ch_extensions := map ext_of xs\<rparr>))"
proof -
  let ?p = "enc_client_hello hdr lv random sid cs cm xs"
  note parts = enc_client_hello_parts [OF assms, where lv = lv]
  have "exts_fit xs" "length (enc_exts xs) < 65536"
    using assms by (simp_all add: hello_sizes_def)
  then have fin: "client_finish (ext_block (drop (client_ext_at ?p) ?p)) h =
      client_fields (map ext_of xs) (h\<lparr>ch_extension_ids := map fst xs, ch_extensions := map ext_of xs\<rparr>)" for h
    using ext_block_enc [of "enc_exts xs" "[]"]
    by (simp add: parts(7) client_finish_def exts_of_enc_exts ids_of_enc_exts)
  have "client_ext_at ?p \<le> length ?p"
    by (rule parts(8))
  then show ?thesis
    unfolding parse_client_hello_eq fin parts(6) by (simp add: parts)
qed

text \<open>C13: parsing the wire form of a client hello gives back its version, random, session id,
  cipher suites, compression methods, extension ids and extensions, and each reported field
  is decoded from the last extension of its type.\<close>

theorem client_hello_roundtrip:
  assumes "hello_sizes hdr random sid xs" "2 * length cs < 65536" "length cm < 256"
  shows "parse_client_hello (enc_client_hello hdr lv random sid cs cm xs) =
    Ret (client_fields (map ext_of xs)
      ((client_base lv random sid cs cm)
        \<lparr>ch_extension_ids := map fst xs, ch_extensions := map ext_of xs\<rparr>))"
  by (rule client_hello_parsed [OF assms])

lemma enc_server_hello_parts:
  fixes lv c :: u16 and cm :: u8
  assumes "hello_sizes hdr random sid xs"
  defines "p \<equiv> enc_server_hello hdr lv random sid c cm xs"
  shows "sid_at p = length sid"
    and "server_head p = server_base lv random sid c cm"
    and "drop (47 + length sid) p = be16_bytes (of_nat (length (enc_exts xs))) @ enc_exts xs"
    and "47 + length sid \<le> length p"
proof -
  have len: "length hdr = 9" "length random = 32" "length sid < 256"
    using assms by (simp_all add: hello_sizes_def)
  show sid: "sid_at p = length sid"
    using len by (simp add: p_def enc_server_hello_def sid_at_def nth_append nth_Cons' unat_of_nat8)
  have "be16 (p ! 9) (p ! 10) = lv" "be16 (p ! (44 + length sid)) (p ! (44 + length sid + 1)) = c"
    "p ! (44 + length sid + 2) = cm"
    using len by (simp_all add: p_def enc_server_hello_def nth_append nth_Cons' be16_bytes_nths)
  moreover have "take 32 (drop 11 p) = random" "take (length sid) (drop 44 p) = sid"
    using len by (simp_all add: p_def enc_server_hello_def drop_Cons')
  ultimately show "server_head p = server_base lv random sid c cm"
    by (simp add: server_head_def sid)
  show "drop (47 + length sid) p = be16_bytes (of_nat (length (enc_exts xs))) @ enc_exts xs"
    "47 + length sid \<le> length p"
    using len by (simp_all add: p_def enc_server_hello_def drop_Cons')
qed

lemma server_hello_parsed:
  assumes "hello_sizes hdr random sid xs"
  shows "parse_server_hello (enc_server_hello hdr lv random sid c cm xs) =
    Ret (server_fields (map ext_of xs)
      ((server_base lv random sid c cm)\<lparr>sh_extensions := map ext_of xs\<rparr>))"
proof -
  let ?p = "enc_server_hello hdr lv random sid c cm xs"
  note parts = enc_server_hello_parts [OF assms, where lv = lv and c = c and cm = cm]
  have "exts_fit xs" "length (enc_exts xs) < 65536"
    using assms by (simp_all add: hello_sizes_def)
  then have fin: "server_finish (ext_block (drop (47 + length sid) ?p)) h =
      server_fields (map ext_of xs) (h\<lparr>sh_extensions := map ext_of xs\<rparr>)" for h
    using ext_block_enc [of "enc_exts xs" "[]"]
    by (simp add: parts(3) server_finish_def exts_of_enc_exts)
  have "44 + sid_at ?p + 3 = 47 + length sid"
    by (simp add: parts(1))
  with parts(4) show ?thesis
    unfolding parse_server_hello_eq by (simp add: parts(1,2) fin)
qed

text \<open>C14: parsing the wire form of a server hello gives back its version, random, session id,
  the chosen cipher suite, the compression method and the extensions; the negotiated version
  and the key share group are decoded from the last extension of their type.\<close>

theorem server_hello_roundtrip:
  assumes "hello_sizes hdr random sid xs"
  shows "parse_server_hello (enc_server_hello hdr lv random sid c cm xs) =
    Ret (server_fields (map ext_of xs)
      ((server_base lv random sid c cm)\<lparr>sh_extensions := map ext_of xs\<rparr>))"
  by (rule server_hello_parsed [OF assms])

section \<open>The offers of a client\<close>

text \<open>A client hello as clients send it: the six list-valued extensions between others.\<close>

definition offer_exts ::
  "bytes \<Rightarrow> u16 list \<Rightarrow> u16 list \<Rightarrow> u16 list \<Rightarrow> (u16 \<times> bytes) list \<Rightarrow> bytes list \<Rightarrow> (u16 \<times> bytes) list" where
  "offer_exts host groups sigs versions shares protos =
     [(0, enc_sni host), (10, enc_list16 groups), (13, enc_list16 sigs), (43, enc_list8 versions),
      (51, enc_shares shares), (16, enc_alpn protos)]"

definition other_exts :: "(u16 \<times> bytes) list \<Rightarrow> bool" where
  "other_exts xs = (\<forall>x \<in> set xs. ext_type_from (fst x) = ExtUnknown (fst x))"

definition offers_fit ::
  "bytes \<Rightarrow> u16 list \<Rightarrow> u16 list \<Rightarrow> u16 list \<Rightarrow> (u16 \<times> bytes) list \<Rightarrow> bytes list \<Rightarrow> bool" where
  "offers_fit host groups sigs versions shares protos =
     (length host < 65533 \<and> 2 * length groups < 65536 \<and> 2 * length sigs < 65536 \<and>
      2 * length versions < 256 \<and> exts_fit shares \<and> length (enc_exts shares) < 65536 \<and>
      (\<forall>p \<in> set protos. length p < 256) \<and> length (enc_protos protos) < 65536)"

lemma last_body_append:
  "last_body ty (es @ fs) = (case last_body ty fs of None \<Rightarrow> last_body ty es | Some d \<Rightarrow> Some d)"
  by (induction fs rule: rev_induct) (simp_all flip: append_assoc)

lemma last_body_others:
  "other_exts xs \<Longrightarrow> (\<And>v. ty \<noteq> ExtUnknown v) \<Longrightarrow> last_body ty (map ext_of xs) = None"
  by (induction xs rule: rev_induct) (auto simp: other_exts_def ext_of_def)

lemma client_offers_parsed:
  assumes "hello_sizes hdr random sid xs" "2 * length cs < 65536" "length cm < 256"
    and "xs = before @ offer_exts host groups sigs (v # vs) shares protos @ after"
    and "other_exts before" "other_exts after"
    and "offers_fit host groups sigs (v # vs) shares protos"
  shows "\<exists>h. parse_client_hello (enc_client_hello hdr lv random sid cs cm xs) = Ret h \<and>
    ch_cipher_suites h = cs \<and> ch_sni h = from_utf8 host \<and> ch_supported_groups h = groups \<and>
    ch_signature_algorithms h = sigs \<and> ch_supported_versions h = v # vs \<and>
    ch_key_share_groups h = map fst shares \<and> ch_alpn h = map from_utf8_lossy protos \<and>
    effective_version (ClientHelloA rv h) = v"
proof -
  let ?es = "map ext_of (offer_exts host groups sigs (v # vs) shares protos)"
  have bodies: "last_body ty (map ext_of xs) = last_body ty ?es" if "\<And>v. ty \<noteq> ExtUnknown v" for ty
    using assms(4-6) that by (simp add: last_body_append last_body_others split: option.split)
  have es: "last_body ServerName ?es = Some (enc_sni host)"
    "last_body SupportedGroups ?es = Some (enc_list16 groups)"
    "last_body SignatureAlgorithms ?es = Some (enc_list16 sigs)"
    "last_body SupportedVersions ?es = Some (enc_list8 (v # vs))"
    "last_body KeyShare ?es = Some (enc_shares shares)"
    "last_body ApplicationLayerProtocolNegotiation ?es = Some (enc_alpn protos)"
    by (simp_all add: offer_exts_def last_body_def ext_of_def ext_type_from_def)
  have "sni_of (enc_sni host) = from_utf8 host" "list16_of (enc_list16 groups) = groups"
    "list16_of (enc_list16 sigs) = sigs" "list8_of (enc_list8 (v # vs)) = v # vs"
    "shares_of (enc_shares shares) = map fst shares"
    "alpn_of (enc_alpn protos) = map from_utf8_lossy protos"
    using assms(7) by (simp_all add: offers_fit_def enc_roundtrips del: length_Cons)
  then show ?thesis
    using client_hello_parsed [OF assms(1-3)]
    by (simp add: client_fields_def bodies es client_base_def)
qed

text \<open>For a client hello whose extensions are a server name, supported groups, signature
  algorithms, supported versions, key shares and ALPN protocols among extensions of other
  types, the parser reports exactly the offered host, lists, versions, groups and protocols,
  and the effective version is the first supported version.\<close>

theorem client_offers_reported:
  assumes "hello_sizes hdr random sid xs" "2 * length cs < 65536" "length cm < 256"
    and "xs = before @ offer_exts host groups sigs (v # vs) shares protos @ after"
    and "other_exts before" "other_exts after"
    and "offers_fit host groups sigs (v # vs) shares protos"
  shows "\<exists>h. parse_client_hello (enc_client_hello hdr lv random sid cs cm xs) = Ret h \<and>
    ch_cipher_suites h = cs \<and> ch_sni h = from_utf8 host \<and> ch_supported_groups h = groups \<and>
    ch_signature_algorithms h = sigs \<and> ch_supported_versions h = v # vs \<and>
    ch_key_share_groups h = map fst shares \<and> ch_alpn h = map from_utf8_lossy protos \<and>
    effective_version (ClientHelloA rv h) = v"
  by (rule client_offers_parsed [OF assms])

section \<open>Concrete hellos\<close>

definition sample_hello :: bytes where
  "sample_hello = enc_client_hello (replicate 9 0) 0x0303 (replicate 32 7) [] [0x1301] [0]
     ([] @ offer_exts [97] [0x11EC] [0x0804] [0x0304] [(0x11EC, [1])] [] @ [])"

lemma sample_sizes:
  "hello_sizes (replicate 9 0) (replicate 32 7) [] []"
  "hello_sizes (replicate 9 0) (replicate 32 7) []
     ([] @ offer_exts [97] [0x11EC] [0x0804] [0x0304] [(0x11EC, [1])] [] @ [])"
  by (simp_all add: hello_sizes_def exts_fit_def enc_exts_def enc_ext_def offer_exts_def enc_sni_def
      enc_list16_def enc_list8_def enc_u16s_def enc_shares_def enc_alpn_def enc_protos_def)

lemma client_hello_roundtrip_witness:
  "parse_client_hello
     (enc_client_hello (replicate 9 0) 0x0303 (replicate 32 7) [] [0x1301, 0x1302] [0] []) =
   Ret (client_base 0x0303 (replicate 32 7) [] [0x1301, 0x1302] [0])"
  using client_hello_roundtrip [OF sample_sizes(1), of "[0x1301, 0x1302]" "[0]" "0x0303"]
  by (simp add: client_fields_def client_base_def)

lemma server_hello_roundtrip_witness:
  "parse_server_hello (enc_server_hello (replicate 9 0) 0x0303 (replicate 32 7) [] 0x1301 0 []) =
   Ret (server_base 0x0303 (replicate 32 7) [] 0x1301 0)"
  using server_hello_roundtrip [OF sample_sizes(1), of "0x0303" "0x1301" 0]
  by (simp add: server_fields_def server_base_def)

lemma sample_parses:
  "\<exists>h. parse_client_hello sample_hello = Ret h \<and> ch_cipher_suites h = [0x1301]"
proof -
  have "sid_at sample_hello = 0" "client_ext_at sample_hello \<le> length sample_hello"
    "client_head sample_hello = client_base 0x0303 (replicate 32 7) [] [0x1301] [0]"
    using enc_client_hello_parts [OF sample_sizes(2), of "[0x1301]" "[0]" "0x0303"]
    by (simp_all add: sample_hello_def)
  then show ?thesis
    unfolding parse_client_hello_eq
    by (simp add: client_finish_def client_fields_def client_base_def client_ext_at_def
        client_comp_at_def client_ciphers_at_def)
qed

lemma client_hello_truncation_witness:
  "\<exists>h'. parse_client_hello (sample_hello @ [1, 2, 3]) = Ret h' \<and> ch_cipher_suites h' = [0x1301]"
proof -
  obtain h where "parse_client_hello sample_hello = Ret h" "ch_cipher_suites h = [0x1301]"
    using sample_parses by blast
  from client_hello_truncation [OF this(1), of "[1, 2, 3]"] this(2) show ?thesis
    by fastforce
qed

lemma client_offers_reported_witness:
  "\<exists>h. parse_client_hello sample_hello = Ret h \<and> ch_sni h = Some ''a'' \<and>
     ch_supported_groups h = [0x11EC] \<and> effective_version (ClientHelloA 0x0301 h) = 0x0304"
proof -
  have "offers_fit [97] [0x11EC] [0x0804] [0x0304] [(0x11EC, [1])] []"
    by (simp add: offers_fit_def exts_fit_def enc_exts_def enc_ext_def enc_protos_def)
  moreover have "from_utf8 [97] = Some ''a''"
    by code_simp
  ultimately show ?thesis
    unfolding sample_hello_def
    using client_offers_reported [OF sample_sizes(2), of "[0x1301]" "[0]" "[]" "[97]" "[0x11EC]"
        "[0x0804]" "0x0304" "[]" "[(0x11EC, [1])]" "[]" "[]" "0x0303" "0x0301"]
    by (auto simp: other_exts_def)
qed

end
