(* ===== verification/Ja4.thy ===== *)
theory Ja4
  imports Hello_Parser "HOL-Library.Multiset"
begin

text \<open>
  \<open>crates/tls-probe-cli/src/ja4.rs\<close>: the JA4 fingerprint of a ClientHello.

  SHA-256 is a library (\<open>sha2\<close>): \<open>sha256_hex\<close> is the parameter that stands for the lowercase
  hexadecimal digest of a string.  Strings are UTF-8 byte sequences, so the first and the last
  character of a protocol name are alphanumeric exactly if its first and last byte are.
\<close>

definition ja4_is_grease :: "u16 \<Rightarrow> bool" where
  "ja4_is_grease value =
     (let hi = (ucast (drop_bit 8 value) :: u8);
          lo = (ucast (value AND 0xFF) :: u8)
      in hi = lo \<and> hi AND 0x0F = 0x0A)"

fun max_opt :: "u16 list \<Rightarrow> u16 option" where
  "max_opt [] = None"
| "max_opt (v # vs) = (case max_opt vs of None \<Rightarrow> Some v | Some m \<Rightarrow> Some (max v m))"

definition ja4_version_string :: "ParsedClientHello \<Rightarrow> string" where
  "ja4_version_string hello =
     (let version =
        (if ch_supported_versions hello = [] then ch_legacy_version hello
         else (case max_opt (filter (\<lambda>v. \<not> ja4_is_grease v) (ch_supported_versions hello)) of
                 None \<Rightarrow> ch_legacy_version hello | Some v \<Rightarrow> v))
      in if version = 0x0304 then ''13''
         else if version = 0x0303 then ''12''
         else if version = 0x0302 then ''11''
         else if version = 0x0301 then ''10''
         else ''00'')"

definition sni_marker :: "ParsedClientHello \<Rightarrow> char" where
  "sni_marker hello = (if ch_sni hello \<noteq> None then CHR ''d'' else CHR ''i'')"

definition is_ascii_alphanumeric :: "char \<Rightarrow> bool" where
  "is_ascii_alphanumeric c =
     (let n = of_char c :: nat in
      48 \<le> n \<and> n \<le> 57 \<or> 65 \<le> n \<and> n \<le> 90 \<or> 97 \<le> n \<and> n \<le> 122)"

definition alpn_chars :: "ParsedClientHello \<Rightarrow> string" where
  "alpn_chars hello =
     (case ch_alpn hello of
        [] \<Rightarrow> ''00''
      | proto # _ \<Rightarrow>
          if proto = [] then ''00''
          else if \<not> is_ascii_alphanumeric (hd proto) \<or> \<not> is_ascii_alphanumeric (last proto)
          then ''99''
          else [hd proto, last proto])"

definition cipher_input :: "ParsedClientHello \<Rightarrow> string" where
  "cipher_input hello =
     join '','' (map hex4 (sort (filter (\<lambda>c. \<not> ja4_is_grease c) (ch_cipher_suites hello))))"

definition cipher_hash :: "(string \<Rightarrow> string) \<Rightarrow> ParsedClientHello \<Rightarrow> string" where
  "cipher_hash sha256_hex hello =
     (let ciphers = filter (\<lambda>c. \<not> ja4_is_grease c) (ch_cipher_suites hello) in
      if ciphers = [] then ''000000000000''
      else take 12 (sha256_hex (cipher_input hello)))"

definition hashed_exts :: "ParsedClientHello \<Rightarrow> u16 list" where
  "hashed_exts hello =
     filter (\<lambda>e. \<not> ja4_is_grease e \<and> e \<noteq> 0x0000 \<and> e \<noteq> 0x0010) (ch_extension_ids hello)"

definition extension_input :: "ParsedClientHello \<Rightarrow> string" where
  "extension_input hello =
     join '','' (map hex4 (sort (hashed_exts hello))) @
     (if ch_signature_algorithms hello \<noteq> []
      then CHR ''_'' # join '','' (map hex4 (ch_signature_algorithms hello)) else [])"

definition extension_hash :: "(string \<Rightarrow> string) \<Rightarrow> ParsedClientHello \<Rightarrow> string" where
  "extension_hash sha256_hex hello =
     (let hash_input = extension_input hello in
      if hash_input = [] \<or> hash_input = ''_'' then ''000000000000''
      else take 12 (sha256_hex hash_input))"

definition ja4 :: "(string \<Rightarrow> string) \<Rightarrow> ParsedClientHello \<Rightarrow> string" where
  "ja4 sha256_hex hello =
     (let version = ja4_version_string hello;
          sni = sni_marker hello;
          cipher_count = min (length (filter (\<lambda>c. \<not> ja4_is_grease c) (ch_cipher_suites hello))) 99;
          extension_count = min (length (filter (\<lambda>e. \<not> ja4_is_grease e) (ch_extension_ids hello))) 99;
          alpn = alpn_chars hello;
          c_hash = cipher_hash sha256_hex hello;
          e_hash = extension_hash sha256_hex hello
      in ''t'' @ version @ [sni] @ dec2 cipher_count @ dec2 extension_count @ alpn @ ''_'' @ c_hash @
         ''_'' @ e_hash)"

section \<open>Shape\<close>

lemma ja4_is_grease_eq: "ja4_is_grease = is_grease"
  by (simp add: fun_eq_iff ja4_is_grease_def is_grease_def)

definition sha_shape :: "(string \<Rightarrow> string) \<Rightarrow> bool" where
  "sha_shape sha256_hex = (\<forall>s. length (sha256_hex s) = 64)"

lemma length_version_string: "length (ja4_version_string h) = 2"
  by (simp add: ja4_version_string_def Let_def)

lemma length_alpn_chars: "length (alpn_chars h) = 2"
  by (simp add: alpn_chars_def split: list.split)

lemma length_hashes:
  "sha_shape sha \<Longrightarrow> length (cipher_hash sha h) = 12"
  "sha_shape sha \<Longrightarrow> length (extension_hash sha h) = 12"
  by (simp_all add: cipher_hash_def extension_hash_def sha_shape_def Let_def)

lemma layout_parts:
  assumes "length a = 10" "length c = 12" "length e = 12"
  shows "length (a @ x # c @ y # e) = 36" "(a @ x # c @ y # e) ! 10 = x"
    "(a @ x # c @ y # e) ! 23 = y" "take 12 (drop 11 (a @ x # c @ y # e)) = c"
    "drop 24 (a @ x # c @ y # e) = e"
  using assms by (simp_all add: nth_append nth_Cons' drop_Cons')

text \<open>With a 64-digit digest, every fingerprint has the fixed 36-character JA4 layout: ten
  characters of metadata, then two 12-digit hashes, each after an underscore.\<close>

theorem ja4_layout:
  assumes "sha_shape sha"
  shows "length (ja4 sha h) = 36 \<and> ja4 sha h ! 0 = CHR ''t'' \<and> ja4 sha h ! 10 = CHR ''_'' \<and>
    ja4 sha h ! 23 = CHR ''_'' \<and> take 12 (drop 11 (ja4 sha h)) = cipher_hash sha h \<and>
    drop 24 (ja4 sha h) = extension_hash sha h"
proof -
  define a where "a = ''t'' @ ja4_version_string h @ [sni_marker h] @
    dec2 (min (length (filter (\<lambda>c. \<not> ja4_is_grease c) (ch_cipher_suites h))) 99) @
    dec2 (min (length (filter (\<lambda>e. \<not> ja4_is_grease e) (ch_extension_ids h))) 99) @ alpn_chars h"
  have a: "length a = 10"
    by (simp add: a_def length_version_string length_alpn_chars length_dec2)
  have eq: "ja4 sha h = a @ CHR ''_'' # cipher_hash sha h @ CHR ''_'' # extension_hash sha h"
    by (simp add: ja4_def Let_def a_def)
  have hd: "ja4 sha h ! 0 = CHR ''t''"
    by (simp add: ja4_def Let_def)
  show ?thesis
    using layout_parts [OF a length_hashes [OF assms, of h]] hd unfolding eq by blast
qed

section \<open>Invariance\<close>

lemma max_opt_Some: "max_opt vs = Some m \<longleftrightarrow> vs \<noteq> [] \<and> m = Max (set vs)"
proof (induction vs arbitrary: m)
  case Nil
  then show ?case by simp
next
  case (Cons v vs)
  show ?case
  proof (cases "max_opt vs")
    case None
    then have "vs = []"
      using Cons.IH by (metis option.distinct(1))
    then show ?thesis
      by auto
  next
    case (Some w)
    then have "vs \<noteq> []" "w = Max (set vs)"
      using Cons.IH by auto
    then show ?thesis
      using Some by auto
  qed
qed

lemma max_opt_cong: "set vs = set ws \<Longrightarrow> max_opt vs = max_opt ws"
  by (cases "max_opt vs"; cases "max_opt ws") (auto simp: max_opt_Some, (metis max_opt_Some not_None_eq set_empty)+)

definition meaningful :: "u16 list \<Rightarrow> u16 list" where
  "meaningful xs = filter (\<lambda>x. \<not> is_grease x) xs"

lemma version_string_eq:
  "ja4_version_string h =
     (let version = (case max_opt (meaningful (ch_supported_versions h)) of
                       None \<Rightarrow> ch_legacy_version h | Some v \<Rightarrow> v)
      in if version = 0x0304 then ''13''
         else if version = 0x0303 then ''12''
         else if version = 0x0302 then ''11''
         else if version = 0x0301 then ''10''
         else ''00'')"
  by (cases "ch_supported_versions h = []")
    (simp_all add: ja4_version_string_def meaningful_def ja4_is_grease_eq)

lemma sort_mset_cong: "mset xs = mset ys \<Longrightarrow> sort xs = sort ys"
  by (rule properties_for_sort) simp_all

text \<open>C24: the fingerprint does not depend on GREASE values or on the order of cipher suites,
  extensions and versions: two hellos that offer the same suites, extensions and versions up to
  GREASE and order, and agree on the rest, have the same fingerprint.\<close>

theorem ja4_invariant:
  assumes "mset (meaningful (ch_cipher_suites h)) = mset (meaningful (ch_cipher_suites h'))"
    and "mset (meaningful (ch_extension_ids h)) = mset (meaningful (ch_extension_ids h'))"
    and "set (meaningful (ch_supported_versions h)) = set (meaningful (ch_supported_versions h'))"
    and "ch_legacy_version h = ch_legacy_version h'" "ch_sni h = ch_sni h'" "ch_alpn h = ch_alpn h'"
    and "ch_signature_algorithms h = ch_signature_algorithms h'"
  shows "ja4 sha h = ja4 sha h'"
proof -
  have cs: "sort (filter (\<lambda>c. \<not> is_grease c) (ch_cipher_suites h)) =
      sort (filter (\<lambda>c. \<not> is_grease c) (ch_cipher_suites h'))"
    using assms(1) unfolding meaningful_def by (rule sort_mset_cong)
  have cl: "length (filter (\<lambda>c. \<not> is_grease c) (ch_cipher_suites h)) =
      length (filter (\<lambda>c. \<not> is_grease c) (ch_cipher_suites h'))"
    using assms(1) unfolding meaningful_def by (rule mset_eq_length)
  have es: "length (filter (\<lambda>c. \<not> is_grease c) (ch_extension_ids h)) =
      length (filter (\<lambda>c. \<not> is_grease c) (ch_extension_ids h'))"
    using assms(2) unfolding meaningful_def by (rule mset_eq_length)
  have "hashed_exts g = filter (\<lambda>e. e \<noteq> 0 \<and> e \<noteq> 0x10) (meaningful (ch_extension_ids g))" for g
    by (auto simp: hashed_exts_def meaningful_def ja4_is_grease_eq intro: filter_cong)
  then have "mset (hashed_exts h) = mset (hashed_exts h')"
    using assms(2) by (simp add: mset_filter)
  then have hx: "sort (hashed_exts h) = sort (hashed_exts h')"
    by (rule sort_mset_cong)
  have "max_opt (meaningful (ch_supported_versions h)) = max_opt (meaningful (ch_supported_versions h'))"
    using assms(3) by (rule max_opt_cong)
  then have vs: "ja4_version_string h = ja4_version_string h'"
    by (simp only: version_string_eq assms(4))
  have nil: "filter (\<lambda>c. \<not> is_grease c) (ch_cipher_suites h) = [] \<longleftrightarrow>
      filter (\<lambda>c. \<not> is_grease c) (ch_cipher_suites h') = []"
    using arg_cong [OF cl, of "\<lambda>n. n = 0"] by (simp only: length_0_conv)
  have "cipher_hash sha h = cipher_hash sha h'"
    unfolding cipher_hash_def cipher_input_def ja4_is_grease_eq cs Let_def nil by (rule refl)
  moreover have "extension_hash sha h = extension_hash sha h'"
    by (simp add: extension_hash_def extension_input_def hx assms(7))
  ultimately show ?thesis
    using assms(5,6) es cl vs by (simp add: ja4_def Let_def sni_marker_def alpn_chars_def ja4_is_grease_eq)
qed

section \<open>What is hashed\<close>

lemma digit_char_inj: "a < 16 \<Longrightarrow> b < 16 \<Longrightarrow> digit_char a = digit_char b \<Longrightarrow> a = b"
  by (metis digit_val_digit_char option.inject)

lemma nibbles:
  "n = n div 4096 * 4096 + n div 256 mod 16 * 256 + n div 16 mod 16 * 16 + n mod 16" for n :: nat
proof -
  have "n div 4096 = n div 256 div 16" "n div 256 = n div 16 div 16"
    using div_mult2_eq [of n 256 16] div_mult2_eq [of n 16 16] by simp_all
  then show ?thesis
    using div_mult_mod_eq [of n 16] div_mult_mod_eq [of "n div 16" 16] div_mult_mod_eq [of "n div 256" 16]
    by linarith
qed

lemma hex4_inj: "hex4 u = hex4 v \<longleftrightarrow> u = v"
proof
  assume eq: "hex4 u = hex4 v"
  have small: "unat w div 4096 < 16" for w :: u16
    using unat_u16_less [of w] by simp
  have parts: "unat w = unat w div 4096 * 4096 + unat w div 256 mod 16 * 256 + unat w div 16 mod 16 * 16 + unat w mod 16"
    for w :: u16
    by (rule nibbles)
  have "unat u div 4096 = unat v div 4096" "unat u div 256 mod 16 = unat v div 256 mod 16"
    "unat u div 16 mod 16 = unat v div 16 mod 16" "unat u mod 16 = unat v mod 16"
    using eq small [of u] small [of v] by (auto simp: hex4_def Let_def intro!: digit_char_inj)
  then have "unat u = unat v"
    using parts [of u] parts [of v] by simp
  then show "u = v"
    by (simp add: word_unat_eq_iff)
qed simp

lemma sort_eq_iff: "sort xs = sort ys \<longleftrightarrow> mset xs = mset ys"
proof
  assume "sort xs = sort ys"
  then have "mset (sort xs) = mset (sort ys)"
    by (rule arg_cong)
  then show "mset xs = mset ys"
    by simp
qed (rule sort_mset_cong)

lemma join_hex4_inj:
  "join '','' (map hex4 xs) = join '','' (map hex4 ys) \<longleftrightarrow> xs = ys"
proof (induction xs arbitrary: ys)
  case Nil
  show ?case
    by (cases "(''a'', map hex4 ys)" rule: join.cases) (auto simp: hex4_def Let_def)
next
  case (Cons x xs)
  show ?case
  proof (cases ys)
    case Nil
    then show ?thesis
      by (cases xs) (auto simp: hex4_def Let_def)
  next
    case (Cons y ys')
    have split: "join '','' (map hex4 (z # zs)) =
        hex4 z @ (if zs = [] then [] else CHR '','' # join '','' (map hex4 zs))" for z zs
      by (cases zs) auto
    have "join '','' (map hex4 (x # xs)) = join '','' (map hex4 (y # ys')) \<longleftrightarrow>
        x = y \<and> (if xs = [] then [] else CHR '','' # join '','' (map hex4 xs)) =
          (if ys' = [] then [] else CHR '','' # join '','' (map hex4 ys'))"
      by (simp only: split append_eq_append_conv length_hex4 simp_thms hex4_inj)
    then show ?thesis
      using Cons.IH [of ys'] by (auto simp: Cons)
  qed
qed

text \<open>The string hashed for the cipher part is canonical: two hellos hash the same string
  exactly if they offer the same cipher suites up to GREASE and order, with multiplicity.\<close>

theorem cipher_input_canonical:
  "cipher_input h = cipher_input h' \<longleftrightarrow>
     mset (meaningful (ch_cipher_suites h)) = mset (meaningful (ch_cipher_suites h'))"
  unfolding cipher_input_def join_hex4_inj ja4_is_grease_eq meaningful_def
  by (rule sort_eq_iff)

section \<open>Witnesses\<close>

definition sample_fp_hello :: "u16 list \<Rightarrow> ParsedClientHello" where
  "sample_fp_hello cs = client_base 0x0303 (replicate 32 7) [] cs [0]"

lemma ja4_layout_witness:
  "length (ja4 (\<lambda>_. replicate 64 CHR ''0'') (sample_fp_hello [0x1301])) = 36"
  using ja4_layout [of "\<lambda>_. replicate 64 CHR ''0''" "sample_fp_hello [0x1301]"]
  by (simp add: sha_shape_def)

lemma ja4_invariant_witness:
  "ja4 rev (sample_fp_hello [0x1301, 0x0A0A, 0x1302]) = ja4 rev (sample_fp_hello [0x1302, 0x1301])"
  by (rule ja4_invariant)
    (simp_all add: sample_fp_hello_def client_base_def meaningful_def is_grease_def add_mset_commute)

end
