(* ===== verification/Machines.thy ===== *)
theory Machines
  imports Main
begin

text \<open>
  State machines: the interface between a component that handles one input at a time and what
  holds after any sequence of inputs.  A component interprets \<open>step_machine\<close> with its step
  function and its invariant; \<open>output_machine\<close> adds a promise about every output.
\<close>

locale step_machine =
  fixes init :: 's
    and step :: "'i \<Rightarrow> 's \<Rightarrow> 's"
    and legal :: "'i \<Rightarrow> bool"
    and inv :: "'s \<Rightarrow> bool"
  assumes inv_init: "inv init"
    and inv_step: "legal i \<Longrightarrow> inv s \<Longrightarrow> inv (step i s)"
begin

lemma run_inv_from: "inv s \<Longrightarrow> \<forall>i \<in> set is. legal i \<Longrightarrow> inv (fold step is s)"
  by (induction "is" arbitrary: s) (auto intro: inv_step)

lemma run_inv: "\<forall>i \<in> set is. legal i \<Longrightarrow> inv (fold step is init)"
  by (rule run_inv_from [OF inv_init])

end

fun run_outputs :: "('i \<Rightarrow> 's \<Rightarrow> 'o \<times> 's) \<Rightarrow> 'i list \<Rightarrow> 's \<Rightarrow> 'o list \<times> 's" where
  "run_outputs f [] s = ([], s)"
| "run_outputs f (i # is) s =
     (case f i s of (out, s1) \<Rightarrow> (case run_outputs f is s1 of (outs, s2) \<Rightarrow> (out # outs, s2)))"

lemma snd_run_outputs: "snd (run_outputs f is s) = fold (\<lambda>i s. snd (f i s)) is s"
  by (induction "is" arbitrary: s) (simp_all add: case_prod_beta)

lemma length_run_outputs: "length (fst (run_outputs f is s)) = length is"
  by (induction "is" arbitrary: s) (simp_all add: case_prod_beta)

locale output_machine = step_machine init "\<lambda>i s. snd (f i s)" legal inv
  for init :: 's and f :: "'i \<Rightarrow> 's \<Rightarrow> 'o \<times> 's" and legal :: "'i \<Rightarrow> bool"
    and inv :: "'s \<Rightarrow> bool" +
  fixes good :: "'o \<Rightarrow> bool"
  assumes out_good: "legal i \<Longrightarrow> inv s \<Longrightarrow> good (fst (f i s))"
begin

lemma outputs_good_from:
  "inv s \<Longrightarrow> \<forall>i \<in> set is. legal i \<Longrightarrow> out \<in> set (fst (run_outputs f is s)) \<Longrightarrow> good out"
proof (induction "is" arbitrary: s)
  case Nil
  then show ?case by simp
next
  case (Cons i "is")
  then show ?case
    using out_good [of i s] inv_step [of i s] by (auto simp: case_prod_beta)
qed

lemma outputs_good:
  "\<forall>i \<in> set is. legal i \<Longrightarrow> out \<in> set (fst (run_outputs f is init)) \<Longrightarrow> good out"
  by (rule outputs_good_from [OF inv_init])

lemma outputs_inv:
  "\<forall>i \<in> set is. legal i \<Longrightarrow> inv (snd (run_outputs f is init))"
  by (simp add: snd_run_outputs run_inv)

end

end
