(* ===== verification/Correlate.thy ===== *)
theory Correlate
  imports Hello_Parser Stores Machines "HOL-Library.Multiset"
begin

text \<open>
  \<open>crates/tls-probe-cli/src/correlate.rs\<close>: the join of a ServerHello or an alert with the
  ClientHello of the same connection.

  The pending table is a \<open>HashMap\<close>; the only operation that depends on its iteration order
  is the choice of the entry to evict, so the order is the parameter \<open>iter\<close>, a permutation
  of the entries.  The wall clock is an argument.  Timestamps are 64-bit words and their
  difference wraps, as in a release build.
\<close>

section \<open>Names\<close>

definition correlate_tls_version_name :: "u16 \<Rightarrow> string" where
  "correlate_tls_version_name v =
     (if v = 0x0304 then ''TLS 1.3''
      else if v = 0x0303 then ''TLS 1.2''
      else if v = 0x0302 then ''TLS 1.1''
      else if v = 0x0301 then ''TLS 1.0''
      else if v = 0x0300 then ''SSL 3.0''
      else ''Unknown'')"

definition correlate_key_exchange_name :: "u16 \<Rightarrow> string" where
  "correlate_key_exchange_name i =
     (if is_grease i then ''GREASE''
      else if i = 0x0017 then ''secp256r1''
      else if i = 0x0018 then ''secp384r1''
      else if i = 0x0019 then ''secp521r1''
      else if i = 0x001D then ''x25519''
      else if i = 0x001E then ''x448''
      else if i = 0x0100 then ''ffdhe2048''
      else if i = 0x0101 then ''ffdhe3072''
      else if i = 0x0102 then ''ffdhe4096''
      else if i = 0x0103 then ''ffdhe6144''
      else if i = 0x0104 then ''ffdhe8192''
      else if i = 0x0200 then ''MLKEM512''
      else if i = 0x0201 then ''MLKEM768''
      else if i = 0x0202 then ''MLKEM1024''
      else if i = 0x11E9 then ''SecP256r1MLKEM512''
      else if i = 0x11EA then ''MLKEM512X25519''
      else if i = 0x11EB then ''SecP256r1MLKEM768''
      else if i = 0x11EC then ''X25519MLKEM768''
      else if i = 0x11ED then ''SecP384r1MLKEM1024''
      else if i = 0x6399 then ''X25519Kyber768Draft00''
      else if i = 0x639A then ''SecP256r1Kyber768Draft00''
      else ''unknown'')"

section \<open>State\<close>

record GroupInfo =
  gi_id :: u16
  gi_name :: string

record Negotiation =
  ng_outcome :: string
  ng_client_max_version :: string
  ng_selected_group :: "GroupInfo option"
  ng_client_offered_groups :: "GroupInfo list"
  ng_client_sni :: "string option"
  ng_psk_selected :: bool
  ng_early_data_offered :: bool
  ng_mtls_requested :: bool
  ng_mtls :: bool

record ClientHelloSummary =
  cs_max_version :: u16
  cs_offered_groups :: "u16 list"
  cs_sni :: "string option"
  cs_psk_offered :: bool
  cs_early_data_offered :: bool
  cs_timestamp_ns :: u64
  cs_mtls_requested :: bool
  cs_mtls :: bool
  cs_post_sh_negotiation :: "Negotiation option"

type_synonym pending = "(ConnKey \<times> (ClientHelloSummary \<times> u64)) list"

record Correlator =
  pending :: pending
  max_entries :: nat
  ttl_ns :: u64

definition correlator_new :: Correlator where
  "correlator_new = \<lparr>pending = [], max_entries = 8192, ttl_ns = 10000000000\<rparr>"

section \<open>Operations\<close>

definition group_info :: "u16 \<Rightarrow> GroupInfo" where
  "group_info g = \<lparr>gi_id = g, gi_name = correlate_key_exchange_name g\<rparr>"

definition offered_infos :: "u16 list \<Rightarrow> GroupInfo list" where
  "offered_infos gs = map group_info (filter (\<lambda>g. \<not> is_grease g) gs)"

definition build_negotiation :: "ClientHelloSummary \<Rightarrow> ParsedServerHello \<Rightarrow> Negotiation" where
  "build_negotiation summary hello =
     \<lparr>ng_outcome = ''negotiated'',
      ng_client_max_version = correlate_tls_version_name (cs_max_version summary),
      ng_selected_group = map_option group_info (sh_key_share_group hello),
      ng_client_offered_groups = offered_infos (cs_offered_groups summary),
      ng_client_sni = cs_sni summary,
      ng_psk_selected = sh_psk_selected hello,
      ng_early_data_offered = cs_early_data_offered summary,
      ng_mtls_requested = cs_mtls_requested summary,
      ng_mtls = cs_mtls summary\<rparr>"

definition failed_negotiation :: "ClientHelloSummary \<Rightarrow> Negotiation" where
  "failed_negotiation summary =
     \<lparr>ng_outcome = ''failed'',
      ng_client_max_version = correlate_tls_version_name (cs_max_version summary),
      ng_selected_group = None,
      ng_client_offered_groups = offered_infos (cs_offered_groups summary),
      ng_client_sni = cs_sni summary,
      ng_psk_selected = False,
      ng_early_data_offered = cs_early_data_offered summary,
      ng_mtls_requested = cs_mtls_requested summary,
      ng_mtls = cs_mtls summary\<rparr>"

definition summary_of :: "u64 \<Rightarrow> ParsedClientHello \<Rightarrow> ClientHelloSummary" where
  "summary_of now_ns hello =
     \<lparr>cs_max_version =
        (case find (\<lambda>v. \<not> is_grease v) (ch_supported_versions hello) of
           None \<Rightarrow> ch_legacy_version hello | Some v \<Rightarrow> v),
      cs_offered_groups =
        (if ch_key_share_groups hello \<noteq> [] then ch_key_share_groups hello
         else ch_supported_groups hello),
      cs_sni = ch_sni hello,
      cs_psk_offered = ch_psk_offered hello,
      cs_early_data_offered = ch_early_data_offered hello,
      cs_timestamp_ns = now_ns,
      cs_mtls_requested = False,
      cs_mtls = False,
      cs_post_sh_negotiation = None\<rparr>"

text \<open>\<open>Iterator::min_by_key\<close> on the insertion time: the first least entry.\<close>

fun min_by_ts :: "pending \<Rightarrow> (ConnKey \<times> (ClientHelloSummary \<times> u64)) option" where
  "min_by_ts [] = None"
| "min_by_ts (e # es) =
     (case min_by_ts es of
        None \<Rightarrow> Some e
      | Some m \<Rightarrow> if snd (snd m) < snd (snd e) then Some m else Some e)"

definition on_client_hello ::
  "(pending \<Rightarrow> pending) \<Rightarrow> u64 \<Rightarrow> ConnKey \<Rightarrow> TlsAnalysis \<Rightarrow> Correlator \<Rightarrow> Negotiation option \<times> Correlator" where
  "on_client_hello iter now_ns key analysis c =
     (case analysis of
        ServerHelloA _ _ \<Rightarrow> (None, c)
      | ClientHelloA _ hello \<Rightarrow>
          (let p = (if length (pending c) \<ge> max_entries c
                    then (case min_by_ts (iter (pending c)) of
                            None \<Rightarrow> pending c
                          | Some (k, _) \<Rightarrow> kv_remove k (pending c))
                    else pending c)
           in (None, c\<lparr>pending := hm_insert key (summary_of now_ns hello, now_ns) p\<rparr>)))"

definition on_server_hello ::
  "ConnKey \<Rightarrow> TlsAnalysis \<Rightarrow> Correlator \<Rightarrow> Negotiation option \<times> Correlator" where
  "on_server_hello key analysis c =
     (case analysis of
        ClientHelloA _ _ \<Rightarrow> (None, c)
      | ServerHelloA _ hello \<Rightarrow>
          (case map_of (pending c) key of
             None \<Rightarrow> (None, c)
           | Some (summary, _) \<Rightarrow>
               if cs_mtls_requested summary then
                 (let negotiation = build_negotiation summary hello in
                  (Some negotiation,
                   c\<lparr>pending := kv_modify key
                       (\<lambda>(s, ts). (s\<lparr>cs_post_sh_negotiation := Some negotiation\<rparr>, ts)) (pending c)\<rparr>))
               else (Some (build_negotiation summary hello), c\<lparr>pending := kv_remove key (pending c)\<rparr>)))"

definition on_alert ::
  "ConnKey \<Rightarrow> u8 \<Rightarrow> u8 \<Rightarrow> Correlator \<Rightarrow> Negotiation option \<times> Correlator" where
  "on_alert key alert_level alert_description c =
     (case map_of (pending c) key of
        None \<Rightarrow> (None, c)
      | Some (summary, _) \<Rightarrow>
          (Some (failed_negotiation summary), c\<lparr>pending := kv_remove key (pending c)\<rparr>))"

definition on_certificate_request :: "ConnKey \<Rightarrow> Correlator \<Rightarrow> Correlator" where
  "on_certificate_request key c =
     c\<lparr>pending := kv_modify key (\<lambda>(s, ts). (s\<lparr>cs_mtls_requested := True\<rparr>, ts)) (pending c)\<rparr>"

definition on_client_certificate :: "ConnKey \<Rightarrow> Correlator \<Rightarrow> Negotiation option \<times> Correlator" where
  "on_client_certificate key c =
     (case map_of (pending c) key of
        None \<Rightarrow> (None, c)
      | Some (summary, _) \<Rightarrow>
          (case cs_post_sh_negotiation summary of
             Some negotiation \<Rightarrow>
               (Some (negotiation\<lparr>ng_mtls := True\<rparr>), c\<lparr>pending := kv_remove key (pending c)\<rparr>)
           | None \<Rightarrow>
               (None, c\<lparr>pending := kv_modify key (\<lambda>(s, ts). (s\<lparr>cs_mtls := True\<rparr>, ts)) (pending c)\<rparr>)))"

definition corr_sweep_expired :: "u64 \<Rightarrow> Correlator \<Rightarrow> nat \<times> Correlator" where
  "corr_sweep_expired now_ns c =
     (let p = filter (\<lambda>(_, _, ts). now_ns - ts < ttl_ns c) (pending c)
      in (length (pending c) - length p, c\<lparr>pending := p\<rparr>))"

section \<open>Sequences of operations\<close>

datatype CorrOp =
    OpClientHello u64 ConnKey TlsAnalysis
  | OpServerHello ConnKey TlsAnalysis
  | OpAlert ConnKey u8 u8
  | OpCertificateRequest ConnKey
  | OpClientCertificate ConnKey
  | OpSweep u64

text \<open>One operation, with the iteration order the hash map happens to have for it.\<close>

fun corr_op :: "(pending \<Rightarrow> pending) \<times> CorrOp \<Rightarrow> Correlator \<Rightarrow> Negotiation option \<times> Correlator" where
  "corr_op (iter, OpClientHello now k a) c = on_client_hello iter now k a c"
| "corr_op (iter, OpServerHello k a) c = on_server_hello k a c"
| "corr_op (iter, OpAlert k l d) c = on_alert k l d c"
| "corr_op (iter, OpCertificateRequest k) c = (None, on_certificate_request k c)"
| "corr_op (iter, OpClientCertificate k) c = on_client_certificate k c"
| "corr_op (iter, OpSweep now) c = (None, snd (corr_sweep_expired now c))"

definition iter_ok :: "(pending \<Rightarrow> pending) \<Rightarrow> bool" where
  "iter_ok iter = (\<forall>p. mset (iter p) = mset p)"

definition summary_ok :: "ClientHelloSummary \<Rightarrow> bool" where
  "summary_ok s =
     (\<forall>n. cs_post_sh_negotiation s = Some n \<longrightarrow>
        cs_mtls_requested s \<and> ng_outcome n = ''negotiated'' \<and>
        ng_client_offered_groups n = offered_infos (cs_offered_groups s))"

definition corr_inv :: "Correlator \<Rightarrow> bool" where
  "corr_inv c =
     (hm_ok (pending c) \<and> max_entries c = 8192 \<and> length (pending c) \<le> 8192 \<and>
      (\<forall>(_, s, _) \<in> set (pending c). summary_ok s))"

text \<open>What every reported negotiation promises.\<close>

definition negotiation_ok :: "Negotiation option \<Rightarrow> bool" where
  "negotiation_ok out =
     (case out of
        None \<Rightarrow> True
      | Some n \<Rightarrow>
          ng_outcome n \<in> {''negotiated'', ''failed''} \<and>
          (\<forall>g \<in> set (ng_client_offered_groups n). \<not> is_grease (gi_id g)) \<and>
          (ng_outcome n = ''failed'' \<longrightarrow> ng_selected_group n = None))"

lemma offered_infos_not_grease: "g \<in> set (offered_infos gs) \<Longrightarrow> \<not> is_grease (gi_id g)"
  by (auto simp: offered_infos_def group_info_def)

lemma min_by_ts_in: "min_by_ts p = Some e \<Longrightarrow> e \<in> set p"
  by (induction p arbitrary: e) (auto split: option.splits if_splits)

lemma min_by_ts_None: "min_by_ts p = None \<longleftrightarrow> p = []"
  by (cases p) (auto split: option.splits)

lemma min_by_ts_min: "min_by_ts p = Some e \<Longrightarrow> x \<in> set p \<Longrightarrow> snd (snd e) \<le> snd (snd x)"
proof (induction p arbitrary: e)
  case Nil
  then show ?case by simp
next
  case (Cons y p)
  show ?case
  proof (cases "min_by_ts p")
    case None
    with Cons.prems show ?thesis
      by (simp add: min_by_ts_None)
  next
    case (Some m)
    with Cons.prems Cons.IH [OF Some] show ?thesis
      by (auto split: if_splits)
  qed
qed

lemma set_hm_insert: "set (hm_insert k v m) = insert (k, v) {e \<in> set m. fst e \<noteq> k}"
  by (auto simp: hm_insert_def)

lemma kv_modify_mem: "(j, v) \<in> set (kv_modify k f m) \<Longrightarrow> \<exists>w. (j, w) \<in> set m \<and> (v = w \<or> v = f w)"
  by (auto simp: kv_modify_def)

lemma summary_ok_new: "summary_ok (summary_of now h)"
  by (simp add: summary_ok_def summary_of_def)

lemma corr_inv_modify:
  assumes "corr_inv c" "\<And>s ts. map_of (pending c) k = Some (s, ts) \<Longrightarrow> summary_ok s \<Longrightarrow> summary_ok (fst (f (s, ts)))"
  shows "corr_inv (c\<lparr>pending := kv_modify k f (pending c)\<rparr>)"
proof -
  have ok: "summary_ok s" if mem: "(j, s, ts) \<in> set (kv_modify k f (pending c))" for j s ts
  proof -
    have "hm_ok (pending c)"
      using assms(1) by (simp add: corr_inv_def)
    then have d: "distinct (map fst (pending c))"
      by (simp add: hm_ok_def)
    obtain w where w: "(j, w) \<in> set (pending c)" "(s, ts) = (if j = k then f w else w)"
      using mem by (auto simp: kv_modify_def)
    have "summary_ok (fst w)"
      using assms(1) w(1) by (auto simp: corr_inv_def)
    then show ?thesis
      using w assms(2) [of "fst w" "snd w"] d by (auto split: if_splits simp: prod_eq_iff)
  qed
  then show ?thesis
    using assms(1) by (auto simp: corr_inv_def)
qed

lemma corr_inv_filter: "corr_inv c \<Longrightarrow> corr_inv (c\<lparr>pending := filter P (pending c)\<rparr>)"
  by (auto simp: corr_inv_def hm_ok_def distinct_filter_fst intro: order_trans [OF length_filter_le])

lemma corr_inv_remove: "corr_inv c \<Longrightarrow> corr_inv (c\<lparr>pending := kv_remove k (pending c)\<rparr>)"
  by (simp add: kv_remove_def corr_inv_filter)

lemma on_client_hello_inv:
  assumes "iter_ok iter" "corr_inv c"
  shows "corr_inv (snd (on_client_hello iter now k a c))"
proof (cases a)
  case (ServerHelloA rv h)
  with assms show ?thesis
    by (simp add: on_client_hello_def)
next
  case (ClientHelloA rv h)
  define p where "p = (if length (pending c) \<ge> max_entries c
      then (case min_by_ts (iter (pending c)) of None \<Rightarrow> pending c | Some (k, _) \<Rightarrow> kv_remove k (pending c))
      else pending c)"
  have c: "hm_ok (pending c)" "max_entries c = 8192" "length (pending c) \<le> 8192"
    using assms(2) by (simp_all add: corr_inv_def)
  have sub: "set p \<subseteq> set (pending c)"
    by (auto simp: p_def kv_remove_def split: option.splits)
  have ok: "hm_ok p"
    using c(1) by (auto simp: p_def split: option.splits)
  have len: "length (hm_insert k (summary_of now h, now) p) \<le> 8192"
  proof (cases "min_by_ts (iter (pending c))")
    case None
    then have "pending c = []"
      using assms(1) by (metis iter_ok_def min_by_ts_None mset_zero_iff)
    then show ?thesis
      by (simp add: p_def c hm_insert_def)
  next
    case (Some e)
    then have "e \<in> set (pending c)"
      using assms(1) min_by_ts_in by (metis iter_ok_def mset_eq_setD)
    then have "map_of (pending c) (fst e) \<noteq> None"
      by (metis image_eqI map_of_eq_None_iff)
    then show ?thesis
      by (intro hm.evict_then_insert_bound [OF c(1,3), of "fst e"])
        (auto simp: p_def c(2) Some split: prod.splits)
  qed
  have "snd (on_client_hello iter now k a c) = c\<lparr>pending := hm_insert k (summary_of now h, now) p\<rparr>"
    by (simp add: on_client_hello_def ClientHelloA p_def Let_def)
  moreover have "\<forall>(_, s, _) \<in> set (hm_insert k (summary_of now h, now) p). summary_ok s"
    using assms(2) sub by (auto simp: corr_inv_def set_hm_insert summary_ok_new)
  ultimately show ?thesis
    using assms(2) ok len by (simp add: corr_inv_def)
qed

lemma corr_op_inv:
  assumes "iter_ok (fst i)" "corr_inv c"
  shows "corr_inv (snd (corr_op i c))"
proof -
  obtain iter op where i: "i = (iter, op)"
    by (cases i)
  show ?thesis
  proof (cases op)
    case (OpClientHello now k a)
    then show ?thesis
      using assms on_client_hello_inv by (simp add: i)
  next
    case (OpServerHello k a)
    then show ?thesis
      using assms(2)
      by (auto simp: i on_server_hello_def Let_def corr_inv_remove summary_ok_def build_negotiation_def
          split: TlsAnalysis.split option.split intro!: corr_inv_modify)
  next
    case (OpAlert k l d)
    then show ?thesis
      using assms(2) by (auto simp: i on_alert_def corr_inv_remove split: option.split)
  next
    case (OpCertificateRequest k)
    then show ?thesis
      using assms(2) by (auto simp: i on_certificate_request_def summary_ok_def intro!: corr_inv_modify)
  next
    case (OpClientCertificate k)
    then show ?thesis
      using assms(2)
      by (auto simp: i on_client_certificate_def corr_inv_remove summary_ok_def split: option.split
          intro!: corr_inv_modify)
  next
    case (OpSweep now)
    then show ?thesis
      using assms(2) by (simp add: i corr_sweep_expired_def Let_def corr_inv_filter)
  qed
qed

lemma corr_inv_lookup: "corr_inv c \<Longrightarrow> map_of (pending c) k = Some (s, ts) \<Longrightarrow> summary_ok s"
  by (auto simp: corr_inv_def dest: map_of_SomeD)

lemma corr_op_output:
  assumes "corr_inv c"
  shows "negotiation_ok (fst (corr_op i c))"
proof -
  obtain iter op where i: "i = (iter, op)"
    by (cases i)
  show ?thesis
  proof (cases op)
    case (OpClientCertificate k)
    show ?thesis
    proof (cases "map_of (pending c) k")
      case None
      then show ?thesis
        by (simp add: i OpClientCertificate on_client_certificate_def negotiation_ok_def)
    next
      case (Some e)
      then have "summary_ok (fst e)"
        using assms corr_inv_lookup by (cases e) auto
      with Some show ?thesis
        by (auto simp: i OpClientCertificate on_client_certificate_def negotiation_ok_def summary_ok_def
            dest: offered_infos_not_grease split: option.split prod.split)
    qed
  qed (auto simp: i negotiation_ok_def on_client_hello_def on_server_hello_def on_alert_def Let_def
      build_negotiation_def failed_negotiation_def
      dest: offered_infos_not_grease split: TlsAnalysis.split option.split)
qed

interpretation corr: output_machine correlator_new corr_op "\<lambda>i. iter_ok (fst i)" corr_inv negotiation_ok
proof unfold_locales
  show "corr_inv correlator_new"
    by (simp add: corr_inv_def correlator_new_def hm_ok_def)
qed (simp_all add: corr_op_inv corr_op_output)

text \<open>After any sequence of hellos, alerts, certificate messages and sweeps the pending
  table holds at most 8192 connections, each once.\<close>

theorem correlator_bounded:
  assumes "\<forall>i \<in> set ops. iter_ok (fst i)"
  shows "length (pending (snd (run_outputs corr_op ops correlator_new))) \<le> 8192 \<and>
    distinct (map fst (pending (snd (run_outputs corr_op ops correlator_new))))"
  using corr.outputs_inv [OF assms] by (simp add: corr_inv_def hm_ok_def)

lemma correlator_bounded_witness:
  "length (pending (snd (run_outputs corr_op [(rev, OpSweep 5)] correlator_new))) \<le> 8192"
  using correlator_bounded [of "[(rev, OpSweep 5)]"] by (simp add: iter_ok_def)

text \<open>C20: every negotiation the correlator reports, whatever happened before, has one of the
  two outcomes, lists no GREASE group among the offered ones, and names a selected group only
  if the handshake was negotiated.\<close>

theorem negotiations_well_formed:
  assumes "\<forall>i \<in> set ops. iter_ok (fst i)"
    and "Some n \<in> set (fst (run_outputs corr_op ops correlator_new))"
  shows "ng_outcome n \<in> {''negotiated'', ''failed''} \<and>
    (\<forall>g \<in> set (ng_client_offered_groups n). \<not> is_grease (gi_id g)) \<and>
    (ng_outcome n = ''failed'' \<longrightarrow> ng_selected_group n = None)"
  using corr.outputs_good [OF assms] by (simp add: negotiation_ok_def)

section \<open>Joining interleaved handshakes\<close>

primrec op_key :: "CorrOp \<Rightarrow> ConnKey option" where
  "op_key (OpClientHello _ k _) = Some k"
| "op_key (OpServerHello k _) = Some k"
| "op_key (OpAlert k _ _) = Some k"
| "op_key (OpCertificateRequest k) = Some k"
| "op_key (OpClientCertificate k) = Some k"
| "op_key (OpSweep _) = None"

lemma length_hm_insert_le: "length (hm_insert k v m) \<le> Suc (length m)"
  by (simp add: hm_insert_def)

lemma length_kv_remove_le: "length (kv_remove k m) \<le> length m"
  by (simp add: kv_remove_def)

lemma other_op:
  assumes "op_key op = Some j" "j \<noteq> k" "length (pending c) < max_entries c"
  shows "map_of (pending (snd (corr_op (iter, op) c))) k = map_of (pending c) k"
    "max_entries (snd (corr_op (iter, op) c)) = max_entries c"
    "length (pending (snd (corr_op (iter, op) c))) \<le> Suc (length (pending c))"
  using assms length_hm_insert_le [of j _ "pending c"] length_kv_remove_le [of j "pending c"]
  by (cases op; auto simp: on_client_hello_def on_server_hello_def on_alert_def Let_def le_Suc_eq
      on_certificate_request_def on_client_certificate_def split: TlsAnalysis.split option.split)+

lemma other_ops:
  assumes "\<forall>i \<in> set ops. \<exists>j. op_key (snd i) = Some j \<and> j \<noteq> k"
    "length (pending c) + length ops \<le> max_entries c"
  shows "map_of (pending (snd (run_outputs corr_op ops c))) k = map_of (pending c) k"
  using assms
proof (induction ops arbitrary: c)
  case Nil
  then show ?case by simp
next
  case (Cons i ops)
  obtain iter op where i: "i = (iter, op)"
    by (cases i)
  obtain j where j: "op_key op = Some j" "j \<noteq> k"
    using Cons.prems(1) by (auto simp: i)
  have room: "length (pending c) < max_entries c"
    using Cons.prems(2) by simp
  note step = other_op [OF j room, of iter]
  have "length (pending (snd (corr_op i c))) + length ops \<le> max_entries (snd (corr_op i c))"
    using step(2,3) Cons.prems(2) by (simp add: i)
  then show ?case
    using Cons.IH [of "snd (corr_op i c)"] Cons.prems(1) step(1) by (simp add: i case_prod_beta)
qed

text \<open>C18: a ServerHello joins the ClientHello of its own connection however many hellos, alerts
  and certificates of other connections come between them, as long as the table has room: the
  negotiation is built from that ClientHello, and the connection is then no longer pending.\<close>

theorem interleaved_join:
  assumes "\<forall>i \<in> set ops. \<exists>j. op_key (snd i) = Some j \<and> j \<noteq> k"
    and "length (pending c) + length ops < max_entries c"
    and "c2 = snd (run_outputs corr_op ops (snd (on_client_hello iter now k (ClientHelloA rv h) c)))"
  shows "\<exists>c3. on_server_hello k (ServerHelloA rv' sh) c2 =
      (Some (build_negotiation (summary_of now h) sh), c3) \<and> map_of (pending c3) k = None"
proof -
  let ?c1 = "snd (on_client_hello iter now k (ClientHelloA rv h) c)"
  have c1: "?c1 = c\<lparr>pending := hm_insert k (summary_of now h, now) (pending c)\<rparr>"
    using assms(2) by (simp add: on_client_hello_def Let_def)
  have "length (pending ?c1) + length ops \<le> max_entries ?c1"
    using assms(2) length_hm_insert_le [of k "(summary_of now h, now)" "pending c"] by (simp add: c1)
  from other_ops [OF assms(1) this] have "map_of (pending c2) k = Some (summary_of now h, now)"
    by (simp add: assms(3) c1)
  then show ?thesis
    by (simp add: on_server_hello_def summary_of_def)
qed

definition sample_key :: ConnKey where
  "sample_key = \<lparr>ck_src_addr = replicate 16 1, ck_dst_addr = replicate 16 2, ck_src_port = 40000, ck_dst_port = 443\<rparr>"

definition sample_ch :: ParsedClientHello where
  "sample_ch = (client_base 0x0303 (replicate 32 7) [] [0x1301] [0])
     \<lparr>ch_supported_versions := [0x0A0A, 0x0304], ch_supported_groups := [0x0A0A, 0x11EC, 0x001D]\<rparr>"

definition sample_sh :: ParsedServerHello where
  "sample_sh = (server_base 0x0303 (replicate 32 7) [] 0x1301 0)\<lparr>sh_key_share_group := Some 0x11EC\<rparr>"

lemma interleaved_join_witness:
  "\<exists>n c3. on_server_hello sample_key (ServerHelloA 0x0303 sample_sh)
      (snd (run_outputs corr_op [(rev, OpAlert (sample_key\<lparr>ck_src_port := 9\<rparr>) 2 40)]
        (snd (on_client_hello rev 5 sample_key (ClientHelloA 0x0301 sample_ch) correlator_new)))) = (Some n, c3) \<and>
     ng_client_max_version n = ''TLS 1.3'' \<and> map gi_id (ng_client_offered_groups n) = [0x11EC, 0x001D] \<and>
     map_of (pending c3) sample_key = None"
proof -
  let ?ops = "[(rev :: pending \<Rightarrow> pending, OpAlert (sample_key\<lparr>ck_src_port := 9\<rparr>) 2 40)]"
  have others: "\<forall>i \<in> set ?ops. \<exists>j. op_key (snd i) = Some j \<and> j \<noteq> sample_key"
    by (simp add: sample_key_def)
  have grease: "is_grease 0x0A0A" "\<not> is_grease 0x0304" "\<not> is_grease 0x11EC" "\<not> is_grease 0x001D"
    by (simp_all add: is_grease_def)
  show ?thesis
    using interleaved_join [OF others _ refl, where c = correlator_new and iter = rev and now = 5
        and rv = "0x0301" and h = sample_ch and rv' = "0x0303" and sh = sample_sh] grease
    by (auto simp: correlator_new_def build_negotiation_def summary_of_def sample_ch_def client_base_def
        offered_infos_def group_info_def correlate_tls_version_name_def)
qed

text \<open>C19: a mutual TLS handshake: a CertificateRequest seen before the join keeps the connection
  pending past the ServerHello, whose negotiation says that a client certificate was requested;
  the client's Certificate then reports the same negotiation with \<open>mtls\<close> set and ends the
  connection's entry.\<close>

theorem mtls_handshake:
  assumes "map_of (pending c) k = Some (s, ts)" "c1 = on_certificate_request k c"
    and "on_server_hello k (ServerHelloA rv sh) c1 = (out, c2)"
    and "on_client_certificate k c2 = (out', c3)"
  shows "out = Some (build_negotiation (s\<lparr>cs_mtls_requested := True\<rparr>) sh) \<and>
    out' = Some ((build_negotiation (s\<lparr>cs_mtls_requested := True\<rparr>) sh)\<lparr>ng_mtls := True\<rparr>) \<and>
    map_of (pending c2) k \<noteq> None \<and> map_of (pending c3) k = None"
  using assms
  by (auto simp: on_certificate_request_def on_server_hello_def on_client_certificate_def Let_def)

lemma mtls_handshake_witness:
  "\<exists>n c2 c3. on_server_hello sample_key (ServerHelloA 0x0303 sample_sh)
       (on_certificate_request sample_key
         (correlator_new\<lparr>pending := [(sample_key, summary_of 5 sample_ch, 5)]\<rparr>)) = (Some n, c2) \<and>
     ng_mtls_requested n \<and> \<not> ng_mtls n \<and>
     on_client_certificate sample_key c2 = (Some (n\<lparr>ng_mtls := True\<rparr>), c3)"
proof -
  let ?c = "correlator_new\<lparr>pending := [(sample_key, summary_of 5 sample_ch, 5)]\<rparr>"
  obtain out c2 where sh: "on_server_hello sample_key (ServerHelloA 0x0303 sample_sh)
      (on_certificate_request sample_key ?c) = (out, c2)"
    by fastforce
  obtain out' c3 where cc: "on_client_certificate sample_key c2 = (out', c3)"
    by fastforce
  show ?thesis
    using mtls_handshake [OF _ refl sh cc] sh cc by (simp add: build_negotiation_def summary_of_def)
qed

lemma negotiations_well_formed_witness:
  "\<exists>n. Some n \<in> set (fst (run_outputs corr_op
      [(rev, OpClientHello 5 sample_key (ClientHelloA 0x0301 sample_ch)), (rev, OpAlert sample_key 2 40)]
      correlator_new)) \<and> ng_outcome n = ''failed'' \<and> ng_selected_group n = None"
proof -
  let ?ops = "[(rev :: pending \<Rightarrow> pending, OpClientHello 5 sample_key (ClientHelloA 0x0301 sample_ch)),
    (rev, OpAlert sample_key 2 40)]"
  let ?n = "failed_negotiation (summary_of 5 sample_ch)"
  have n: "Some ?n \<in> set (fst (run_outputs corr_op ?ops correlator_new))"
    by (simp add: on_client_hello_def on_alert_def correlator_new_def hm_insert_def)
  have "ng_outcome ?n = ''failed''"
    by (simp add: failed_negotiation_def)
  with n negotiations_well_formed [OF _ n] show ?thesis
    by (intro exI [of _ ?n]) (simp add: iter_ok_def)
qed

section \<open>One negotiation per hello\<close>

definition no_join :: "ConnKey \<Rightarrow> Correlator \<Rightarrow> bool" where
  "no_join k c =
     ((\<forall>a. on_server_hello k a c = (None, c)) \<and> (\<forall>l d. on_alert k l d c = (None, c)) \<and>
      on_client_certificate k c = (None, c) \<and> map_of (pending (on_certificate_request k c)) k = None)"

lemma no_join_iff: "map_of (pending c) k = None \<Longrightarrow> no_join k c"
  by (simp add: no_join_def on_server_hello_def on_alert_def on_client_certificate_def
      on_certificate_request_def split: TlsAnalysis.split)

text \<open>An alert, and a ServerHello on a connection without a certificate request, end the
  pending entry: until the next ClientHello of that connection no further ServerHello, alert or
  client certificate produces a negotiation or changes the table.\<close>

theorem join_is_terminal:
  assumes "on_alert k l d c = (Some n, c') \<or>
    on_server_hello k a c = (Some n, c') \<and> \<not> ng_mtls_requested n"
  shows "no_join k c'"
  using assms
  by (intro no_join_iff)
    (auto simp: on_alert_def on_server_hello_def Let_def build_negotiation_def
      split: option.splits TlsAnalysis.splits if_splits)

lemma join_is_terminal_witness:
  "no_join sample_key
     (snd (on_alert sample_key 2 40 (correlator_new\<lparr>pending := [(sample_key, summary_of 5 sample_ch, 5)]\<rparr>)))"
proof -
  let ?c = "correlator_new\<lparr>pending := [(sample_key, summary_of 5 sample_ch, 5)]\<rparr>"
  have "on_alert sample_key 2 40 ?c = (Some (failed_negotiation (summary_of 5 sample_ch)), snd (on_alert sample_key 2 40 ?c))"
    by (simp add: on_alert_def)
  then show ?thesis
    using join_is_terminal by blast
qed

section \<open>Eviction and expiry\<close>

text \<open>A ClientHello that finds the table full evicts exactly one entry, one whose insertion
  time is least, whatever the iteration order of the hash map, and is then itself pending.\<close>

theorem evicts_oldest:
  assumes "iter_ok iter" "hm_ok (pending c)" "length (pending c) \<ge> max_entries c" "pending c \<noteq> []"
  shows "\<exists>k' s' ts'. (k', s', ts') \<in> set (pending c) \<and>
    (\<forall>(_, _, ts) \<in> set (pending c). ts' \<le> ts) \<and>
    map_of (pending (snd (on_client_hello iter now k (ClientHelloA rv h) c))) =
      ((map_of (pending c))(k' := None))(k \<mapsto> (summary_of now h, now))"
proof -
  have iter: "set (iter (pending c)) = set (pending c)"
    using assms(1) by (metis iter_ok_def mset_eq_setD)
  then have "iter (pending c) \<noteq> []"
    using assms(4) by (metis set_empty)
  then obtain k' s' ts' where e: "min_by_ts (iter (pending c)) = Some (k', s', ts')"
    by (metis min_by_ts_None not_None_eq prod_cases3)
  have "(k', s', ts') \<in> set (pending c)"
    using min_by_ts_in [OF e] iter by simp
  moreover have "\<forall>(_, _, ts) \<in> set (pending c). ts' \<le> ts"
    using min_by_ts_min [OF e] iter by fastforce
  moreover have "map_of (pending (snd (on_client_hello iter now k (ClientHelloA rv h) c))) =
      ((map_of (pending c))(k' := None))(k \<mapsto> (summary_of now h, now))"
    using assms(3) by (simp add: on_client_hello_def e)
  ultimately show ?thesis
    by blast
qed

lemma evicts_oldest_witness:
  "map_of (pending (snd (on_client_hello rev 9 sample_key (ClientHelloA 0x0301 sample_ch)
      (correlator_new\<lparr>max_entries := 1, pending := [(sample_key\<lparr>ck_src_port := 7\<rparr>, summary_of 5 sample_ch, 5)]\<rparr>))))
     (sample_key\<lparr>ck_src_port := 7\<rparr>) = None"
proof -
  let ?k = "sample_key\<lparr>ck_src_port := 7\<rparr>"
  let ?c = "correlator_new\<lparr>max_entries := 1, pending := [(?k, summary_of 5 sample_ch, 5)]\<rparr>"
  have "?k \<noteq> sample_key"
    by (simp add: sample_key_def)
  then show ?thesis
    using evicts_oldest [of rev ?c 9 sample_key "0x0301" sample_ch]
    by (auto simp: iter_ok_def hm_ok_def)
qed

text \<open>When the clock has not run backwards, a sweep keeps exactly the entries younger than the
  time to live and returns the number of entries it dropped; an entry whose insertion time lies
  ahead of the clock, as after a backward step of the wall clock, is dropped although its age is
  less than the time to live.\<close>

theorem corr_sweep_exact:
  assumes "corr_sweep_expired now c = (n, c')"
  shows "pending c' = filter (\<lambda>(_, _, ts). now - ts < ttl_ns c) (pending c) \<and>
    n + length (pending c') = length (pending c) \<and>
    (\<forall>(k, s, ts) \<in> set (pending c).
       (ts \<le> now \<longrightarrow> ((k, s, ts) \<in> set (pending c') \<longleftrightarrow> unat now - unat ts < unat (ttl_ns c))) \<and>
       (now < ts \<and> unat ts - unat now \<le> 2 ^ 64 - unat (ttl_ns c) \<longrightarrow> (k, s, ts) \<notin> set (pending c')))"
proof -
  have p: "pending c' = filter (\<lambda>(_, _, ts). now - ts < ttl_ns c) (pending c)"
    "n = length (pending c) - length (pending c')"
    using assms by (auto simp: corr_sweep_expired_def Let_def)
  then have "n + length (pending c') = length (pending c)"
    by simp
  moreover have "now - ts < ttl_ns c \<longleftrightarrow> unat now - unat ts < unat (ttl_ns c)" if "ts \<le> now" for ts
    using that by (simp add: word_less_nat_alt unat_sub)
  moreover have "\<not> now - ts < ttl_ns c"
    if "now < ts" "unat ts - unat now \<le> 2 ^ 64 - unat (ttl_ns c)" for ts
  proof -
    have "unat (now - ts) = 2 ^ 64 + unat now - unat ts"
      using that(1) by (simp add: unat_sub_if_size word_size word_le_nat_alt word_less_nat_alt)
    then show ?thesis
      using that unsigned_less [of "ttl_ns c", where ?'a = nat] by (simp add: word_less_nat_alt)
  qed
  ultimately show ?thesis
    using p(1) by auto
qed

lemma corr_sweep_exact_witness:
  "\<exists>n c'. corr_sweep_expired 4 (correlator_new\<lparr>pending := [(sample_key, summary_of 5 sample_ch, 5)]\<rparr>) = (n, c') \<and>
     (sample_key, summary_of 5 sample_ch, 5) \<notin> set (pending c') \<and> n = 1"
proof -
  let ?c = "correlator_new\<lparr>pending := [(sample_key, summary_of 5 sample_ch, 5)]\<rparr>"
  obtain n c' where nc: "corr_sweep_expired 4 ?c = (n, c')"
    by fastforce
  have "(sample_key, summary_of 5 sample_ch, 5) \<notin> set (pending c')"
    using corr_sweep_exact [OF nc] by (simp add: correlator_new_def)
  moreover from this have "pending c' = []" "n + length (pending c') = 1"
    using corr_sweep_exact [OF nc] by (auto simp: correlator_new_def split: if_splits)
  ultimately show ?thesis
    using nc by auto
qed

end
