(* ===== verification/Certificate.thy ===== *)
theory Certificate
  imports Rust_Std
begin

text \<open>
  \<open>crates/tls-probe-cli/src/certificate.rs\<close>: the leaf certificate of a TLS Certificate message.

  Decoding X.509 is the \<open>x509_parser\<close> crate and formatting a time stamp is \<open>chrono\<close>: both are
  parameters.  \<open>X509\<close> holds what the source reads from a decoded certificate, \<open>parse_x509\<close>
  stands for \<open>parse_x509_certificate\<close> and \<open>rfc3339\<close> for
  \<open>DateTime::from_timestamp(..).to_rfc3339()\<close>.
\<close>

section \<open>The decoded certificate\<close>

type_synonym oid = "nat list"

record X509Name =
  nm_raw :: bytes
  nm_common_names :: "string option list"

record X509 =
  x_not_before :: int
  x_not_after :: int
  x_spki_oid :: oid
  x_key_size :: "nat option"
  x_sig_oid :: oid
  x_subject :: X509Name
  x_issuer :: X509Name
  x_extensions :: "nat option list"

record Certificate =
  ct_not_before :: string
  ct_not_after :: string
  ct_expired :: bool
  ct_public_key_algorithm :: string
  ct_public_key_bits :: u16
  ct_signature_algorithm :: string
  ct_self_signed :: bool
  ct_subject_cn :: "string option"
  ct_issuer_cn :: "string option"
  ct_san_count :: u16

section \<open>Algorithm names\<close>

datatype PublicKeyAlgorithm = Rsa | Ec | Dsa | PkUnknown

definition pk_by_oid :: "(oid \<times> PublicKeyAlgorithm) list" where
  "pk_by_oid = [([1, 2, 840, 113549, 1, 1, 1], Rsa), ([1, 2, 840, 10045, 2, 1], Ec),
     ([1, 2, 840, 10040, 4, 1], Dsa)]"

definition pk_from_oid :: "oid \<Rightarrow> PublicKeyAlgorithm" where
  "pk_from_oid i = (case find (\<lambda>(known, _). known = i) pk_by_oid of None \<Rightarrow> PkUnknown | Some (_, a) \<Rightarrow> a)"

primrec pk_as_str :: "PublicKeyAlgorithm \<Rightarrow> string" where
  "pk_as_str Rsa = ''rsa''"
| "pk_as_str Ec = ''ec''"
| "pk_as_str Dsa = ''dsa''"
| "pk_as_str PkUnknown = ''unknown''"

datatype SignatureAlgorithm =
    Sha1WithRsa | Sha256WithRsa | Sha384WithRsa | Sha512WithRsa
  | EcdsaWithSha256 | EcdsaWithSha384 | EcdsaWithSha512 | SigUnknown

definition sig_by_oid :: "(oid \<times> SignatureAlgorithm) list" where
  "sig_by_oid =
     [([1, 2, 840, 113549, 1, 1, 5], Sha1WithRsa), ([1, 2, 840, 113549, 1, 1, 11], Sha256WithRsa),
      ([1, 2, 840, 113549, 1, 1, 12], Sha384WithRsa), ([1, 2, 840, 113549, 1, 1, 13], Sha512WithRsa),
      ([1, 2, 840, 10045, 4, 3, 2], EcdsaWithSha256), ([1, 2, 840, 10045, 4, 3, 3], EcdsaWithSha384),
      ([1, 2, 840, 10045, 4, 3, 4], EcdsaWithSha512)]"

definition sig_from_oid :: "oid \<Rightarrow> SignatureAlgorithm" where
  "sig_from_oid i = (case find (\<lambda>(known, _). known = i) sig_by_oid of None \<Rightarrow> SigUnknown | Some (_, a) \<Rightarrow> a)"

primrec sig_as_str :: "SignatureAlgorithm \<Rightarrow> string" where
  "sig_as_str Sha1WithRsa = ''sha1WithRSAEncryption''"
| "sig_as_str Sha256WithRsa = ''sha256WithRSAEncryption''"
| "sig_as_str Sha384WithRsa = ''sha384WithRSAEncryption''"
| "sig_as_str Sha512WithRsa = ''sha512WithRSAEncryption''"
| "sig_as_str EcdsaWithSha256 = ''sha256WithECDSA''"
| "sig_as_str EcdsaWithSha384 = ''sha384WithECDSA''"
| "sig_as_str EcdsaWithSha512 = ''sha512WithECDSA''"
| "sig_as_str SigUnknown = ''unknown''"

section \<open>Field extraction\<close>

definition u24_from_be :: "bytes \<Rightarrow> (unit, u32) run" where
  "u24_from_be b =
     rbind (idx b 0) (\<lambda>b0. rbind (idx b 1) (\<lambda>b1. rbind (idx b 2) (\<lambda>b2.
       Ret (push_bit 16 (ucast b0) OR push_bit 8 (ucast b1) OR ucast b2))))"

definition asn1_time_to_rfc3339 :: "(int \<Rightarrow> string option) \<Rightarrow> int \<Rightarrow> string" where
  "asn1_time_to_rfc3339 rfc3339 t =
     (case rfc3339 t of None \<Rightarrow> ''1970-01-01T00:00:00Z'' | Some s \<Rightarrow> s)"

definition is_certificate_expired :: "int \<Rightarrow> int \<Rightarrow> bool" where
  "is_certificate_expired now not_after = (now > not_after)"

definition extract_public_key_info :: "X509 \<Rightarrow> string \<times> u16" where
  "extract_public_key_info cert =
     (pk_as_str (pk_from_oid (x_spki_oid cert)),
      (case x_key_size cert of None \<Rightarrow> 0 | Some n \<Rightarrow> of_nat n))"

definition extract_signature_algorithm_name :: "X509 \<Rightarrow> string" where
  "extract_signature_algorithm_name cert = sig_as_str (sig_from_oid (x_sig_oid cert))"

fun extract_cn_loop :: "string option list \<Rightarrow> string option" where
  "extract_cn_loop [] = None"
| "extract_cn_loop (Some cn # _) = Some cn"
| "extract_cn_loop (None # attrs) = extract_cn_loop attrs"

definition extract_cn :: "X509Name \<Rightarrow> string option" where
  "extract_cn dn = extract_cn_loop (nm_common_names dn)"

fun count_san_loop :: "nat option list \<Rightarrow> u16" where
  "count_san_loop [] = 0"
| "count_san_loop (Some n # _) = of_nat n"
| "count_san_loop (None # exts) = count_san_loop exts"

definition count_san_entries :: "X509 \<Rightarrow> u16" where
  "count_san_entries cert = count_san_loop (x_extensions cert)"

definition parse_der_certificate ::
  "(bytes \<Rightarrow> X509 option) \<Rightarrow> (int \<Rightarrow> string option) \<Rightarrow> int \<Rightarrow> bytes \<Rightarrow> Certificate option" where
  "parse_der_certificate parse_x509 rfc3339 now der =
     (case parse_x509 der of
        None \<Rightarrow> None
      | Some cert \<Rightarrow>
          Some \<lparr>ct_not_before = asn1_time_to_rfc3339 rfc3339 (x_not_before cert),
                ct_not_after = asn1_time_to_rfc3339 rfc3339 (x_not_after cert),
                ct_expired = is_certificate_expired now (x_not_after cert),
                ct_public_key_algorithm = fst (extract_public_key_info cert),
                ct_public_key_bits = snd (extract_public_key_info cert),
                ct_signature_algorithm = extract_signature_algorithm_name cert,
                ct_self_signed = (x_issuer cert = x_subject cert),
                ct_subject_cn = extract_cn (x_subject cert),
                ct_issuer_cn = extract_cn (x_issuer cert),
                ct_san_count = count_san_entries cert\<rparr>)"

definition parse_certificate ::
  "(bytes \<Rightarrow> X509 option) \<Rightarrow> (int \<Rightarrow> string option) \<Rightarrow> int \<Rightarrow> bytes \<Rightarrow> (unit, Certificate option) run" where
  "parse_certificate parse_x509 rfc3339 now payload =
     (if length payload < 3 then Ret None
      else
        rbind (subslice payload 0 3) (\<lambda>l3.
        rbind (u24_from_be l3) (\<lambda>cert_list_len.
        if length payload < 6 \<or> unat cert_list_len < 3 then Ret None
        else
        rbind (subslice payload 3 6) (\<lambda>c3.
        rbind (u24_from_be c3) (\<lambda>first_cert_len.
        if length payload < 6 + unat first_cert_len then Ret None
        else
        rbind (subslice payload 6 (6 + unat first_cert_len)) (\<lambda>der.
        Ret (parse_der_certificate parse_x509 rfc3339 now der)))))))"

section \<open>Properties\<close>

definition be24 :: "u8 \<Rightarrow> u8 \<Rightarrow> u8 \<Rightarrow> nat" where
  "be24 a b c = unat a * 65536 + unat b * 256 + unat c"

definition be24_bytes :: "nat \<Rightarrow> bytes" where
  "be24_bytes n = [of_nat (n div 65536), of_nat (n div 256), of_nat n]"

lemma push_bit_or_nat:
  assumes "b < 2 ^ n"
  shows "push_bit n a OR b = a * 2 ^ n + (b :: nat)"
proof -
  have "push_bit n a AND b = 0"
  proof (rule bit_eqI)
    fix k
    have "\<not> bit b k" if "n \<le> k"
    proof -
      have "(2 :: nat) ^ n \<le> 2 ^ k"
        using that by simp
      then have "b < 2 ^ k"
        using assms by linarith
      then show ?thesis
        by (simp add: bit_iff_odd)
    qed
    then show "bit (push_bit n a AND b) k \<longleftrightarrow> bit (0 :: nat) k"
      by (auto simp: bit_and_iff bit_push_bit_iff)
  qed
  then have "push_bit n a + b = push_bit n a OR b"
    by (rule disjunctive_add_eq_or)
  then show ?thesis
    by (simp add: push_bit_eq_mult)
qed

lemma unat_be24:
  "unat (push_bit 16 (ucast a) OR push_bit 8 (ucast b) OR ucast c :: u32) = be24 a b c" for a b c :: u8
proof -
  have bounds: "unat a < 256" "unat b < 256" "unat c < 256"
    by (rule unat_u8_less)+
  have uc: "unat (ucast x :: u32) = unat x" for x :: u8
    using unat_u8_less [of x] by (simp add: unsigned_ucast_eq take_bit_nat_eq_self)
  have "push_bit 16 (unat a) < 2 ^ 32" "push_bit 8 (unat b) < 2 ^ 32"
    using bounds by (simp_all add: push_bit_eq_mult)
  then have p16: "unat (push_bit 16 (ucast a) :: u32) = push_bit 16 (unat a)"
    and p8: "unat (push_bit 8 (ucast b) :: u32) = push_bit 8 (unat b)"
    by (simp_all only: unsigned_push_bit_eq uc) (simp_all add: take_bit_nat_eq_self)
  have "unat (push_bit 16 (ucast a) OR push_bit 8 (ucast b) OR ucast c :: u32) =
      push_bit 16 (unat a) OR (push_bit 8 (unat b) OR unat c)"
    by (simp only: unsigned_or_eq p16 p8 uc or.assoc)
  also have "\<dots> = be24 a b c"
    using bounds push_bit_or_nat [of "unat c" 8 "unat b"] push_bit_or_nat [of "unat b * 256 + unat c" 16 "unat a"]
    by (simp add: be24_def)
  finally show ?thesis .
qed

lemma u24_from_be_eq:
  "length xs = 3 \<Longrightarrow> u24_from_be xs =
     Ret (push_bit 16 (ucast (xs ! 0)) OR push_bit 8 (ucast (xs ! 1)) OR ucast (xs ! 2))"
  by (simp add: u24_from_be_def idx_in)

lemma u24_read:
  assumes "i + 3 \<le> length p"
  shows "\<exists>w. rbind (subslice p i (i + 3)) u24_from_be = Ret w \<and> unat w = be24 (p ! i) (p ! (i + 1)) (p ! (i + 2))"
  using assms by (simp add: subslice_in u24_from_be_eq unat_be24)

lemma parse_certificate_eq:
  "parse_certificate px rf now p =
     Ret (if length p < 6 \<or> be24 (p ! 0) (p ! 1) (p ! 2) < 3 \<or>
             length p < 6 + be24 (p ! 3) (p ! 4) (p ! 5) then None
          else parse_der_certificate px rf now (take (be24 (p ! 3) (p ! 4) (p ! 5)) (drop 6 p)))"
  by (cases "length p < 6") (simp_all add: parse_certificate_def subslice_in u24_from_be_eq unat_be24)

lemma be24_of_bytes:
  assumes "n < 2 ^ 24"
  shows "be24 (of_nat (n div 65536)) (of_nat (n div 256)) (of_nat n) = n"
proof -
  have "n div 65536 < 256"
    using assms by simp
  moreover have "n div 256 = n div 65536 * 256 + n div 256 mod 256"
    using div_mult_mod_eq [of "n div 256" 256] div_mult2_eq [of n 256 256] by simp
  moreover have "n = n div 256 * 256 + n mod 256"
    by simp
  ultimately have "n div 65536 * 65536 + n div 256 mod 256 * 256 + n mod 256 = n"
    by linarith
  with \<open>n div 65536 < 256\<close> show ?thesis
    by (simp add: be24_def unat_of_nat)
qed

lemma six_reads:
  "(a # b # c # d # e # f # xs) ! 1 = b" "(a # b # c # d # e # f # xs) ! 2 = c"
  "(a # b # c # d # e # f # xs) ! 3 = d" "(a # b # c # d # e # f # xs) ! 4 = e"
  "(a # b # c # d # e # f # xs) ! 5 = f" "drop 6 (a # b # c # d # e # f # xs) = xs"
  "length (a # b # c # d # e # f # xs) = 6 + length xs"
  by (simp_all add: numeral_eq_Suc)

definition enc_certificate :: "bytes list \<Rightarrow> bytes" where
  "enc_certificate ders =
     (let body = concat (map (\<lambda>d. be24_bytes (length d) @ d) ders) in be24_bytes (length body) @ body)"

lemma leaf_parsed:
  assumes "length der < 2 ^ 24" "length (concat (map (\<lambda>d. be24_bytes (length d) @ d) (der # ders))) < 2 ^ 24"
  shows "parse_certificate px rf now (enc_certificate (der # ders)) =
    Ret (parse_der_certificate px rf now der)"
proof -
  let ?rest = "concat (map (\<lambda>d. be24_bytes (length d) @ d) ders)"
  let ?n = "length (be24_bytes (length der) @ der @ ?rest)"
  have enc: "enc_certificate (der # ders) =
      of_nat (?n div 65536) # of_nat (?n div 256) # of_nat ?n # of_nat (length der div 65536) #
       of_nat (length der div 256) # of_nat (length der) # (der @ ?rest)"
    by (simp add: enc_certificate_def be24_bytes_def Let_def)
  have n: "?n < 2 ^ 24" "3 \<le> ?n"
    using assms(2) by (simp_all add: be24_bytes_def)
  show ?thesis
    unfolding enc parse_certificate_eq six_reads nth_Cons_0 be24_of_bytes [OF n(1)] be24_of_bytes [OF assms(1)]
    using n(2) by simp
qed

text \<open>C26: the certificate list of a Certificate message never makes the parser panic, and for a
  well-formed list the certificate that is decoded is the first one, complete and byte for
  byte.\<close>

theorem leaf_certificate:
  assumes "length der < 2 ^ 24" "length (concat (map (\<lambda>d. be24_bytes (length d) @ d) (der # ders))) < 2 ^ 24"
  shows "parse_certificate px rf now (enc_certificate (der # ders)) =
    Ret (parse_der_certificate px rf now der) \<and> parse_certificate px rf now p \<noteq> Panic"
  using leaf_parsed [OF assms, of px rf now] by (simp add: parse_certificate_eq)

definition sample_x509 :: X509 where
  "sample_x509 =
     (let name = \<lparr>nm_raw = [1], nm_common_names = [None, Some ''a'']\<rparr> in
      \<lparr>x_not_before = 0, x_not_after = 100, x_spki_oid = [1, 2, 840, 10045, 2, 1],
       x_key_size = Some 256, x_sig_oid = [1, 2, 840, 10045, 4, 3, 2], x_subject = name,
       x_issuer = name, x_extensions = [None, Some 2]\<rparr>)"

lemma leaf_certificate_witness:
  "\<exists>c. parse_certificate (\<lambda>d. if d = [1, 2, 3] then Some sample_x509 else None) (\<lambda>_. None) 101
      (enc_certificate [[1, 2, 3], [4]]) = Ret (Some c) \<and>
     ct_public_key_algorithm c = ''ec'' \<and> ct_signature_algorithm c = ''sha256WithECDSA'' \<and> ct_expired c \<and>
     ct_self_signed c \<and> ct_subject_cn c = Some ''a'' \<and> ct_san_count c = 2"
  using leaf_certificate [of "[1, 2, 3]" "[[4]]"
      "\<lambda>d. if d = [1, 2, 3] then Some sample_x509 else None" "\<lambda>_. None" 101]
  by (simp add: be24_bytes_def parse_der_certificate_def sample_x509_def Let_def
      extract_public_key_info_def pk_from_oid_def pk_by_oid_def extract_signature_algorithm_name_def
      sig_from_oid_def sig_by_oid_def is_certificate_expired_def extract_cn_def count_san_entries_def)

end
