(* ===== verification/Containers.thy ===== *)
theory Containers
  imports Rust_Text Stores
begin

text \<open>
  \<open>crates/tls-probe-cli/src/containers.rs\<close>: from a cgroup inode to a container identity.

  The cgroup file system is an argument: a tree of named entries with inode numbers, in the
  order the directory is read.  A directory that cannot be read is one without an entry list.
  The resolver's caches are explicit state; the wall clock is an argument, in nanoseconds.
\<close>

section \<open>Path parsing\<close>

record ContainerIdentity =
  id_container_id :: string
  id_pod_uid :: "string option"

definition crio_pod_uid :: "string \<Rightarrow> string option" where
  "crio_pod_uid path =
     find_map (\<lambda>segment.
       if contains ''pod'' segment \<and> ends_with ''.slice'' segment then
         (case strip_prefix ''kubepods-'' segment of
            None \<Rightarrow> None
          | Some pod_part \<Rightarrow>
              (case strip_prefix ''pod'' pod_part of
                 None \<Rightarrow> None
               | Some uid_part \<Rightarrow>
                   (case strip_suffix ''.slice'' uid_part of
                      None \<Rightarrow> None
                    | Some uid \<Rightarrow> Some (replace_char CHR ''_'' CHR ''-'' uid))))
       else None) (split_on CHR ''/'' path)"

definition parse_crio :: "string \<Rightarrow> ContainerIdentity option" where
  "parse_crio path =
     (if \<not> contains ''crio-'' path \<or> \<not> ends_with ''.scope'' path then None
      else
        (case rfind (\<lambda>p. starts_with ''crio-'' p \<and> ends_with ''.scope'' p) (split_on CHR ''/'' path) of
           None \<Rightarrow> None
         | Some scope_part \<Rightarrow>
             (case strip_prefix ''crio-'' scope_part of
                None \<Rightarrow> None
              | Some s \<Rightarrow>
                  (case strip_suffix ''.scope'' s of
                     None \<Rightarrow> None
                   | Some cid \<Rightarrow>
                       Some \<lparr>id_container_id = cid, id_pod_uid = crio_pod_uid path\<rparr>))))"

definition parse_containerd :: "string \<Rightarrow> ContainerIdentity option" where
  "parse_containerd path =
     (if \<not> contains ''cri-containerd-'' path \<or> \<not> ends_with ''.scope'' path then None
      else
        (case rfind (\<lambda>p. starts_with ''cri-containerd-'' p \<and> ends_with ''.scope'' p)
                (split_on CHR ''/'' path) of
           None \<Rightarrow> None
         | Some scope_part \<Rightarrow>
             (case strip_prefix ''cri-containerd-'' scope_part of
                None \<Rightarrow> None
              | Some s \<Rightarrow>
                  (case strip_suffix ''.scope'' s of
                     None \<Rightarrow> None
                   | Some cid \<Rightarrow> Some \<lparr>id_container_id = cid, id_pod_uid = None\<rparr>))))"

definition parse_docker :: "string \<Rightarrow> ContainerIdentity option" where
  "parse_docker path =
     (if \<not> contains ''docker-'' path \<or> \<not> ends_with ''.scope'' path then None
      else
        (case rfind (\<lambda>p. starts_with ''docker-'' p \<and> ends_with ''.scope'' p)
                (split_on CHR ''/'' path) of
           None \<Rightarrow> None
         | Some scope_part \<Rightarrow>
             (case strip_prefix ''docker-'' scope_part of
                None \<Rightarrow> None
              | Some s \<Rightarrow>
                  (case strip_suffix ''.scope'' s of
                     None \<Rightarrow> None
                   | Some cid \<Rightarrow> Some \<lparr>id_container_id = cid, id_pod_uid = None\<rparr>))))"

definition parse_podman :: "string \<Rightarrow> ContainerIdentity option" where
  "parse_podman path =
     (if \<not> contains ''libpod-'' path \<or> \<not> ends_with ''.scope'' path then None
      else
        (case rfind (\<lambda>p. starts_with ''libpod-'' p \<and> ends_with ''.scope'' p)
                (split_on CHR ''/'' path) of
           None \<Rightarrow> None
         | Some scope_part \<Rightarrow>
             (case strip_prefix ''libpod-'' scope_part of
                None \<Rightarrow> None
              | Some s \<Rightarrow>
                  (case strip_suffix ''.scope'' s of
                     None \<Rightarrow> None
                   | Some cid \<Rightarrow> Some \<lparr>id_container_id = cid, id_pod_uid = None\<rparr>))))"

definition parse_container_path :: "string \<Rightarrow> ContainerIdentity option" where
  "parse_container_path path =
     (case parse_crio path of
        Some i \<Rightarrow> Some i
      | None \<Rightarrow>
          (case parse_containerd path of
             Some i \<Rightarrow> Some i
           | None \<Rightarrow>
               (case parse_docker path of
                  Some i \<Rightarrow> Some i
                | None \<Rightarrow> parse_podman path)))"

section \<open>The resolver\<close>

datatype FsNode = FsNode
  (fs_ino: u64) (fs_is_dir: bool) (fs_is_symlink: bool)
  (fs_entries: "(string \<times> FsNode) list option")

function walk_entries ::
  "string \<Rightarrow> (string \<times> FsNode) list option \<Rightarrow> (u64 \<times> string) list \<Rightarrow> (u64 \<times> string) list option" where
  "walk_entries dir None m = None"
| "walk_entries dir (Some []) m = Some m"
| "walk_entries dir (Some ((name, node) # es)) m =
     (let path = (if dir = [] then name else dir @ ''/'' @ name);
          m1 = hm_insert (fs_ino node) path m
      in (if fs_is_dir node \<and> \<not> fs_is_symlink node then
            (case walk_entries path (fs_entries node) m1 of
               None \<Rightarrow> None
             | Some m2 \<Rightarrow> walk_entries dir (Some es) m2)
          else walk_entries dir (Some es) m1))"
  by pat_completeness auto
termination
proof (relation "measure (\<lambda>(_, es, _). size_option (size_list (\<lambda>x. Suc (size (snd x)))) es)", goal_cases)
  case (2 dir name node es m path m1)
  then show ?case
    by (cases node) (simp add: size_prod_simp)
qed auto

record ResolverCache =
  ino_map :: "(u64 \<times> string) list"
  negative :: "(u64 \<times> nat) list"
  last_walk :: "nat option"

definition resolver_new :: ResolverCache where
  "resolver_new = \<lparr>ino_map = [], negative = [], last_walk = None\<rparr>"

text \<open>The state of the world a lookup sees: the clock and the cgroup root, if it exists.\<close>

type_synonym fs_env = "nat \<times> FsNode option"

definition walk_cgroup_tree :: "FsNode option \<Rightarrow> (u64 \<times> string) list option" where
  "walk_cgroup_tree root =
     (case root of None \<Rightarrow> Some [] | Some n \<Rightarrow> walk_entries [] (fs_entries n) [])"

definition recently_missed :: "nat \<Rightarrow> nat \<Rightarrow> bool" where
  "recently_missed now neg_time = (neg_time \<le> now \<and> (now - neg_time) div 1000000000 < 5)"

definition resolve_inode :: "fs_env \<Rightarrow> u64 \<Rightarrow> ResolverCache \<Rightarrow> string option \<times> ResolverCache" where
  "resolve_inode env inode cache =
     (if inode = 0 then (None, cache)
      else
        (case map_of (ino_map cache) inode of
           Some path \<Rightarrow> (Some path, cache)
         | None \<Rightarrow>
             (if (case map_of (negative cache) inode of
                    None \<Rightarrow> False | Some t \<Rightarrow> recently_missed (fst env) t)
              then (None, cache)
              else
                (let c1 = cache\<lparr>negative := kv_remove inode (negative cache)\<rparr>;
                     c2 = (case walk_cgroup_tree (snd env) of
                             None \<Rightarrow> c1
                           | Some m \<Rightarrow> c1\<lparr>ino_map := m, last_walk := Some (fst env)\<rparr>);
                     miss = (None, c2\<lparr>negative := hm_insert inode (fst env) (negative c2)\<rparr>)
                 in if walk_cgroup_tree (snd env) = None then miss
                    else (case map_of (ino_map c2) inode of
                            Some path \<Rightarrow> (Some path, c2)
                          | None \<Rightarrow> miss)))))"

definition resolve_cgroup_id ::
  "('e \<Rightarrow> u64 \<Rightarrow> 's \<Rightarrow> string option \<times> 's) \<Rightarrow> 'e \<Rightarrow> u64 \<Rightarrow> 's \<Rightarrow>
     (string option \<times> string option) \<times> 's" where
  "resolve_cgroup_id resolve env cgroup_id st =
     (if cgroup_id = 0 then ((None, None), st)
      else
        (case resolve env cgroup_id st of
           (None, st') \<Rightarrow> ((None, None), st')
         | (Some path, st') \<Rightarrow>
             (case parse_container_path path of
                None \<Rightarrow> ((None, None), st')
              | Some i \<Rightarrow> ((Some (id_container_id i), id_pod_uid i), st'))))"

section \<open>Path parsing\<close>

lemma contains_append: "contains pat (a @ pat @ b)"
proof (induction a)
  case Nil
  have "prefix pat (pat @ b)"
    by simp
  then show ?case
    by (cases "pat @ b") auto
qed simp

definition scope_name :: "string \<Rightarrow> string \<Rightarrow> string" where
  "scope_name runtime cid = runtime @ cid @ ''.scope''"

definition runtimes :: "string list" where
  "runtimes = [''crio-'', ''cri-containerd-'', ''docker-'', ''libpod-'']"

definition scope_path :: "string \<Rightarrow> string \<Rightarrow> string \<Rightarrow> string" where
  "scope_path dir runtime cid = dir @ CHR ''/'' # scope_name runtime cid"

text \<open>A directory none of whose components is itself a scope.\<close>

definition plain_dir :: "string \<Rightarrow> bool" where
  "plain_dir dir = (\<forall>seg \<in> set (split_on CHR ''/'' dir). \<not> ends_with ''.scope'' seg)"

lemma find_rev_plain:
  assumes "\<forall>x \<in> set xs. \<not> P x"
  shows "rfind P (xs @ [y]) = (if P y then Some y else None)"
  using assms by (auto simp: rfind_def find_None_iff)

lemma rfind_scope:
  assumes "plain_dir dir" "CHR ''/'' \<notin> set (scope_name runtime cid)"
  shows "rfind (\<lambda>p. starts_with r p \<and> ends_with ''.scope'' p) (split_on CHR ''/'' (scope_path dir runtime cid)) =
    (if starts_with r (scope_name runtime cid) then Some (scope_name runtime cid) else None)"
proof -
  have "ends_with ''.scope'' (scope_name runtime cid)"
    by (simp add: ends_with_def scope_name_def suffix_def)
  moreover have "\<forall>x \<in> set (split_on CHR ''/'' dir). \<not> (starts_with r x \<and> ends_with ''.scope'' x)"
    using assms(1) by (simp add: plain_dir_def)
  ultimately show ?thesis
    unfolding scope_path_def split_on_last [OF assms(2)] by (simp add: find_rev_plain)
qed

lemma strip_scope:
  "strip_prefix r (scope_name r cid) = Some (cid @ ''.scope'')"
  "strip_suffix ''.scope'' (cid @ ''.scope'') = Some cid"
  by (simp_all add: strip_prefix_def strip_suffix_def scope_name_def suffix_def)

lemma scope_path_marks:
  "contains r (scope_path dir r cid)" "ends_with ''.scope'' (scope_path dir r cid)"
  using contains_append [of r "dir @ ''/''" "cid @ ''.scope''"]
  by (simp_all add: scope_path_def scope_name_def ends_with_def suffix_def)

lemma runtimes_disjoint:
  "r \<in> set runtimes \<Longrightarrow> r' \<in> set runtimes \<Longrightarrow> starts_with r' (scope_name r cid) \<longleftrightarrow> r' = r"
  by (auto simp: runtimes_def starts_with_def scope_name_def)

lemma parse_runtime_eqs:
  assumes "plain_dir dir" "CHR ''/'' \<notin> set (scope_name r cid)"
  shows "parse_crio (scope_path dir r cid) =
      (if contains ''crio-'' (scope_path dir r cid) \<and> starts_with ''crio-'' (scope_name r cid)
       then map_option (\<lambda>i. \<lparr>id_container_id = i, id_pod_uid = crio_pod_uid (scope_path dir r cid)\<rparr>)
         (Option.bind (strip_prefix ''crio-'' (scope_name r cid)) (strip_suffix ''.scope'')) else None)"
    "parse_containerd (scope_path dir r cid) =
      (if contains ''cri-containerd-'' (scope_path dir r cid) \<and> starts_with ''cri-containerd-'' (scope_name r cid)
       then map_option (\<lambda>i. \<lparr>id_container_id = i, id_pod_uid = None\<rparr>)
         (Option.bind (strip_prefix ''cri-containerd-'' (scope_name r cid)) (strip_suffix ''.scope'')) else None)"
    "parse_docker (scope_path dir r cid) =
      (if contains ''docker-'' (scope_path dir r cid) \<and> starts_with ''docker-'' (scope_name r cid)
       then map_option (\<lambda>i. \<lparr>id_container_id = i, id_pod_uid = None\<rparr>)
         (Option.bind (strip_prefix ''docker-'' (scope_name r cid)) (strip_suffix ''.scope'')) else None)"
    "parse_podman (scope_path dir r cid) =
      (if contains ''libpod-'' (scope_path dir r cid) \<and> starts_with ''libpod-'' (scope_name r cid)
       then map_option (\<lambda>i. \<lparr>id_container_id = i, id_pod_uid = None\<rparr>)
         (Option.bind (strip_prefix ''libpod-'' (scope_name r cid)) (strip_suffix ''.scope'')) else None)"
  unfolding parse_crio_def parse_containerd_def parse_docker_def parse_podman_def
    rfind_scope [OF assms]
  by (simp_all add: scope_path_marks(2) split: option.split)

text \<open>C27: the container id of a scope path is recovered for each of the four runtimes, whatever the
  directory above it (as long as no component of it is itself a scope) and whatever the id, and
  only CRI-O paths carry a pod UID.\<close>

theorem container_id_roundtrip:
  assumes "plain_dir dir" "r \<in> set runtimes" "CHR ''/'' \<notin> set cid"
  shows "parse_container_path (scope_path dir r cid) =
    Some \<lparr>id_container_id = cid,
          id_pod_uid = (if r = ''crio-'' then crio_pod_uid (scope_path dir r cid) else None)\<rparr>"
proof -
  have "CHR ''/'' \<notin> set (scope_name r cid)"
    using assms(2,3) by (auto simp: scope_name_def runtimes_def)
  note eqs = parse_runtime_eqs [OF assms(1) this]
  have "\<forall>r' \<in> set runtimes. starts_with r' (scope_name r cid) \<longleftrightarrow> r' = r"
    using runtimes_disjoint [OF assms(2)] by blast
  then show ?thesis
    using assms(2) scope_path_marks(1) [of r dir cid] strip_scope(1) [of r cid] strip_scope(2) [of cid]
    by (auto simp: parse_container_path_def eqs runtimes_def)
qed

lemma container_id_roundtrip_witness:
  "parse_container_path (scope_path ''user.slice'' ''libpod-'' ''ab12'') =
     Some \<lparr>id_container_id = ''ab12'', id_pod_uid = None\<rparr>"
  using container_id_roundtrip [of "''user.slice''" "''libpod-''" "''ab12''"]
  by (simp add: plain_dir_def runtimes_def ends_with_def suffix_def)

text \<open>The pod UID of a guaranteed-class pod is found; the QoS classes that put a component between
  \<open>kubepods-\<close> and \<open>pod\<close> are not.\<close>

lemma crio_guaranteed_pod:
  "crio_pod_uid ''kubepods.slice/kubepods-pod1a_2b.slice/crio-ff.scope'' = Some ''1a-2b''"
  by (simp add: crio_pod_uid_def ends_with_def suffix_def strip_prefix_def strip_suffix_def replace_char_def)



section \<open>The resolver interface\<close>

text \<open>
  What the worker relies on when it attributes events (\<open>trait CgroupResolver\<close>): inode 0 is never
  looked up, and a path that was returned is returned again, whatever the clock and the file
  system do in between, as long as the resolver's state has not changed.
\<close>

locale cgroup_resolver =
  fixes resolve :: "'e \<Rightarrow> u64 \<Rightarrow> 's \<Rightarrow> string option \<times> 's"
  assumes resolve_zero: "resolve env 0 st = (None, st)"
    and resolve_stable: "resolve env i st = (Some p, st') \<Longrightarrow> resolve env' i st' = (Some p, st')"
begin

lemma resolve_id_zero: "resolve_cgroup_id resolve env 0 st = ((None, None), st)"
  by (simp add: resolve_cgroup_id_def)

lemma resolve_id_pod_has_container:
  "resolve_cgroup_id resolve env i st = ((c, Some u), st') \<Longrightarrow> c \<noteq> None"
  by (auto simp: resolve_cgroup_id_def split: if_splits option.splits prod.splits)

lemma resolve_id_stable:
  assumes "resolve_cgroup_id resolve env i st = ((Some c, u), st')"
  shows "resolve_cgroup_id resolve env' i st' = ((Some c, u), st')"
proof -
  have i: "i \<noteq> 0"
    using assms by (auto simp: resolve_cgroup_id_def)
  obtain p where "resolve env i st = (Some p, st')" "parse_container_path p \<noteq> None"
    "resolve_cgroup_id resolve env i st =
      ((Some (id_container_id (the (parse_container_path p))), id_pod_uid (the (parse_container_path p))), st')"
    using assms i by (auto simp: resolve_cgroup_id_def split: option.splits prod.splits)
  with resolve_stable [OF this(1), of env'] assms i show ?thesis
    by (auto simp: resolve_cgroup_id_def)
qed

end

lemma resolve_inode_hit:
  "resolve_inode env i c = (Some p, c') \<Longrightarrow> i \<noteq> 0 \<and> map_of (ino_map c') i = Some p"
  by (auto simp: resolve_inode_def Let_def split: if_splits option.splits)

interpretation default_resolver: cgroup_resolver resolve_inode
proof unfold_locales
  fix env env' i st st' p
  show "resolve_inode env 0 st = (None, st)"
    by (simp add: resolve_inode_def)
  assume "resolve_inode env i st = (Some p, st')"
  then show "resolve_inode env' i st' = (Some p, st')"
    by (auto simp: resolve_inode_def [of env'] dest!: resolve_inode_hit)
qed

text \<open>An attribution is stable: once a cgroup id has been attributed to a container, looking it up
  again gives the same container and pod and does not touch the caches, whatever has happened to
  the clock and the cgroup tree.\<close>

theorem attribution_stable:
  assumes "resolve_cgroup_id resolve_inode env i c = ((Some cid, uid), c')"
  shows "resolve_cgroup_id resolve_inode env' i c' = ((Some cid, uid), c')"
  by (rule default_resolver.resolve_id_stable [OF assms])

text \<open>A lookup that misses is answered from the negative cache for the next five seconds: the
  cgroup tree is not walked again and the answer stays \<open>None\<close> even if the cgroup appears.\<close>

theorem negative_cache:
  assumes "resolve_inode (t, root) i c = (None, c')" "i \<noteq> 0"
    and "t \<le> t'" "t' < t + 5000000000"
    and "map_of (negative c) i = None"
  shows "resolve_inode (t', root') i c' = (None, c')"
proof -
  have "map_of (negative c') i = Some t" "map_of (ino_map c') i = None"
    using assms(1,2,5) by (auto simp: resolve_inode_def Let_def split: if_splits option.splits)
  moreover have "recently_missed t' t"
    using assms(3,4) by (simp add: recently_missed_def less_mult_imp_div_less)
  ultimately show ?thesis
    using assms(2) by (simp add: resolve_inode_def)
qed

definition sample_cgroups :: FsNode where
  "sample_cgroups = FsNode 1 True False (Some [(''user.slice'', FsNode 2 True False
     (Some [(''docker-ab.scope'', FsNode 3 True False (Some []))]))])"

lemma sample_walk: "walk_cgroup_tree (Some sample_cgroups) =
    Some [(3, ''user.slice/docker-ab.scope''), (2, ''user.slice'')]"
  by (simp add: walk_cgroup_tree_def sample_cgroups_def hm_insert_def)

lemma attribution_stable_witness:
  "resolve_cgroup_id resolve_inode (9, None) 3
     (snd (resolve_cgroup_id resolve_inode (0, Some sample_cgroups) 3 resolver_new)) =
   ((Some ''ab'', None), resolver_new\<lparr>ino_map := [(3, ''user.slice/docker-ab.scope''), (2, ''user.slice'')],
      last_walk := Some 0\<rparr>)"
proof -
  let ?c = "resolver_new\<lparr>ino_map := [(3, ''user.slice/docker-ab.scope''), (2, ''user.slice'')], last_walk := Some 0\<rparr>"
  have "parse_container_path ''user.slice/docker-ab.scope'' = Some \<lparr>id_container_id = ''ab'', id_pod_uid = None\<rparr>"
    by (simp add: parse_container_path_def parse_crio_def parse_containerd_def parse_docker_def ends_with_def
        suffix_def starts_with_def rfind_def strip_prefix_def strip_suffix_def)
  then have first: "resolve_cgroup_id resolve_inode (0, Some sample_cgroups) 3 resolver_new = ((Some ''ab'', None), ?c)"
    by (simp add: resolve_cgroup_id_def resolve_inode_def resolver_new_def sample_walk Let_def kv_remove_def)
  show ?thesis
    using attribution_stable [OF first, of "(9, None)"] by (simp add: first)
qed

lemma negative_cache_witness:
  "resolve_inode (7, Some sample_cgroups) 3 (snd (resolve_inode (2, None) 3 resolver_new)) =
     (None, snd (resolve_inode (2, None) 3 resolver_new))"
proof (rule negative_cache [where t = 2 and root = None and c = resolver_new])
  show "resolve_inode (2, None) 3 resolver_new = (None, snd (resolve_inode (2, None) 3 resolver_new))"
    by (simp add: resolve_inode_def resolver_new_def walk_cgroup_tree_def Let_def)
qed (simp_all add: resolver_new_def)

end
