(* ===== verification/Events.thy ===== *)
theory Events
  imports Hello_Parser Ja4 Correlate Certificate Containers
begin

text \<open>
  \<open>crates/tls-probe-cli/src/tls.rs\<close>: the event a capture is reported as.

  The wall-clock text of an event (\<open>chrono::Utc::now().to_rfc3339()\<close>) and the SHA-256 digest
  are parameters; serialisation to JSON is not part of this theory.
\<close>

section \<open>Name tables\<close>

definition table_name :: "('k \<times> string) list \<Rightarrow> 'k \<Rightarrow> string" where
  "table_name t k = (case map_of t k of None \<Rightarrow> ''unknown'' | Some s \<Rightarrow> s)"

definition key_exchange_table :: "(u16 \<times> string) list" where
  "key_exchange_table =
     [(0x0017, ''secp256r1''),
      (0x0018, ''secp384r1''),
      (0x0019, ''secp521r1''),
      (0x001D, ''x25519''),
      (0x001E, ''x448''),
      (0x0100, ''ffdhe2048''),
      (0x0101, ''ffdhe3072''),
      (0x0102, ''ffdhe4096''),
      (0x0103, ''ffdhe6144''),
      (0x0104, ''ffdhe8192''),
      (0x0200, ''MLKEM512''),
      (0x0201, ''MLKEM768''),
      (0x0202, ''MLKEM1024''),
      (0x11E9, ''SecP256r1MLKEM512''),
      (0x11EA, ''MLKEM512X25519''),
      (0x11EB, ''SecP256r1MLKEM768''),
      (0x11EC, ''X25519MLKEM768''),
      (0x11ED, ''SecP384r1MLKEM1024''),
      (0x6399, ''X25519Kyber768Draft00''),
      (0x639A, ''SecP256r1Kyber768Draft00'')]"

definition cipher_suite_table :: "(u16 \<times> string) list" where
  "cipher_suite_table =
     [(0x1301, ''TLS_AES_128_GCM_SHA256''),
      (0x1302, ''TLS_AES_256_GCM_SHA384''),
      (0x1303, ''TLS_CHACHA20_POLY1305_SHA256''),
      (0x1304, ''TLS_AES_128_CCM_SHA256''),
      (0x1305, ''TLS_AES_128_CCM_8_SHA256''),
      (0xC02B, ''TLS_ECDHE_ECDSA_WITH_AES_128_GCM_SHA256''),
      (0xC02C, ''TLS_ECDHE_ECDSA_WITH_AES_256_GCM_SHA384''),
      (0xC02F, ''TLS_ECDHE_RSA_WITH_AES_128_GCM_SHA256''),
      (0xC030, ''TLS_ECDHE_RSA_WITH_AES_256_GCM_SHA384''),
      (0xC023, ''TLS_ECDHE_ECDSA_WITH_AES_128_CBC_SHA256''),
      (0xC024, ''TLS_ECDHE_ECDSA_WITH_AES_256_CBC_SHA384''),
      (0xC027, ''TLS_ECDHE_RSA_WITH_AES_128_CBC_SHA256''),
      (0xC028, ''TLS_ECDHE_RSA_WITH_AES_256_CBC_SHA384''),
      (0xC009, ''TLS_ECDHE_ECDSA_WITH_AES_128_CBC_SHA''),
      (0xC00A, ''TLS_ECDHE_ECDSA_WITH_AES_256_CBC_SHA''),
      (0xC013, ''TLS_ECDHE_RSA_WITH_AES_128_CBC_SHA''),
      (0xC014, ''TLS_ECDHE_RSA_WITH_AES_256_CBC_SHA''),
      (0xCCA8, ''TLS_ECDHE_RSA_WITH_CHACHA20_POLY1305_SHA256''),
      (0xCCA9, ''TLS_ECDHE_ECDSA_WITH_CHACHA20_POLY1305_SHA256''),
      (0xC008, ''TLS_ECDHE_ECDSA_WITH_3DES_EDE_CBC_SHA''),
      (0xC012, ''TLS_ECDHE_RSA_WITH_3DES_EDE_CBC_SHA''),
      (0xC007, ''TLS_ECDHE_ECDSA_WITH_RC4_128_SHA''),
      (0xC011, ''TLS_ECDHE_RSA_WITH_RC4_128_SHA''),
      (0x009E, ''TLS_DHE_RSA_WITH_AES_128_GCM_SHA256''),
      (0x009F, ''TLS_DHE_RSA_WITH_AES_256_GCM_SHA384''),
      (0x0067, ''TLS_DHE_RSA_WITH_AES_128_CBC_SHA256''),
      (0x006B, ''TLS_DHE_RSA_WITH_AES_256_CBC_SHA256''),
      (0x0033, ''TLS_DHE_RSA_WITH_AES_128_CBC_SHA''),
      (0x0039, ''TLS_DHE_RSA_WITH_AES_256_CBC_SHA''),
      (0xCCAA, ''TLS_DHE_RSA_WITH_CHACHA20_POLY1305_SHA256''),
      (0x00A2, ''TLS_DHE_DSS_WITH_AES_128_GCM_SHA256''),
      (0x00A3, ''TLS_DHE_DSS_WITH_AES_256_GCM_SHA384''),
      (0x0040, ''TLS_DHE_DSS_WITH_AES_128_CBC_SHA256''),
      (0x006A, ''TLS_DHE_DSS_WITH_AES_256_CBC_SHA256''),
      (0x0032, ''TLS_DHE_DSS_WITH_AES_128_CBC_SHA''),
      (0x0038, ''TLS_DHE_DSS_WITH_AES_256_CBC_SHA''),
      (0x009C, ''TLS_RSA_WITH_AES_128_GCM_SHA256''),
      (0x009D, ''TLS_RSA_WITH_AES_256_GCM_SHA384''),
      (0x002F, ''TLS_RSA_WITH_AES_128_CBC_SHA''),
      (0x0035, ''TLS_RSA_WITH_AES_256_CBC_SHA''),
      (0x003C, ''TLS_RSA_WITH_AES_128_CBC_SHA256''),
      (0x003D, ''TLS_RSA_WITH_AES_256_CBC_SHA256''),
      (0x000A, ''TLS_RSA_WITH_3DES_EDE_CBC_SHA''),
      (0x0005, ''TLS_RSA_WITH_RC4_128_SHA''),
      (0x0004, ''TLS_RSA_WITH_RC4_128_MD5''),
      (0x00FF, ''TLS_EMPTY_RENEGOTIATION_INFO_SCSV''),
      (0x5600, ''TLS_FALLBACK_SCSV'')]"

definition signature_algorithm_table :: "(u16 \<times> string) list" where
  "signature_algorithm_table =
     [(0x0201, ''rsa_pkcs1_sha1''),
      (0x0202, ''dsa_sha1''),
      (0x0203, ''ecdsa_sha1''),
      (0x0301, ''rsa_pkcs1_sha224''),
      (0x0302, ''dsa_sha224''),
      (0x0303, ''ecdsa_sha224''),
      (0x0401, ''rsa_pkcs1_sha256''),
      (0x0402, ''dsa_sha256''),
      (0x0403, ''ecdsa_secp256r1_sha256''),
      (0x0501, ''rsa_pkcs1_sha384''),
      (0x0502, ''dsa_sha384''),
      (0x0503, ''ecdsa_secp384r1_sha384''),
      (0x0601, ''rsa_pkcs1_sha512''),
      (0x0602, ''dsa_sha512''),
      (0x0603, ''ecdsa_secp521r1_sha512''),
      (0x0804, ''rsa_pss_rsae_sha256''),
      (0x0805, ''rsa_pss_rsae_sha384''),
      (0x0806, ''rsa_pss_rsae_sha512''),
      (0x0807, ''ed25519''),
      (0x0808, ''ed448''),
      (0x0809, ''rsa_pss_pss_sha256''),
      (0x080A, ''rsa_pss_pss_sha384''),
      (0x080B, ''rsa_pss_pss_sha512''),
      (0x081A, ''ecdsa_brainpoolP256r1tls13_sha256''),
      (0x081B, ''ecdsa_brainpoolP384r1tls13_sha384''),
      (0x081C, ''ecdsa_brainpoolP512r1tls13_sha512''),
      (0x0904, ''mldsa44''),
      (0x0905, ''mldsa65''),
      (0x0906, ''mldsa87'')]"

definition alert_description_table :: "(u8 \<times> string) list" where
  "alert_description_table =
     [(0, ''close_notify(0)''),
      (10, ''unexpected_message(10)''),
      (20, ''bad_record_mac(20)''),
      (22, ''record_overflow(22)''),
      (40, ''handshake_failure(40)''),
      (42, ''bad_certificate(42)''),
      (43, ''unsupported_certificate(43)''),
      (44, ''certificate_revoked(44)''),
      (45, ''certificate_expired(45)''),
      (46, ''certificate_unknown(46)''),
      (47, ''illegal_parameter(47)''),
      (48, ''unknown_ca(48)''),
      (49, ''access_denied(49)''),
      (50, ''decode_error(50)''),
      (51, ''decrypt_error(51)''),
      (70, ''protocol_version(70)''),
      (71, ''insufficient_security(71)''),
      (80, ''internal_error(80)''),
      (86, ''inappropriate_fallback(86)''),
      (90, ''user_canceled(90)''),
      (109, ''missing_extension(109)''),
      (110, ''unsupported_extension(110)''),
      (112, ''unrecognized_name(112)''),
      (113, ''bad_certificate_status_response(113)''),
      (115, ''unknown_psk_identity(115)''),
      (116, ''certificate_required(116)''),
      (120, ''no_application_protocol(120)'')]"

definition tls_is_grease :: "u16 \<Rightarrow> bool" where
  "tls_is_grease value =
     (let hi = (ucast (drop_bit 8 value) :: u8);
          lo = (ucast (value AND 0xFF) :: u8)
      in hi = lo \<and> hi AND 0x0F = 0x0A)"

definition tls_version_str :: "u16 \<Rightarrow> string" where
  "tls_version_str v =
     (if v = 0x0304 then ''TLS 1.3''
      else if v = 0x0303 then ''TLS 1.2''
      else if v = 0x0302 then ''TLS 1.1''
      else if v = 0x0301 then ''TLS 1.0''
      else if v = 0x0300 then ''SSL 3.0''
      else ''Unknown'')"

definition key_exchange_name :: "u16 \<Rightarrow> string" where
  "key_exchange_name i = (if tls_is_grease i then ''GREASE'' else table_name key_exchange_table i)"

definition cipher_suite_name :: "u16 \<Rightarrow> string" where
  "cipher_suite_name i = (if tls_is_grease i then ''GREASE'' else table_name cipher_suite_table i)"

definition signature_algorithm_name :: "u16 \<Rightarrow> string" where
  "signature_algorithm_name i =
     (if tls_is_grease i then ''GREASE'' else table_name signature_algorithm_table i)"

definition alert_level_name :: "u8 \<Rightarrow> string" where
  "alert_level_name level =
     (if level = 1 then ''warning'' else if level = 2 then ''fatal''
      else ''unknown('' @ dec (unat level) @ '')'')"

definition alert_description_name :: "u8 \<Rightarrow> string" where
  "alert_description_name d =
     (case map_of alert_description_table d of
        Some s \<Rightarrow> s | None \<Rightarrow> ''unknown('' @ dec (unat d) @ '')'')"

definition handshake_type_name :: "u8 \<Rightarrow> string" where
  "handshake_type_name ht =
     (if ht = TLS_HANDSHAKE_CLIENT_HELLO then ''ClientHello''
      else if ht = TLS_HANDSHAKE_SERVER_HELLO then ''ServerHello''
      else if ht = 0x04 then ''NewSessionTicket''
      else if ht = 0x08 then ''EncryptedExtensions''
      else if ht = 0x0B then ''Certificate''
      else if ht = 0x0D then ''CertificateRequest''
      else if ht = 0x0F then ''CertificateVerify''
      else if ht = 0x14 then ''Finished''
      else ''Unknown'')"

section \<open>Events\<close>

record Resumption =
  rp_psk_offered :: bool
  rp_early_data_offered :: bool
  rp_psk_selected :: bool
  rp_session_ticket_offered :: bool

text \<open>\<open>CipherSuiteInfo\<close>, \<open>KeyExchangeInfo\<close> and \<open>SignatureAlgorithmInfo\<close>: a code point and its name.\<close>

record CodeInfo =
  cd_id :: u16
  cd_name :: string

record CaptureEvent =
  ev_schema_version :: string
  ev_timestamp :: string
  ev_timestamp_ns :: u64
  ev_src :: string
  ev_dst :: string
  ev_tls_version :: string
  ev_handshake_type :: string
  ev_cipher_suites :: "CodeInfo list"
  ev_key_exchange_groups :: "CodeInfo list"
  ev_signature_algorithms :: "CodeInfo list"
  ev_signature_algorithms_cert :: "CodeInfo list option"
  ev_key_share_group :: "CodeInfo option"
  ev_sni :: "string option"
  ev_process_name :: "string option"
  ev_pid :: "u32 option"
  ev_reassembled :: "bool option"
  ev_truncated :: "bool option"
  ev_alert_level :: "string option"
  ev_alert_description :: "string option"
  ev_negotiation :: "Negotiation option"
  ev_resumption :: "Resumption option"
  ev_cgroup_id :: "u64 option"
  ev_container_id :: "string option"
  ev_pod_uid :: "string option"
  ev_ja4 :: "string option"
  ev_certificate :: "Certificate option"

definition endpoint :: "string \<Rightarrow> u16 \<Rightarrow> string" where
  "endpoint addr port = addr @ '':'' @ dec (unat port)"

definition process_attribution :: "RawTlsCapture \<Rightarrow> string option \<times> u32 option" where
  "process_attribution c =
     (if pid c = 0 then (None, None)
      else (Some (from_utf8_lossy (takeWhile (\<lambda>b. b \<noteq> 0) (comm c))), Some (pid c)))"

definition build_alert_event :: "string \<Rightarrow> RawTlsCapture \<Rightarrow> u8 \<Rightarrow> u8 \<Rightarrow> CaptureEvent" where
  "build_alert_event now c alert_level alert_description =
     (let (process_name, p) = process_attribution c in
      \<lparr>ev_schema_version = ''1'', ev_timestamp = now, ev_timestamp_ns = timestamp_ns c,
       ev_src = endpoint (src_addr_str c) (src_port c),
       ev_dst = endpoint (dst_addr_str c) (dst_port c),
       ev_tls_version = tls_version_str (record_version c), ev_handshake_type = ''Alert'',
       ev_cipher_suites = [], ev_key_exchange_groups = [], ev_signature_algorithms = [],
       ev_signature_algorithms_cert = None, ev_key_share_group = None, ev_sni = None,
       ev_process_name = process_name, ev_pid = p, ev_reassembled = None, ev_truncated = None,
       ev_alert_level = Some (alert_level_name alert_level),
       ev_alert_description = Some (alert_description_name alert_description),
       ev_negotiation = None, ev_resumption = None, ev_cgroup_id = None, ev_container_id = None,
       ev_pod_uid = None, ev_ja4 = None, ev_certificate = None\<rparr>)"

definition build_fallback_analysis :: "string \<Rightarrow> RawTlsCapture \<Rightarrow> CaptureEvent" where
  "build_fallback_analysis now c =
     (let (process_name, p) = process_attribution c in
      \<lparr>ev_schema_version = ''1'', ev_timestamp = now, ev_timestamp_ns = timestamp_ns c,
       ev_src = endpoint (src_addr_str c) (src_port c),
       ev_dst = endpoint (dst_addr_str c) (dst_port c),
       ev_tls_version = tls_version_str (record_version c),
       ev_handshake_type = handshake_type_name (handshake_type c),
       ev_cipher_suites = [], ev_key_exchange_groups = [], ev_signature_algorithms = [],
       ev_signature_algorithms_cert = None, ev_key_share_group = None, ev_sni = None,
       ev_process_name = process_name, ev_pid = p, ev_reassembled = None, ev_truncated = None,
       ev_alert_level = None, ev_alert_description = None,
       ev_negotiation = None, ev_resumption = None, ev_cgroup_id = None, ev_container_id = None,
       ev_pod_uid = None, ev_ja4 = None, ev_certificate = None\<rparr>)"

definition code_infos :: "(u16 \<Rightarrow> string) \<Rightarrow> u16 list \<Rightarrow> CodeInfo list" where
  "code_infos name ids = map (\<lambda>i. \<lparr>cd_id = i, cd_name = name i\<rparr>) ids"

primrec resumption_of :: "TlsAnalysis \<Rightarrow> Resumption option" where
  "resumption_of (ClientHelloA _ h) =
     (if ch_psk_offered h \<or> ch_early_data_offered h \<or> ch_psk_key_exchange_modes_offered h \<or>
         ch_session_ticket_offered h
      then Some \<lparr>rp_psk_offered = ch_psk_offered h, rp_early_data_offered = ch_early_data_offered h,
                 rp_psk_selected = False, rp_session_ticket_offered = ch_session_ticket_offered h\<rparr>
      else None)"
| "resumption_of (ServerHelloA _ h) =
     (if sh_psk_selected h
      then Some \<lparr>rp_psk_offered = False, rp_early_data_offered = False,
                 rp_psk_selected = sh_psk_selected h, rp_session_ticket_offered = False\<rparr>
      else None)"

definition build_analysis ::
  "(string \<Rightarrow> string) \<Rightarrow> string \<Rightarrow> RawTlsCapture \<Rightarrow> TlsAnalysis \<Rightarrow> CaptureEvent" where
  "build_analysis sha now c parsed =
     (let (process_name, p) = process_attribution c in
      \<lparr>ev_schema_version = ''1'', ev_timestamp = now, ev_timestamp_ns = timestamp_ns c,
       ev_src = endpoint (src_addr_str c) (src_port c),
       ev_dst = endpoint (dst_addr_str c) (dst_port c),
       ev_tls_version = tls_version_str (effective_version parsed),
       ev_handshake_type = handshake_type_name (handshake_type c),
       ev_cipher_suites = code_infos cipher_suite_name (cipher_suites parsed),
       ev_key_exchange_groups = code_infos key_exchange_name (key_exchange_groups parsed),
       ev_signature_algorithms = code_infos signature_algorithm_name (signature_algorithms parsed),
       ev_signature_algorithms_cert =
         (case parsed of
            ClientHelloA _ h \<Rightarrow>
              if ch_signature_algorithms_cert h \<noteq> []
              then Some (code_infos signature_algorithm_name (ch_signature_algorithms_cert h)) else None
          | ServerHelloA _ _ \<Rightarrow> None),
       ev_key_share_group =
         (case parsed of
            ClientHelloA _ h \<Rightarrow>
              (case ch_key_share_groups h of
                 [] \<Rightarrow> None | g # _ \<Rightarrow> Some \<lparr>cd_id = g, cd_name = key_exchange_name g\<rparr>)
          | ServerHelloA _ h \<Rightarrow>
              map_option (\<lambda>g. \<lparr>cd_id = g, cd_name = key_exchange_name g\<rparr>) (sh_key_share_group h)),
       ev_sni = analysis_sni parsed,
       ev_process_name = process_name, ev_pid = p, ev_reassembled = None, ev_truncated = None,
       ev_alert_level = None, ev_alert_description = None,
       ev_negotiation = None, ev_resumption = resumption_of parsed, ev_cgroup_id = None,
       ev_container_id = None, ev_pod_uid = None,
       ev_ja4 = (case parsed of ClientHelloA _ h \<Rightarrow> Some (ja4 sha h) | ServerHelloA _ _ \<Rightarrow> None),
       ev_certificate = None\<rparr>)"

definition parse_alert :: "bytes \<Rightarrow> (u8 \<times> u8) option" where
  "parse_alert p = (if length p \<ge> 7 \<and> p ! 0 = 0x15 then Some (p ! 5, p ! 6) else None)"

definition analyze_capture_with_payload ::
  "(string \<Rightarrow> string) \<Rightarrow> string \<Rightarrow> RawTlsCapture \<Rightarrow> bytes \<Rightarrow> (ParseError, CaptureEvent) run" where
  "analyze_capture_with_payload sha now c p =
     (if content_type c = 0x15 then
        (case parse_alert p of
           Some (level, description) \<Rightarrow> Ret (build_alert_event now c level description)
         | None \<Rightarrow> Ret (build_fallback_analysis now c))
      else
        (case parse_tls_payload p (cap_is_client_hello c) of
           Ret analysis \<Rightarrow> Ret (build_analysis sha now c analysis)
         | Fail _ \<Rightarrow> Ret (build_fallback_analysis now c)
         | Panic \<Rightarrow> Panic))"

definition analyze_capture ::
  "(string \<Rightarrow> string) \<Rightarrow> string \<Rightarrow> RawTlsCapture \<Rightarrow> (ParseError, CaptureEvent) run" where
  "analyze_capture sha now c = analyze_capture_with_payload sha now c (payload_slice c)"

definition enrich_with_cgroup ::
  "('e \<Rightarrow> u64 \<Rightarrow> 's \<Rightarrow> string option \<times> 's) \<Rightarrow> 'e \<Rightarrow> RawTlsCapture \<Rightarrow> CaptureEvent \<Rightarrow> 's \<Rightarrow> CaptureEvent \<times> 's" where
  "enrich_with_cgroup resolve env c ev st =
     (if cgroup_id c = 0 then (ev, st)
      else
        (case resolve_cgroup_id resolve env (cgroup_id c) st of
           ((cid, uid), st') \<Rightarrow>
             (ev\<lparr>ev_cgroup_id := Some (cgroup_id c), ev_container_id := cid, ev_pod_uid := uid\<rparr>, st')))"

section \<open>Properties\<close>

lemma tls_is_grease_eq: "tls_is_grease = is_grease"
  by (simp add: fun_eq_iff tls_is_grease_def is_grease_def)

text \<open>Every capture, whatever its payload, gives exactly one event: the analysis neither panics nor
  fails.  The event carries the capture's endpoints, kernel time stamp and process attribution,
  and no negotiation, certificate or container yet.\<close>

lemma analysis_event:
  "\<exists>ev. analyze_capture_with_payload sha now c p = Ret ev \<and>
     ev_src ev = endpoint (src_addr_str c) (src_port c) \<and>
     ev_dst ev = endpoint (dst_addr_str c) (dst_port c) \<and>
     ev_timestamp_ns ev = timestamp_ns c \<and>
     (ev_process_name ev, ev_pid ev) = process_attribution c \<and>
     ev_negotiation ev = None \<and> ev_certificate ev = None \<and> ev_container_id ev = None"
proof -
  have "parse_tls_payload p (cap_is_client_hello c) \<noteq> Panic"
    by (rule parse_payload_not_Panic)
  then show ?thesis
    by (cases "parse_tls_payload p (cap_is_client_hello c)"; cases "process_attribution c"; cases "parse_alert p")
      (auto simp: analyze_capture_with_payload_def build_alert_event_def build_fallback_analysis_def
        build_analysis_def)
qed

text \<open>The two copies of the key exchange table agree: a group is reported under the same name in
  the event's own fields and in the negotiation the correlator attaches.\<close>

theorem group_names_agree: "key_exchange_name g = correlate_key_exchange_name g"
  unfolding key_exchange_name_def correlate_key_exchange_name_def table_name_def key_exchange_table_def
    tls_is_grease_eq
  by simp

text \<open>Every post-quantum group the shared code tables classify as such is reported by name, never
  as unknown or GREASE.\<close>

theorem pqc_groups_named:
  assumes "is_pqc_group g"
  shows "key_exchange_name g \<notin> {''unknown'', ''GREASE''}"
  using assms unfolding is_pqc_group_iff
  by (auto simp: pqc_groups_def key_exchange_name_def table_name_def key_exchange_table_def
      tls_is_grease_def code_consts)

lemma pqc_groups_named_witness: "key_exchange_name 0x11EC \<notin> {''unknown'', ''GREASE''}"
  by (rule pqc_groups_named) (simp add: is_pqc_group_iff pqc_groups_def code_consts)

lemma cipher_table_distinct:
  "distinct (map fst cipher_suite_table)" "distinct (map snd cipher_suite_table)"
  "''unknown'' \<notin> snd ` set cipher_suite_table" "''GREASE'' \<notin> snd ` set cipher_suite_table"
  by (simp_all add: cipher_suite_table_def)

lemma cipher_table_no_grease: "a \<in> fst ` set cipher_suite_table \<Longrightarrow> \<not> tls_is_grease a"
  by (auto simp: cipher_suite_table_def tls_is_grease_def)

lemma map_of_inj_on_values:
  assumes "distinct (map snd t)" "map_of t a = Some s" "map_of t b = Some s"
  shows "a = b"
  using assms
proof (induction t)
  case (Cons x t)
  then show ?case
    by (cases x) (auto split: if_splits dest: map_of_SomeD intro: rev_image_eqI)
qed simp

text \<open>Cipher suite names are unambiguous: two suites of the table that are reported under the same
  name are the same suite.\<close>

theorem cipher_names_unambiguous:
  assumes "a \<in> fst ` set cipher_suite_table" "b \<in> fst ` set cipher_suite_table"
    and "cipher_suite_name a = cipher_suite_name b"
  shows "a = b"
proof -
  obtain s t where st: "map_of cipher_suite_table a = Some s" "map_of cipher_suite_table b = Some t"
    using assms(1,2) by (metis map_of_eq_None_iff not_None_eq)
  then have "s = t"
    using assms cipher_table_no_grease by (simp add: cipher_suite_name_def table_name_def)
  with st show ?thesis
    using map_of_inj_on_values [OF cipher_table_distinct(2)] by blast
qed

lemma cipher_names_unambiguous_witness:
  "cipher_suite_name 0x1301 \<noteq> cipher_suite_name 0x1302"
proof
  assume "cipher_suite_name 0x1301 = cipher_suite_name 0x1302"
  then have "(0x1301 :: u16) = 0x1302"
    by (intro cipher_names_unambiguous) (simp_all add: cipher_suite_table_def)
  then show False
    by simp
qed

end
