(* ===== verification/Record_Walk.thy ===== *)
theory Record_Walk
  imports Events
begin

text \<open>
  \<open>crates/tls-probe-cli/src/record_walk.rs\<close>: the records that follow a ServerHello in the same
  captured payload.  The walk is a loop over an offset with checked reads; \<open>walk_of\<close> is its
  offset-free reading.
\<close>

definition MAX_RECORDS_TO_WALK :: nat where "MAX_RECORDS_TO_WALK = 4"

record ExtractedRecord =
  er_version :: u16
  er_body :: bytes
  er_truncated :: bool

function walk_loop :: "bytes \<Rightarrow> nat \<Rightarrow> nat \<Rightarrow> ExtractedRecord list \<Rightarrow> (unit, ExtractedRecord list) run" where
  "walk_loop p offset record_count records =
     (if offset + 5 \<le> length p \<and> record_count < MAX_RECORDS_TO_WALK then
        rbind (idx p offset) (\<lambda>content_type.
        rbind (rd16 p (offset + 1)) (\<lambda>version.
        rbind (rd16 p (offset + 3)) (\<lambda>l.
        let body_start = offset + 5; body_end = body_start + unat l; truncated = body_end > length p in
        rbind (if truncated then subslice p body_start (length p) else subslice p body_start body_end) (\<lambda>body.
        if content_type = 0x16 \<and> body \<noteq> [] then
          rbind (idx body 0) (\<lambda>handshake_type.
            let records' =
              (if handshake_type = 0x0B \<or> handshake_type = 0x0D
               then records @ [\<lparr>er_version = version, er_body = body, er_truncated = truncated\<rparr>]
               else records)
            in if truncated then Ret records' else walk_loop p body_end (record_count + 1) records')
        else if content_type \<noteq> 0x16 then Ret records
        else if truncated then Ret records
        else walk_loop p body_end (record_count + 1) records))))
      else Ret records)"
  by pat_completeness auto
termination
  by (relation "measure (\<lambda>(_, _, n, _). MAX_RECORDS_TO_WALK - n)") auto

declare walk_loop.simps [simp del]

definition walk_records :: "bytes \<Rightarrow> (unit, ExtractedRecord list) run" where
  "walk_records p =
     (if length p < 5 + 1 then Ret []
      else rbind (rd16 p 3) (\<lambda>l. walk_loop p (5 + unat l) 0 []))"

definition walk_tls_version_name :: "u16 \<Rightarrow> string" where
  "walk_tls_version_name v =
     (if v = 0x0304 then ''TLS 1.3''
      else if v = 0x0303 then ''TLS 1.2''
      else if v = 0x0302 then ''TLS 1.1''
      else if v = 0x0301 then ''TLS 1.0''
      else if v = 0x0300 then ''SSL 3.0''
      else ''Unknown'')"

definition walk_handshake_type_name :: "u8 \<Rightarrow> string" where
  "walk_handshake_type_name ht =
     (if ht = 0x0B then ''Certificate'' else if ht = 0x0D then ''CertificateRequest'' else ''Unknown'')"

definition record_handshake_type :: "ExtractedRecord \<Rightarrow> u8" where
  "record_handshake_type r = (case er_body r of [] \<Rightarrow> 0x00 | b # _ \<Rightarrow> b)"

definition synthesize_event_from_walked_record ::
  "string \<Rightarrow> RawTlsCapture \<Rightarrow> ExtractedRecord \<Rightarrow> CaptureEvent \<times> u8" where
  "synthesize_event_from_walked_record now c r =
     (let ht = record_handshake_type r in
      (\<lparr>ev_schema_version = ''1'', ev_timestamp = now, ev_timestamp_ns = timestamp_ns c,
        ev_src = endpoint (src_addr_str c) (src_port c),
        ev_dst = endpoint (dst_addr_str c) (dst_port c),
        ev_tls_version = walk_tls_version_name (er_version r),
        ev_handshake_type = walk_handshake_type_name ht,
        ev_cipher_suites = [], ev_key_exchange_groups = [], ev_signature_algorithms = [],
        ev_signature_algorithms_cert = None, ev_key_share_group = None, ev_sni = None,
        ev_process_name =
          (if pid c = 0 then None else Some (from_utf8_lossy (takeWhile (\<lambda>b. b \<noteq> 0) (comm c)))),
        ev_pid = (if pid c = 0 then None else Some (pid c)),
        ev_reassembled = None, ev_truncated = Some (er_truncated r),
        ev_alert_level = None, ev_alert_description = None, ev_negotiation = None,
        ev_resumption = None, ev_cgroup_id = None, ev_container_id = None, ev_pod_uid = None,
        ev_ja4 = None, ev_certificate = None\<rparr>, ht))"

section \<open>The offset-free reading\<close>

definition is_cert_body :: "bytes \<Rightarrow> bool" where
  "is_cert_body b = (b \<noteq> [] \<and> (hd b = 0x0B \<or> hd b = 0x0D))"

primrec walk_of :: "nat \<Rightarrow> bytes \<Rightarrow> ExtractedRecord list" where
  "walk_of 0 d = []"
| "walk_of (Suc n) d =
     (let len = unat (be16 (d ! 3) (d ! 4)); body = take len (drop 5 d) in
      if length d < 5 \<or> d ! 0 \<noteq> 0x16 then []
      else
        (if is_cert_body body
         then [\<lparr>er_version = be16 (d ! 1) (d ! 2), er_body = body, er_truncated = length d < 5 + len\<rparr>]
         else []) @
        (if length d < 5 + len then [] else walk_of n (drop (5 + len) d)))"

lemma walk_loop_eq:
  "walk_loop p offset n acc = Ret (acc @ walk_of (MAX_RECORDS_TO_WALK - n) (drop offset p))"
proof (induction "MAX_RECORDS_TO_WALK - n" arbitrary: offset n acc)
  case 0
  then show ?case
    by (simp add: walk_loop.simps [of p offset n])
next
  case (Suc m)
  define d where "d = drop offset p"
  show ?case
  proof (cases "offset + 5 \<le> length p \<and> n < MAX_RECORDS_TO_WALK")
    case False
    moreover have "n < MAX_RECORDS_TO_WALK"
      using Suc.hyps(2) by simp
    moreover from calculation have "length p - offset < 5"
      by linarith
    ultimately show ?thesis
      by (simp add: walk_loop.simps [of p offset n] Let_def flip: Suc.hyps(2))
  next
    case True
    define len where "len = unat (be16 (p ! (offset + 3)) (p ! (offset + 4)))"
    define body where "body = take len (drop (offset + 5) p)"
    define trunc where "trunc = (length p < offset + 5 + len)"
    let ?acc = "if is_cert_body body
      then acc @ [\<lparr>er_version = be16 (p ! (offset + 1)) (p ! (offset + 2)), er_body = body, er_truncated = trunc\<rparr>]
      else acc"
    have sub: "(if trunc then subslice p (offset + 5) (length p) else subslice p (offset + 5) (offset + 5 + len)) =
        (Ret body :: (unit, bytes) run)"
      using True by (auto simp: trunc_def body_def subslice_in)
    have reads: "idx p offset = (Ret (p ! offset) :: (unit, u8) run)"
      "rd16 p (offset + 1) = (Ret (be16 (p ! (offset + 1)) (p ! (offset + 2))) :: (unit, u16) run)"
      "rd16 p (offset + 3) = (Ret (be16 (p ! (offset + 3)) (p ! (offset + 4))) :: (unit, u16) run)"
      using True by (simp_all add: idx_in rd16_in numeral_eq_Suc)
    have loop: "walk_loop p offset n acc =
        (if p ! offset \<noteq> 0x16 then Ret acc else if trunc then Ret ?acc
         else walk_loop p (offset + 5 + len) (n + 1) ?acc)"
    proof -
      have "walk_loop p offset n acc =
          (if p ! offset = 0x16 \<and> body \<noteq> [] then
             rbind (idx body 0) (\<lambda>ht.
               let records' = (if ht = 0x0B \<or> ht = 0x0D
                 then acc @ [\<lparr>er_version = be16 (p ! (offset + 1)) (p ! (offset + 2)), er_body = body,
                   er_truncated = trunc\<rparr>] else acc)
               in if trunc then Ret records' else walk_loop p (offset + 5 + len) (n + 1) records')
           else if p ! offset \<noteq> 0x16 then Ret acc
           else if trunc then Ret acc
           else walk_loop p (offset + 5 + len) (n + 1) acc)"
        by (subst walk_loop.simps)
          (simp only: True reads rbind.simps Let_def if_True simp_thms len_def [symmetric]
            trunc_def [symmetric] sub)
      then show ?thesis
        by (cases body) (simp_all add: is_cert_body_def idx_in)
    qed
    have d5: "(length d < 5) = False"
      using True by (auto simp: d_def)
    have d: "d ! 0 = p ! offset" "be16 (d ! 1) (d ! 2) = be16 (p ! (offset + 1)) (p ! (offset + 2))"
      "unat (be16 (d ! 3) (d ! 4)) = len" "take len (drop 5 d) = body" "length d < 5 + len \<longleftrightarrow> trunc"
      "drop (5 + len) d = drop (offset + 5 + len) p"
      using True by (auto simp: d_def len_def body_def trunc_def ac_simps)
    have walk: "walk_of (Suc m) d =
        (if p ! offset \<noteq> 0x16 then []
         else (if is_cert_body body
           then [\<lparr>er_version = be16 (p ! (offset + 1)) (p ! (offset + 2)), er_body = body, er_truncated = trunc\<rparr>]
           else []) @ (if trunc then [] else walk_of m (drop (offset + 5 + len) p)))"
      by (simp only: walk_of.simps Let_def d d5 simp_thms)
    have m: "MAX_RECORDS_TO_WALK - n = Suc m" "MAX_RECORDS_TO_WALK - (n + 1) = m"
      using Suc.hyps(2) by simp_all
    note IH = Suc.hyps(1) [OF m(2) [symmetric], of "offset + 5 + len", unfolded m(2)]
    show ?thesis
      unfolding d_def [symmetric] m(1) walk loop IH by simp
  qed
qed

lemma walk_records_eq:
  "walk_records p =
     Ret (if length p < 6 then []
          else walk_of MAX_RECORDS_TO_WALK (drop (5 + unat (be16 (p ! 3) (p ! 4))) p))"
  by (simp add: walk_records_def rd16_in walk_loop_eq numeral_eq_Suc)

section \<open>Properties\<close>

definition enc_record :: "u8 \<times> u16 \<times> bytes \<Rightarrow> bytes" where
  "enc_record = (\<lambda>(ct, v, body). ct # be16_bytes v @ be16_bytes (of_nat (length body)) @ body)"

definition flight :: "(u8 \<times> u16 \<times> bytes) list \<Rightarrow> bytes" where
  "flight rs = concat (map enc_record rs)"

definition cert_records :: "(u8 \<times> u16 \<times> bytes) list \<Rightarrow> ExtractedRecord list" where
  "cert_records rs =
     map (\<lambda>(_, v, body). \<lparr>er_version = v, er_body = body, er_truncated = False\<rparr>)
       (filter (\<lambda>(_, _, body). is_cert_body body) (takeWhile (\<lambda>(ct, _, _). ct = 0x16) rs))"

lemma five_reads:
  "(a # b # c # d # e # xs) ! 1 = b" "(a # b # c # d # e # xs) ! 2 = c"
  "(a # b # c # d # e # xs) ! 3 = d" "(a # b # c # d # e # xs) ! 4 = e"
  "drop (5 + n) (a # b # c # d # e # xs) = drop n xs" "drop 5 (a # b # c # d # e # xs) = xs"
  "length (a # b # c # d # e # xs) = 5 + length xs"
  by (simp_all add: numeral_eq_Suc)

lemma enc_record_cons:
  "enc_record (ct, v, body) @ rest =
     ct # of_nat (unat v div 256) # ucast v # of_nat (unat (of_nat (length body) :: u16) div 256) #
     ucast (of_nat (length body) :: u16) # body @ rest"
  by (simp add: enc_record_def be16_bytes_def)

lemma walk_of_enc:
  assumes "length body < 65536"
  shows "walk_of (Suc n) (enc_record (ct, v, body) @ rest) =
    (if ct \<noteq> 0x16 then []
     else (if is_cert_body body then [\<lparr>er_version = v, er_body = body, er_truncated = False\<rparr>] else []) @
       walk_of n rest)"
  using assms
  by (simp only: enc_record_cons walk_of.simps Let_def five_reads nth_Cons_0 be16_of_bytes)
    (simp add: unat_of_nat16)

lemma walk_of_flight:
  assumes "\<forall>(_, _, body) \<in> set rs. length body < 65536" "length rs \<le> n"
  shows "walk_of n (flight rs) = cert_records rs"
  using assms
proof (induction rs arbitrary: n)
  case Nil
  then show ?case
    by (cases n) (simp_all add: flight_def cert_records_def Let_def)
next
  case (Cons r rs)
  obtain ct v body where r: "r = (ct, v, body)"
    by (cases r)
  obtain m where "n = Suc m" "length rs \<le> m"
    using Cons.prems(2) by (cases n) auto
  with Cons show ?case
    by (simp add: flight_def r walk_of_enc cert_records_def del: walk_of.simps)
qed

text \<open>C25: the walk over a server flight never reads out of bounds, and extracts from a complete flight
  of up to four records after the first exactly the Certificate and CertificateRequest records
  that come before any record that is not a handshake, in order, with their versions and whole
  bodies.\<close>

theorem walk_extracts_flight:
  assumes "\<forall>(_, _, body) \<in> set (first # rs). length body < 65536" "length rs \<le> 4"
    and "snd (snd first) \<noteq> []"
  shows "walk_records (flight (first # rs)) = Ret (cert_records rs) \<and> walk_records p \<noteq> Panic"
proof -
  obtain ct v body where first: "first = (ct, v, body)"
    by (cases first)
  have body: "length body < 65536" "body \<noteq> []"
    using assms by (auto simp: first)
  let ?p = "enc_record (ct, v, body) @ flight rs"
  have "be16 (?p ! 3) (?p ! 4) = of_nat (length body)" "length ?p = 5 + length (body @ flight rs)"
    "drop (5 + length body) ?p = flight rs"
    by (simp_all only: enc_record_cons five_reads be16_of_bytes) simp
  then have "walk_records ?p = Ret (walk_of MAX_RECORDS_TO_WALK (flight rs))"
    using body by (simp add: walk_records_eq unat_of_nat16 Suc_le_eq)
  then show ?thesis
    using walk_of_flight [of rs 4] assms(1,2)
    by (simp add: flight_def first MAX_RECORDS_TO_WALK_def walk_records_eq)
qed

lemma walk_extracts_flight_witness:
  "walk_records (flight [(0x16, 0x0303, [2, 0]), (0x16, 0x0303, [0x0B, 1, 2]), (0x16, 0x0303, [0x0D]), (0x17, 0x0303, [0x0B])]) =
     Ret [\<lparr>er_version = 0x0303, er_body = [0x0B, 1, 2], er_truncated = False\<rparr>,
          \<lparr>er_version = 0x0303, er_body = [0x0D], er_truncated = False\<rparr>]"
  using walk_extracts_flight [of "(0x16, 0x0303, [2, 0])"
      "[(0x16, 0x0303, [0x0B, 1, 2]), (0x16, 0x0303, [0x0D]), (0x17, 0x0303, [0x0B])]"]
  by (simp add: cert_records_def is_cert_body_def)

end
