(* ===== verification/Reasm.thy ===== *)
theory Reasm
  imports Capture_Record Stores "HOL-Library.List_Lexorder" "HOL-Library.Product_Lexorder"
begin

text \<open>
  \<open>crates/tls-probe-cli/src/reasm.rs\<close>: reassembly of TLS records that span several captured
  segments.

  The two \<open>BTreeMap\<close>s are sorted association lists (\<open>bt_insert\<close>, \<open>kv_remove\<close>); the key
  order of the flow table is the derived lexicographic order of \<open>FlowKey\<close>.  The clock is an
  argument of every operation that reads it: \<open>Instant::now()\<close> is a number of nanoseconds and
  \<open>elapsed\<close> the saturating difference.
\<close>

section \<open>State\<close>

datatype FlowKey = FlowKey
  (fk_src_addr: bytes) (fk_dst_addr: bytes) (fk_src_port: u16) (fk_dst_port: u16) (fk_dir: bool)

definition fk_tuple :: "FlowKey \<Rightarrow> bytes \<times> bytes \<times> u16 \<times> u16 \<times> bool" where
  "fk_tuple k = (fk_src_addr k, fk_dst_addr k, fk_src_port k, fk_dst_port k, fk_dir k)"

lemma fk_tuple_inject: "fk_tuple a = fk_tuple b \<longleftrightarrow> a = b"
  by (cases a; cases b) (simp add: fk_tuple_def)

instantiation FlowKey :: linorder
begin

definition less_eq_FlowKey :: "FlowKey \<Rightarrow> FlowKey \<Rightarrow> bool" where
  "less_eq_FlowKey a b = (fk_tuple a \<le> fk_tuple b)"

definition less_FlowKey :: "FlowKey \<Rightarrow> FlowKey \<Rightarrow> bool" where
  "less_FlowKey a b = (fk_tuple a < fk_tuple b)"

instance
  by standard (auto simp: less_eq_FlowKey_def less_FlowKey_def fk_tuple_inject
      simp flip: fk_tuple_inject)

end

record HeadInfo =
  hd_seq :: u32
  hd_capture :: RawTlsCapture

record ReassemblyEntry =
  fragments :: "(u32 \<times> bytes) list"
  created :: nat
  head :: "HeadInfo option"
  expected_total :: "nat option"

record Reassembler =
  flows :: "(FlowKey \<times> ReassemblyEntry) list"
  max_flows :: nat
  timeout :: nat

record AssembledRecord =
  ar_head_capture :: RawTlsCapture
  ar_buffer :: bytes
  ar_truncated :: bool

definition reassembler_new :: Reassembler where
  "reassembler_new = \<lparr>flows = [], max_flows = 1024, timeout = 3000000000\<rparr>"

definition flow_key_of :: "RawTlsCapture \<Rightarrow> FlowKey" where
  "flow_key_of c =
     FlowKey (src_addr c) (dst_addr c) (src_port c) (dst_port c) (has_flag FLAG_INGRESS c)"

definition elapsed :: "nat \<Rightarrow> nat \<Rightarrow> nat" where
  "elapsed now t = now - t"

section \<open>Operations\<close>

primrec finalize_loop :: "(u32 \<times> bytes) list \<Rightarrow> u32 \<Rightarrow> bytes \<Rightarrow> bytes" where
  "finalize_loop [] next_seq buffer = buffer"
| "finalize_loop (f # fs) next_seq buffer =
     (if fst f = next_seq
      then finalize_loop fs (next_seq + of_nat (length (snd f))) (buffer @ snd f)
      else if fst f > next_seq then buffer
      else finalize_loop fs next_seq buffer)"

definition finalize_entry ::
  "FlowKey \<Rightarrow> bool \<Rightarrow> Reassembler \<Rightarrow> AssembledRecord option \<times> Reassembler" where
  "finalize_entry key trunc r =
     (case map_of (flows r) key of
        None \<Rightarrow> (None, r)
      | Some entry \<Rightarrow>
          (let r' = r\<lparr>flows := kv_remove key (flows r)\<rparr> in
           case head entry of
             None \<Rightarrow> (None, r')
           | Some h \<Rightarrow>
               (Some \<lparr>ar_head_capture = hd_capture h,
                      ar_buffer = finalize_loop (fragments entry) (hd_seq h) [],
                      ar_truncated = trunc\<rparr>, r')))"

primrec completion_loop :: "(u32 \<times> bytes) list \<Rightarrow> u32 \<Rightarrow> bytes \<Rightarrow> nat \<Rightarrow> bytes \<times> nat" where
  "completion_loop [] next_seq buffer contiguous_bytes = (buffer, contiguous_bytes)"
| "completion_loop (f # fs) next_seq buffer contiguous_bytes =
     (if fst f = next_seq
      then completion_loop fs (next_seq + of_nat (length (snd f))) (buffer @ snd f)
             (contiguous_bytes + length (snd f))
      else if fst f > next_seq then (buffer, contiguous_bytes)
      else completion_loop fs next_seq buffer contiguous_bytes)"

definition check_completion ::
  "FlowKey \<Rightarrow> Reassembler \<Rightarrow> AssembledRecord option \<times> Reassembler" where
  "check_completion key r =
     (case map_of (flows r) key of
        None \<Rightarrow> (None, r)
      | Some entry \<Rightarrow>
          (case head entry of
             None \<Rightarrow> (None, r)
           | Some h \<Rightarrow>
               (case expected_total entry of
                  None \<Rightarrow> (None, r)
                | Some expected \<Rightarrow>
                    (case completion_loop (fragments entry) (hd_seq h) [] 0 of
                       (buffer, contiguous_bytes) \<Rightarrow>
                         if contiguous_bytes \<ge> expected
                         then (Some \<lparr>ar_head_capture = hd_capture h,
                                     ar_buffer = take expected buffer, ar_truncated = False\<rparr>,
                               r\<lparr>flows := kv_remove key (flows r)\<rparr>)
                         else (None, r)))))"

definition cleanup_if_over_limit :: "Reassembler \<Rightarrow> Reassembler" where
  "cleanup_if_over_limit r =
     (if length (flows r) \<ge> max_flows r
      then (case flows r of [] \<Rightarrow> r | (key, _) # _ \<Rightarrow> r\<lparr>flows := kv_remove key (flows r)\<rparr>)
      else r)"

definition record_total :: "bytes \<Rightarrow> nat option" where
  "record_total pl = (if length pl \<ge> 5 then Some (unat (be16 (pl ! 3) (pl ! 4)) + 5) else None)"

definition insert_head ::
  "nat \<Rightarrow> RawTlsCapture \<Rightarrow> Reassembler \<Rightarrow> AssembledRecord option \<times> Reassembler" where
  "insert_head now cap r0 =
     (let key = flow_key_of cap; pl = payload_slice cap; total = record_total pl;
          hd_info = \<lparr>hd_seq = tcp_seq cap, hd_capture = cap\<rparr>;
          r = cleanup_if_over_limit r0
      in case map_of (flows r) key of
           Some _ \<Rightarrow>
             check_completion key
               (r\<lparr>flows := kv_modify key
                   (\<lambda>entry. entry\<lparr>head := Some hd_info, expected_total := total,
                                  fragments := bt_insert (tcp_seq cap) pl (fragments entry)\<rparr>)
                   (flows r)\<rparr>)
         | None \<Rightarrow>
             check_completion key
               (r\<lparr>flows := bt_insert key
                   \<lparr>fragments = bt_insert (tcp_seq cap) pl [], created = now,
                    head = Some hd_info, expected_total = total\<rparr> (flows r)\<rparr>))"

definition insert_continuation ::
  "nat \<Rightarrow> RawTlsCapture \<Rightarrow> Reassembler \<Rightarrow> AssembledRecord option \<times> Reassembler" where
  "insert_continuation now cap r =
     (let key = flow_key_of cap; pl = payload_slice cap in
      if (case map_of (flows r) key of
            None \<Rightarrow> False
          | Some entry \<Rightarrow> map_of (fragments entry) (tcp_seq cap) \<noteq> None)
      then (None, r)
      else
        let r1 = (case map_of (flows r) key of
                    Some _ \<Rightarrow> r
                  | None \<Rightarrow> r\<lparr>flows := bt_insert key
                      \<lparr>fragments = [], created = now, head = None, expected_total = None\<rparr>
                      (flows r)\<rparr>);
            r2 = r1\<lparr>flows := kv_modify key
                   (\<lambda>entry. entry\<lparr>fragments := bt_insert (tcp_seq cap) pl (fragments entry)\<rparr>)
                   (flows r1)\<rparr>
        in case map_of (flows r2) key of
             None \<Rightarrow> (None, r2)
           | Some entry \<Rightarrow>
               if length (fragments entry) \<ge> 4 then finalize_entry key True r2
               else if elapsed now (created entry) \<ge> timeout r2 then finalize_entry key True r2
               else check_completion key r2)"

definition reasm_insert ::
  "nat \<Rightarrow> RawTlsCapture \<Rightarrow> Reassembler \<Rightarrow> AssembledRecord option \<times> Reassembler" where
  "reasm_insert now cap r =
     (if flags cap AND (FLAG_FRAGMENT OR FLAG_CONTINUATION) = 0 then (None, r)
      else if has_flag FLAG_FRAGMENT cap then insert_head now cap r
      else if has_flag FLAG_CONTINUATION cap then insert_continuation now cap r
      else (None, r))"

definition expired :: "nat \<Rightarrow> Reassembler \<Rightarrow> ReassemblyEntry \<Rightarrow> bool" where
  "expired now r entry = (elapsed now (created entry) \<ge> timeout r)"

primrec sweep_keys ::
  "FlowKey list \<Rightarrow> Reassembler \<Rightarrow> AssembledRecord list \<Rightarrow> AssembledRecord list \<times> Reassembler" where
  "sweep_keys [] r completed = (completed, r)"
| "sweep_keys (k # ks) r completed =
     (case finalize_entry k True r of
        (None, r') \<Rightarrow> sweep_keys ks r' completed
      | (Some rec, r') \<Rightarrow> sweep_keys ks r' (completed @ [rec]))"

definition sweep_expired :: "nat \<Rightarrow> Reassembler \<Rightarrow> AssembledRecord list \<times> Reassembler" where
  "sweep_expired now r =
     sweep_keys (map fst (filter (\<lambda>(_, entry). expired now r entry) (flows r))) r []"

section \<open>The assembled bytes\<close>

lemma finalize_loop_acc: "finalize_loop fs n b = b @ finalize_loop fs n []"
proof (induction fs arbitrary: n b)
  case Nil
  then show ?case by simp
next
  case (Cons f fs)
  show ?case
    using Cons [of "n + of_nat (length (snd f))" "b @ snd f"]
      Cons [of "n + of_nat (length (snd f))" "snd f"] Cons [of n b] by simp
qed

lemma completion_loop_eq:
  "completion_loop fs n b c = (b @ finalize_loop fs n [], c + length (finalize_loop fs n []))"
proof (induction fs arbitrary: n b c)
  case Nil
  then show ?case by simp
next
  case (Cons f fs)
  then show ?case
    using finalize_loop_acc [of fs "n + of_nat (length (snd f))" "snd f"] by simp
qed

text \<open>A fragment carries the bytes of the stream \<open>S\<close>, whose first byte has sequence \<open>s0\<close>.\<close>

definition slice_of :: "bytes \<Rightarrow> u32 \<Rightarrow> u32 \<times> bytes \<Rightarrow> bool" where
  "slice_of S s0 f =
     (let off = unat (fst f - s0) in
      off + length (snd f) \<le> length S \<and> snd f = take (length (snd f)) (drop off S))"

lemma slice_of_at:
  assumes "slice_of S s0 f" "fst f = s0 + of_nat n" "n < 2 ^ 32"
  shows "snd f = take (length (snd f)) (drop n S)" "n + length (snd f) \<le> length S"
proof -
  have "unat (fst f - s0) = n"
    using assms(2,3) by (simp add: unat_of_nat)
  with assms(1) show "snd f = take (length (snd f)) (drop n S)" "n + length (snd f) \<le> length S"
    by (simp_all add: slice_of_def Let_def)
qed

lemma finalize_loop_prefix:
  assumes "length S < 2 ^ 32" "\<forall>f \<in> set fs. slice_of S s0 f" "n \<le> length S"
  shows "prefix (take n S @ finalize_loop fs (s0 + of_nat n) []) S"
  using assms(2,3)
proof (induction fs arbitrary: n)
  case Nil
  then show ?case
    by (simp add: take_is_prefix)
next
  case (Cons f fs)
  show ?case
  proof (cases "fst f = s0 + of_nat n")
    case True
    let ?m = "n + length (snd f)"
    have "n < 2 ^ 32"
      using Cons.prems(2) assms(1) by simp
    note at = slice_of_at [OF _ True this, of S]
    have sl: "snd f = take (length (snd f)) (drop n S)" "?m \<le> length S"
      using at Cons.prems(1) by auto
    have "take n S @ snd f = take ?m S"
      using sl(1) by (metis take_add)
    moreover have "prefix (take ?m S @ finalize_loop fs (s0 + of_nat ?m) []) S"
      using Cons.IH [of ?m] Cons.prems(1) sl(2) by auto
    ultimately show ?thesis
      using True finalize_loop_acc [of fs "s0 + of_nat ?m" "snd f"]
      by (simp add: add.assoc [symmetric] flip: append_assoc)
  next
    case False
    with Cons show ?thesis
      by (simp add: take_is_prefix)
  qed
qed

lemma finalize_loop_prefix0:
  "length S < 2 ^ 32 \<Longrightarrow> \<forall>f \<in> set fs. slice_of S s0 f \<Longrightarrow> prefix (finalize_loop fs s0 []) S"
  using finalize_loop_prefix [of S fs s0 0] by simp

section \<open>Every emitted record is a prefix of its stream\<close>

text \<open>
  \<open>S k\<close> is the byte stream of flow \<open>k\<close> from the start of a record, \<open>s0 k\<close> the sequence
  number of its first byte.  \<open>honest\<close> captures are segments of it.
\<close>

definition entry_ok :: "(FlowKey \<Rightarrow> bytes) \<Rightarrow> (FlowKey \<Rightarrow> u32) \<Rightarrow> FlowKey \<Rightarrow> ReassemblyEntry \<Rightarrow> bool" where
  "entry_ok S s0 k e =
     ((\<forall>f \<in> set (fragments e). slice_of (S k) (s0 k) f) \<and>
      (\<forall>h. head e = Some h \<longrightarrow>
         hd_seq h = s0 k \<and> flow_key_of (hd_capture h) = k \<and>
         expected_total e = record_total (payload_slice (hd_capture h))))"

definition reasm_inv :: "(FlowKey \<Rightarrow> bytes) \<Rightarrow> (FlowKey \<Rightarrow> u32) \<Rightarrow> Reassembler \<Rightarrow> bool" where
  "reasm_inv S s0 r = (\<forall>k e. map_of (flows r) k = Some e \<longrightarrow> entry_ok S s0 k e)"

definition honest :: "(FlowKey \<Rightarrow> bytes) \<Rightarrow> (FlowKey \<Rightarrow> u32) \<Rightarrow> RawTlsCapture \<Rightarrow> bool" where
  "honest S s0 c =
     (let k = flow_key_of c in
      slice_of (S k) (s0 k) (tcp_seq c, payload_slice c) \<and>
      (has_flag FLAG_FRAGMENT c \<longrightarrow> tcp_seq c = s0 k))"

definition record_ok :: "(FlowKey \<Rightarrow> bytes) \<Rightarrow> AssembledRecord \<Rightarrow> bool" where
  "record_ok S rec =
     (prefix (ar_buffer rec) (S (flow_key_of (ar_head_capture rec))) \<and>
      (\<not> ar_truncated rec \<longrightarrow>
         record_total (payload_slice (ar_head_capture rec)) = Some (length (ar_buffer rec))))"

definition short_streams :: "(FlowKey \<Rightarrow> bytes) \<Rightarrow> bool" where
  "short_streams S = (\<forall>k. length (S k) < 2 ^ 32)"

lemma reasm_inv_remove:
  "reasm_inv S s0 r \<Longrightarrow> reasm_inv S s0 (r\<lparr>flows := kv_remove k (flows r)\<rparr>)"
  by (simp add: reasm_inv_def)

lemma reasm_inv_put:
  "reasm_inv S s0 r \<Longrightarrow> entry_ok S s0 k e \<Longrightarrow> reasm_inv S s0 (r\<lparr>flows := bt_insert k e (flows r)\<rparr>)"
  by (simp add: reasm_inv_def)

lemma reasm_inv_modify:
  "reasm_inv S s0 r \<Longrightarrow> (\<And>e. map_of (flows r) k = Some e \<Longrightarrow> entry_ok S s0 k (f e)) \<Longrightarrow>
     reasm_inv S s0 (r\<lparr>flows := kv_modify k f (flows r)\<rparr>)"
  by (auto simp: reasm_inv_def)

lemma cleanup_inv: "reasm_inv S s0 r \<Longrightarrow> reasm_inv S s0 (cleanup_if_over_limit r)"
  by (auto simp: cleanup_if_over_limit_def reasm_inv_def split: list.split)

lemma finalize_entry_sound:
  assumes "reasm_inv S s0 r" "short_streams S" "finalize_entry k True r = (out, r')"
  shows "reasm_inv S s0 r'" "out = Some rec \<Longrightarrow> record_ok S rec"
proof -
  show "reasm_inv S s0 r'"
    using assms(1,3) by (auto simp: finalize_entry_def Let_def reasm_inv_remove split: option.splits)
  assume "out = Some rec"
  then obtain e h where e: "map_of (flows r) k = Some e" "head e = Some h"
    and rec: "rec = \<lparr>ar_head_capture = hd_capture h,
        ar_buffer = finalize_loop (fragments e) (hd_seq h) [], ar_truncated = True\<rparr>"
    using assms(3) by (auto simp: finalize_entry_def Let_def split: option.splits)
  have "entry_ok S s0 k e"
    using assms(1) e(1) by (simp add: reasm_inv_def)
  then show "record_ok S rec"
    using e(2) assms(2) by (simp add: record_ok_def rec entry_ok_def finalize_loop_prefix0 short_streams_def)
qed

lemma check_completion_sound:
  assumes "reasm_inv S s0 r" "short_streams S" "check_completion k r = (out, r')"
  shows "reasm_inv S s0 r'" "out = Some rec \<Longrightarrow> record_ok S rec"
proof -
  show "reasm_inv S s0 r'"
    using assms(1,3)
    by (auto simp: check_completion_def completion_loop_eq reasm_inv_remove split: option.splits if_splits)
  assume "out = Some rec"
  then obtain e h n where e: "map_of (flows r) k = Some e" "head e = Some h"
    "expected_total e = Some n" "n \<le> length (finalize_loop (fragments e) (hd_seq h) [])"
    and rec: "rec = \<lparr>ar_head_capture = hd_capture h,
        ar_buffer = take n (finalize_loop (fragments e) (hd_seq h) []), ar_truncated = False\<rparr>"
    using assms(3)
    by (auto simp: check_completion_def completion_loop_eq split: option.splits if_splits)
  have "entry_ok S s0 k e"
    using assms(1) e(1) by (simp add: reasm_inv_def)
  moreover from this have "prefix (finalize_loop (fragments e) (hd_seq h) []) (S k)"
    using assms(2) e(2) by (simp add: entry_ok_def finalize_loop_prefix0 short_streams_def)
  then have "prefix (take n (finalize_loop (fragments e) (hd_seq h) [])) (S k)"
    by (rule prefix_order.trans [OF take_is_prefix])
  ultimately show "record_ok S rec"
    using e by (auto simp: record_ok_def rec entry_ok_def)
qed

lemma insert_head_sound:
  assumes inv: "reasm_inv S s0 r" and short: "short_streams S"
    and cap: "honest S s0 cap" "has_flag FLAG_FRAGMENT cap"
    and ins: "insert_head now cap r = (out, r')"
  shows "reasm_inv S s0 r'" "out = Some rec \<Longrightarrow> record_ok S rec"
proof -
  let ?k = "flow_key_of cap" and ?q = "cleanup_if_over_limit r"
  let ?f = "\<lambda>e. e\<lparr>head := Some \<lparr>hd_seq = tcp_seq cap, hd_capture = cap\<rparr>,
      expected_total := record_total (payload_slice cap),
      fragments := bt_insert (tcp_seq cap) (payload_slice cap) (fragments e)\<rparr>"
  let ?new = "\<lparr>fragments = bt_insert (tcp_seq cap) (payload_slice cap) [], created = now,
      head = Some \<lparr>hd_seq = tcp_seq cap, hd_capture = cap\<rparr>,
      expected_total = record_total (payload_slice cap)\<rparr>"
  have q: "reasm_inv S s0 ?q"
    by (rule cleanup_inv [OF inv])
  have slice: "slice_of (S ?k) (s0 ?k) (tcp_seq cap, payload_slice cap)" "tcp_seq cap = s0 ?k"
    using cap unfolding honest_def Let_def by blast+
  have f: "entry_ok S s0 ?k (?f e)" if "entry_ok S s0 ?k e" for e
    using that slice set_bt_insert_sub [of "tcp_seq cap" "payload_slice cap" "fragments e"]
    by (fastforce simp: entry_ok_def)
  have new: "entry_ok S s0 ?k ?new"
    using slice by (simp add: entry_ok_def)
  obtain r1 where r1: "reasm_inv S s0 r1" "check_completion ?k r1 = (out, r')"
  proof (cases "map_of (flows ?q) ?k")
    case None
    then show thesis
      using ins by (intro that [OF reasm_inv_put [OF q new]]) (simp add: insert_head_def Let_def)
  next
    case (Some e)
    have "reasm_inv S s0 (?q\<lparr>flows := kv_modify ?k ?f (flows ?q)\<rparr>)"
      using q f by (intro reasm_inv_modify) (auto simp: reasm_inv_def)
    then show thesis
      using ins Some by (intro that) (auto simp: insert_head_def Let_def)
  qed
  from check_completion_sound [OF r1(1) short r1(2)]
  show "reasm_inv S s0 r'" "out = Some rec \<Longrightarrow> record_ok S rec"
    by auto
qed

lemma insert_continuation_sound:
  assumes inv: "reasm_inv S s0 r" and short: "short_streams S" and cap: "honest S s0 cap"
    and ins: "insert_continuation now cap r = (out, r')"
  shows "reasm_inv S s0 r' \<and> (\<forall>rec. out = Some rec \<longrightarrow> record_ok S rec)"
proof -
  let ?k = "flow_key_of cap"
  let ?new = "\<lparr>fragments = [], created = now, head = None, expected_total = None\<rparr>"
  let ?f = "\<lambda>e. e\<lparr>fragments := bt_insert (tcp_seq cap) (payload_slice cap) (fragments e)\<rparr>"
  define r1 where "r1 = (case map_of (flows r) ?k of
      Some _ \<Rightarrow> r | None \<Rightarrow> r\<lparr>flows := bt_insert ?k ?new (flows r)\<rparr>)"
  define r2 where "r2 = r1\<lparr>flows := kv_modify ?k ?f (flows r1)\<rparr>"
  have "entry_ok S s0 ?k ?new"
    by (simp add: entry_ok_def)
  then have r1: "reasm_inv S s0 r1"
    using inv by (auto simp: r1_def reasm_inv_put split: option.split)
  have "slice_of (S ?k) (s0 ?k) (tcp_seq cap, payload_slice cap)"
    using cap by (simp add: honest_def Let_def)
  then have "entry_ok S s0 ?k (?f e)" if "entry_ok S s0 ?k e" for e
    using that set_bt_insert_sub [of "tcp_seq cap" "payload_slice cap" "fragments e"]
    by (fastforce simp: entry_ok_def)
  then have r2: "reasm_inv S s0 r2"
    unfolding r2_def using r1 by (intro reasm_inv_modify) (auto simp: reasm_inv_def)
  have "(out = None \<and> r' = r) \<or> (out = None \<and> r' = r2) \<or>
      finalize_entry ?k True r2 = (out, r') \<or> check_completion ?k r2 = (out, r')"
    using ins unfolding insert_continuation_def Let_def r2_def r1_def
    by (simp split: option.splits if_splits)
  then show ?thesis
    using inv r2 finalize_entry_sound [OF r2 short] check_completion_sound [OF r2 short] by blast
qed

lemma reasm_insert_sound:
  assumes inv: "reasm_inv S s0 r" and short: "short_streams S" and cap: "honest S s0 cap"
    and ins: "reasm_insert now cap r = (out, r')"
  shows "reasm_inv S s0 r' \<and> (\<forall>rec. out = Some rec \<longrightarrow> record_ok S rec)"
  using ins insert_head_sound [OF inv short cap] insert_continuation_sound [OF inv short cap] inv
  by (auto simp: reasm_insert_def split: if_splits)

lemma sweep_keys_sound:
  assumes "reasm_inv S s0 r" "short_streams S" "sweep_keys ks r acc = (out, r')"
    "\<forall>rec \<in> set acc. record_ok S rec"
  shows "reasm_inv S s0 r' \<and> (\<forall>rec \<in> set out. record_ok S rec)"
  using assms
proof (induction ks arbitrary: r acc)
  case Nil
  then show ?case by simp
next
  case (Cons k ks)
  obtain o1 r1 where fin: "finalize_entry k True r = (o1, r1)"
    by (cases "finalize_entry k True r")
  note snd1 = finalize_entry_sound [OF Cons.prems(1,2) fin]
  show ?case
  proof (cases o1)
    case None
    with Cons.prems fin have "sweep_keys ks r1 acc = (out, r')"
      by simp
    then show ?thesis
      by (rule Cons.IH [OF snd1(1) Cons.prems(2) _ Cons.prems(4)])
  next
    case (Some rec)
    with Cons.prems fin have "sweep_keys ks r1 (acc @ [rec]) = (out, r')"
      by simp
    moreover have "\<forall>rec \<in> set (acc @ [rec]). record_ok S rec"
      using Cons.prems(4) snd1(2) [OF Some] by simp
    ultimately show ?thesis
      using Cons.IH [OF snd1(1) Cons.prems(2)] by blast
  qed
qed

section \<open>Runs of the reassembler\<close>

text \<open>
  The consumer thread interleaves insertions with sweeps.  \<open>reasm_reach ok r outs\<close>: from the
  new reassembler, some sequence of insertions of captures that satisfy \<open>ok\<close> and of sweeps
  leads to state \<open>r\<close>, having emitted the records \<open>outs\<close>.
\<close>

inductive reasm_reach ::
  "(RawTlsCapture \<Rightarrow> bool) \<Rightarrow> Reassembler \<Rightarrow> AssembledRecord list \<Rightarrow> bool"
  for ok where
  start: "reasm_reach ok reassembler_new []"
| insert_step: "reasm_reach ok r outs \<Longrightarrow> ok cap \<Longrightarrow> reasm_insert now cap r = (out, r') \<Longrightarrow>
    reasm_reach ok r' (outs @ (case out of None \<Rightarrow> [] | Some rec \<Rightarrow> [rec]))"
| sweep_step: "reasm_reach ok r outs \<Longrightarrow> sweep_expired now r = (recs, r') \<Longrightarrow>
    reasm_reach ok r' (outs @ recs)"

lemma reasm_reach_sound:
  assumes "reasm_reach (honest S s0) r outs" "short_streams S"
  shows "reasm_inv S s0 r \<and> (\<forall>rec \<in> set outs. record_ok S rec)"
  using assms
proof (induction rule: reasm_reach.induct)
  case start
  then show ?case
    by (simp add: reasm_inv_def reassembler_new_def)
next
  case (insert_step r outs cap now out r')
  then show ?case
    using reasm_insert_sound [of S s0 r cap now out r'] by (auto split: option.splits)
next
  case (sweep_step r outs now recs r')
  then show ?case
    using sweep_keys_sound [of S s0 r _ "[]" recs r'] by (auto simp: sweep_expired_def)
qed

text \<open>C11: whatever the order of insertions, retransmissions, timeouts and sweeps, every record
  the reassembler emits is a prefix of the byte stream its captures were cut from, and a record
  that is not marked truncated has exactly the length announced by its TLS record header.\<close>

theorem reassembly_sound:
  assumes "reasm_reach (honest S s0) r outs" "short_streams S" "rec \<in> set outs"
  shows "prefix (ar_buffer rec) (S (flow_key_of (ar_head_capture rec))) \<and>
    (\<not> ar_truncated rec \<longrightarrow>
       record_total (payload_slice (ar_head_capture rec)) = Some (length (ar_buffer rec)))"
  using reasm_reach_sound [OF assms(1,2)] assms(3) by (simp add: record_ok_def)

section \<open>The sweep\<close>

definition partial_record :: "ReassemblyEntry \<Rightarrow> AssembledRecord list" where
  "partial_record e =
     (case head e of
        None \<Rightarrow> []
      | Some h \<Rightarrow> [\<lparr>ar_head_capture = hd_capture h,
                   ar_buffer = finalize_loop (fragments e) (hd_seq h) [], ar_truncated = True\<rparr>])"

lemma finalize_entry_eq:
  "finalize_entry k True r =
     (case map_of (flows r) k of
        None \<Rightarrow> (None, r)
      | Some e \<Rightarrow> (case partial_record e of [] \<Rightarrow> None | rec # _ \<Rightarrow> Some rec,
                   r\<lparr>flows := kv_remove k (flows r)\<rparr>))"
  by (simp add: finalize_entry_def partial_record_def Let_def split: option.split)

lemma sweep_keys_eq:
  assumes "distinct (map fst es)" "\<forall>(k, e) \<in> set es. map_of (flows r) k = Some e"
  shows "sweep_keys (map fst es) r acc =
    (acc @ concat (map (\<lambda>(_, e). partial_record e) es),
     r\<lparr>flows := filter (\<lambda>x. fst x \<notin> fst ` set es) (flows r)\<rparr>)"
  using assms
proof (induction es arbitrary: r acc)
  case Nil
  then show ?case by simp
next
  case (Cons x es)
  obtain k e where x: "x = (k, e)"
    by (cases x)
  let ?r1 = "r\<lparr>flows := kv_remove k (flows r)\<rparr>"
  have "finalize_entry k True r = (case partial_record e of [] \<Rightarrow> None | rec # _ \<Rightarrow> Some rec, ?r1)"
    using Cons.prems(2) by (simp add: finalize_entry_eq x)
  moreover have "partial_record e = [] \<or> (\<exists>rec. partial_record e = [rec])"
    by (simp add: partial_record_def split: option.split)
  ultimately have step: "sweep_keys (map fst (x # es)) r acc =
      sweep_keys (map fst es) ?r1 (acc @ partial_record e)"
    by (auto simp: x)
  have "\<forall>(j, e) \<in> set es. map_of (flows ?r1) j = Some e"
    using Cons.prems by (force simp: x)
  moreover have "filter (\<lambda>y. fst y \<notin> fst ` set es) (kv_remove k (flows r)) =
      filter (\<lambda>y. fst y \<notin> fst ` set (x # es)) (flows r)"
    by (auto simp: kv_remove_def x intro!: filter_cong)
  ultimately show ?case
    unfolding step using Cons.IH [of ?r1 "acc @ partial_record e"] Cons.prems(1) by (simp add: x)
qed

lemma sweep_expired_eq:
  assumes "bt_ok (flows r)"
  shows "sweep_expired now r =
    (concat (map (\<lambda>(_, e). partial_record e) (filter (\<lambda>(_, e). expired now r e) (flows r))),
     r\<lparr>flows := filter (\<lambda>(_, e). \<not> expired now r e) (flows r)\<rparr>)"
proof -
  let ?es = "filter (\<lambda>(_, e). expired now r e) (flows r)"
  have d: "distinct (map fst (flows r))"
    by (rule bt_ok_distinct [OF assms])
  then have "\<forall>(k, e) \<in> set ?es. map_of (flows r) k = Some e" "distinct (map fst ?es)"
    by (auto simp: distinct_filter_fst)
  note eq = sweep_keys_eq [OF this(2,1), of "[]"]
  have "filter (\<lambda>x. fst x \<notin> fst ` set ?es) (flows r) = filter (\<lambda>(_, e). \<not> expired now r e) (flows r)"
  proof (rule filter_cong [OF refl])
    fix x assume x: "x \<in> set (flows r)"
    obtain k e where ke: "x = (k, e)"
      by (cases x)
    have same: "e' = e" if "(k, e') \<in> set (flows r)" for e'
      using eq_key_imp_eq_value [OF d that, of e] x by (simp add: ke)
    have "k \<in> fst ` set ?es \<longleftrightarrow> expired now r e"
    proof
      assume "k \<in> fst ` set ?es"
      then show "expired now r e"
        by (auto dest: same)
    next
      assume "expired now r e"
      then have "(k, e) \<in> set ?es"
        using x by (simp add: ke)
      then show "k \<in> fst ` set ?es"
        by force
    qed
    then show "(fst x \<notin> fst ` set ?es) = (case x of (_, e) \<Rightarrow> \<not> expired now r e)"
      by (simp add: ke)
  qed
  with eq show ?thesis
    by (simp add: sweep_expired_def)
qed

section \<open>The flow table stays a map\<close>

lemma flows_check_completion: "snd (check_completion k r) = r \<or>
    snd (check_completion k r) = r\<lparr>flows := kv_remove k (flows r)\<rparr>"
  by (auto simp: check_completion_def split: option.split prod.split)

lemma flows_finalize_entry: "snd (finalize_entry k t r) = r \<or>
    snd (finalize_entry k t r) = r\<lparr>flows := kv_remove k (flows r)\<rparr>"
  by (auto simp: finalize_entry_def Let_def split: option.split)

lemma bt_ok_check_completion: "bt_ok (flows r) \<Longrightarrow> bt_ok (flows (snd (check_completion k r)))"
  using flows_check_completion [of k r] by auto

lemma bt_ok_finalize_entry: "bt_ok (flows r) \<Longrightarrow> bt_ok (flows (snd (finalize_entry k t r)))"
  using flows_finalize_entry [of k t r] by auto

lemma bt_ok_cleanup: "bt_ok (flows r) \<Longrightarrow> bt_ok (flows (cleanup_if_over_limit r))"
  by (auto simp: cleanup_if_over_limit_def kv_remove_def bt_ok_filter split: list.split)

lemma bt_ok_reasm_insert: "bt_ok (flows r) \<Longrightarrow> bt_ok (flows (snd (reasm_insert now cap r)))"
  by (auto simp: reasm_insert_def insert_head_def insert_continuation_def Let_def
      bt_ok_check_completion bt_ok_finalize_entry bt_ok_cleanup split: option.split)

lemma reasm_reach_bt_ok:
  "reasm_reach ok r outs \<Longrightarrow> bt_ok (flows r)"
proof (induction rule: reasm_reach.induct)
  case start
  then show ?case
    by (simp add: reassembler_new_def)
next
  case (insert_step r outs cap now out r')
  then show ?case
    using bt_ok_reasm_insert [of r now cap] by simp
next
  case (sweep_step r outs now recs r')
  then show ?case
    by (auto simp: sweep_expired_eq bt_ok_filter)
qed

text \<open>In every reachable state a sweep removes exactly the flows whose age has reached the
  timeout, leaves every other flow untouched, and emits, in key order and marked truncated, the
  contiguous prefix of each removed flow that has its head; flows without one are dropped.\<close>

theorem sweep_exact:
  assumes "reasm_reach ok r outs"
  shows "sweep_expired now r =
    (concat (map (\<lambda>(_, e). partial_record e) (filter (\<lambda>(_, e). expired now r e) (flows r))),
     r\<lparr>flows := filter (\<lambda>(_, e). \<not> expired now r e) (flows r)\<rparr>)"
  by (rule sweep_expired_eq [OF reasm_reach_bt_ok [OF assms]])

lemma sweep_exact_witness:
  "sweep_expired 5 reassembler_new = ([], reassembler_new)"
  using sweep_exact [OF reasm_reach.start, of 5] by (simp add: reassembler_new_def)

section \<open>Completion in any arrival order\<close>

fun seg_list :: "u32 \<Rightarrow> bytes list \<Rightarrow> (u32 \<times> bytes) list" where
  "seg_list q [] = []"
| "seg_list q (p # ps) = (q, p) # seg_list (q + of_nat (length p)) ps"

text \<open>The segmentation \<open>ps\<close> of a stream at \<open>q\<close> neither has empty segments nor wraps.\<close>

definition no_wrap :: "u32 \<Rightarrow> bytes list \<Rightarrow> bool" where
  "no_wrap q ps = ((\<forall>p \<in> set ps. p \<noteq> []) \<and> unat q + length (concat ps) < 2 ^ 32)"

lemma no_wrap_Cons:
  assumes "no_wrap q (p # ps)"
  shows "no_wrap (q + of_nat (length p)) ps" "unat (q + of_nat (length p)) = unat q + length p"
    "p \<noteq> []"
proof -
  have "unat q + length p < 2 ^ LENGTH(32)"
    using assms by (simp add: no_wrap_def)
  then show "unat (q + of_nat (length p)) = unat q + length p"
    by (simp add: unat_word_ariths unat_of_nat)
  with assms show "no_wrap (q + of_nat (length p)) ps" "p \<noteq> []"
    by (simp_all add: no_wrap_def)
qed

lemma seg_list_ge: "no_wrap q ps \<Longrightarrow> x \<in> set (seg_list q ps) \<Longrightarrow> q \<le> fst x"
proof (induction q ps rule: seg_list.induct)
  case (1 q)
  then show ?case by simp
next
  case (2 q p ps)
  note nw = no_wrap_Cons [OF "2.prems"(1)]
  have "q \<le> q + of_nat (length p)"
    by (simp add: word_le_nat_alt nw(2))
  with 2 nw(1) show ?case
    by fastforce
qed

lemma seg_list_gt:
  assumes "no_wrap q (p # ps)" "x \<in> set (seg_list (q + of_nat (length p)) ps)"
  shows "q < fst x"
proof -
  note nw = no_wrap_Cons [OF assms(1)]
  have "q < q + of_nat (length p)"
    using nw(3) by (simp add: word_less_nat_alt nw(2))
  also have "\<dots> \<le> fst x"
    by (rule seg_list_ge [OF nw(1) assms(2)])
  finally show ?thesis .
qed

lemma bt_ok_seg_list: "no_wrap q ps \<Longrightarrow> bt_ok (seg_list q ps)"
proof (induction q ps rule: seg_list.induct)
  case (1 q)
  then show ?case by simp
next
  case (2 q p ps)
  then show ?case
    using no_wrap_Cons(1) [OF "2.prems"] seg_list_gt [OF "2.prems"] by auto
qed

lemma finalize_seg_list:
  "no_wrap q ps \<Longrightarrow>
     finalize_loop (filter P (seg_list q ps)) q [] = concat (map snd (takeWhile P (seg_list q ps)))"
proof (induction q ps rule: seg_list.induct)
  case (1 q)
  then show ?case by simp
next
  case (2 q p ps)
  let ?q' = "q + of_nat (length p)"
  show ?case
  proof (cases "P (q, p)")
    case True
    then show ?thesis
      using "2.IH" no_wrap_Cons(1) [OF "2.prems"] finalize_loop_acc [of _ ?q' p] by simp
  next
    case False
    have "finalize_loop (filter P (seg_list ?q' ps)) q [] = []"
    proof (cases "filter P (seg_list ?q' ps)")
      case (Cons x xs)
      then have "q < fst x"
        using seg_list_gt [OF "2.prems", of x] Cons_eq_filterD [OF Cons [symmetric]] by auto
      with Cons show ?thesis
        by simp
    qed simp
    with False show ?thesis
      by simp
  qed
qed

lemma concat_seg_list: "concat (map snd (seg_list q ps)) = concat ps"
  by (induction q ps rule: seg_list.induct) auto

lemma takeWhile_short:
  assumes "no_wrap q ps" "x \<in> set (seg_list q ps)" "\<not> P x"
  shows "length (concat (map snd (takeWhile P (seg_list q ps)))) < length (concat ps)"
  using assms
proof (induction q ps rule: seg_list.induct)
  case (1 q)
  then show ?case by simp
next
  case (2 q p ps)
  then show ?case
    using no_wrap_Cons [OF "2.prems"(1)] by (cases "P (q, p)") auto
qed

lemma bt_insert_filter:
  assumes "bt_ok m" "(k, v) \<in> set m"
  shows "bt_insert k v (filter (\<lambda>x. x \<in> A) m) = filter (\<lambda>x. x \<in> insert (k, v) A) m"
proof (rule bt_ok_unique)
  show "bt_ok (bt_insert k v (filter (\<lambda>x. x \<in> A) m))" "bt_ok (filter (\<lambda>x. x \<in> insert (k, v) A) m)"
    using assms(1) by (simp_all add: bt_ok_filter)
  have same: "w = v" if "(k, w) \<in> set m" for w
    by (rule eq_key_imp_eq_value [OF bt_ok_distinct [OF assms(1)] that assms(2)])
  show "set (bt_insert k v (filter (\<lambda>x. x \<in> A) m)) = set (filter (\<lambda>x. x \<in> insert (k, v) A) m)"
    using assms by (auto simp: set_bt_insert bt_ok_filter dest: same)
qed

fun reasm_feed ::
  "(nat \<times> RawTlsCapture) list \<Rightarrow> Reassembler \<Rightarrow> AssembledRecord option list \<times> Reassembler" where
  "reasm_feed [] r = ([], r)"
| "reasm_feed ((now, c) # cs) r =
     (case reasm_insert now c r of
        (out, r1) \<Rightarrow> (case reasm_feed cs r1 of (outs, r2) \<Rightarrow> (out # outs, r2)))"

definition seg_of :: "RawTlsCapture \<Rightarrow> u32 \<times> bytes" where
  "seg_of c = (tcp_seq c, payload_slice c)"

text \<open>
  \<open>ps\<close> are the payloads of one record at sequence \<open>q\<close>, captured as at most three segments;
  \<open>hc\<close> is the capture of the first.
\<close>

definition record_split :: "u32 \<Rightarrow> bytes list \<Rightarrow> RawTlsCapture \<Rightarrow> bool" where
  "record_split q ps hc =
     (no_wrap q ps \<and> ps \<noteq> [] \<and> length ps \<le> 3 \<and>
      record_total (hd ps) = Some (length (concat ps)) \<and>
      seg_of hc = (q, hd ps) \<and> has_flag FLAG_FRAGMENT hc)"

definition arrives :: "u32 \<Rightarrow> bytes list \<Rightarrow> RawTlsCapture \<Rightarrow> nat \<Rightarrow> nat \<Rightarrow> nat \<times> RawTlsCapture \<Rightarrow> bool" where
  "arrives q ps hc t0 dt a =
     (case a of (now, c) \<Rightarrow>
        t0 \<le> now \<and> now < t0 + dt \<and> flow_key_of c = flow_key_of hc \<and>
        (c = hc \<or> \<not> has_flag FLAG_FRAGMENT c \<and> has_flag FLAG_CONTINUATION c \<and>
                  seg_of c \<in> set (tl (seg_list q ps))))"

text \<open>The state while the segments \<open>A\<close> of the record are buffered and the others missing.\<close>

definition partial_state ::
  "Reassembler \<Rightarrow> u32 \<Rightarrow> bytes list \<Rightarrow> RawTlsCapture \<Rightarrow> nat \<Rightarrow> (u32 \<times> bytes) set \<Rightarrow> Reassembler \<Rightarrow> bool" where
  "partial_state r0 q ps hc t0 A r =
     (bt_ok (flows r) \<and> r = r0\<lparr>flows := flows r\<rparr> \<and>
      kv_remove (flow_key_of hc) (flows r) = flows r0 \<and>
      (case map_of (flows r) (flow_key_of hc) of
         None \<Rightarrow> A = {}
       | Some e \<Rightarrow> A \<noteq> {} \<and> t0 \<le> created e \<and> fragments e = filter (\<lambda>x. x \<in> A) (seg_list q ps) \<and>
           (if (q, hd ps) \<in> A
            then head e = Some \<lparr>hd_seq = q, hd_capture = hc\<rparr> \<and> expected_total e = Some (length (concat ps))
            else head e = None)))"

lemma hd_seg_list: "ps \<noteq> [] \<Longrightarrow> seg_list q ps = (q, hd ps) # tl (seg_list q ps)"
  by (cases ps) auto

lemma length_seg_list [simp]: "length (seg_list q ps) = length ps"
  by (induction q ps rule: seg_list.induct) auto

definition whole_record :: "bytes list \<Rightarrow> RawTlsCapture \<Rightarrow> AssembledRecord" where
  "whole_record ps hc = \<lparr>ar_head_capture = hc, ar_buffer = concat ps, ar_truncated = False\<rparr>"

lemma takeWhile_all: "(\<forall>x \<in> set xs. P x) \<Longrightarrow> takeWhile P xs = xs"
  by (simp add: takeWhile_eq_all_conv)

lemma check_partial:
  assumes "record_split q ps hc" "partial_state r0 q ps hc t0 A r" "A \<noteq> {}"
    "A \<subseteq> set (seg_list q ps)"
  shows "check_completion (flow_key_of hc) r =
    (if A = set (seg_list q ps) then (Some (whole_record ps hc), r0) else (None, r))"
proof -
  let ?k = "flow_key_of hc" and ?segs = "seg_list q ps"
  obtain e where e: "map_of (flows r) ?k = Some e" "fragments e = filter (\<lambda>x. x \<in> A) ?segs"
    using assms(2,3) by (auto simp: partial_state_def split: option.splits)
  have hd: "(q, hd ps) \<in> set ?segs"
    using assms(1) hd_seg_list [of ps q] by (metis list.set_intros(1) record_split_def)
  have nw: "no_wrap q ps"
    using assms(1) by (simp add: record_split_def)
  have rm: "r\<lparr>flows := kv_remove ?k (flows r)\<rparr> = r0"
    using assms(2) unfolding partial_state_def by (metis Reassembler.surjective Reassembler.update_convs(1))
  show ?thesis
  proof (cases "(q, hd ps) \<in> A")
    case False
    then have "head e = None"
      using assms(2) e(1) by (simp add: partial_state_def)
    with False hd e(1) show ?thesis
      by (auto simp: check_completion_def)
  next
    case True
    then have h: "head e = Some \<lparr>hd_seq = q, hd_capture = hc\<rparr>" "expected_total e = Some (length (concat ps))"
      using assms(2) e(1) by (simp_all add: partial_state_def)
    show ?thesis
    proof (cases "A = set ?segs")
      case True
      then have "finalize_loop (fragments e) q [] = concat ps"
        using finalize_seg_list [OF nw, of "\<lambda>_. True"] by (simp add: e(2) takeWhile_all concat_seg_list)
      with True e(1) h rm show ?thesis
        by (simp add: check_completion_def completion_loop_eq whole_record_def)
    next
      case False
      then obtain x where x: "x \<in> set ?segs" "x \<notin> A"
        using assms(4) by blast
      then have "length (finalize_loop (fragments e) q []) < length (concat ps)"
        using takeWhile_short [OF nw, of x "\<lambda>x. x \<in> A"] by (simp add: e(2) finalize_seg_list [OF nw])
      with False e(1) h show ?thesis
        by (simp add: check_completion_def completion_loop_eq)
    qed
  qed
qed

lemma flows_only: "r = r0\<lparr>flows := flows r\<rparr> \<Longrightarrow> r\<lparr>flows := X\<rparr> = r0\<lparr>flows := X\<rparr>"
  by (cases r; cases r0) simp

text \<open>Buffering one more segment in an entry that has the segments \<open>A\<close>.\<close>

lemma partial_update:
  assumes "record_split q ps hc" "partial_state r0 q ps hc t0 A r" "x \<in> set (seg_list q ps)"
    "map_of (flows r) (flow_key_of hc) = Some e" "f e = e\<lparr>fragments := bt_insert (fst x) (snd x) (fragments e)\<rparr>"
    "x \<noteq> (q, hd ps)"
  shows "partial_state r0 q ps hc t0 (insert x A)
    (r\<lparr>flows := kv_modify (flow_key_of hc) f (flows r)\<rparr>)"
proof -
  have nw: "no_wrap q ps"
    using assms(1) by (simp add: record_split_def)
  have "fragments e = filter (\<lambda>x. x \<in> A) (seg_list q ps)"
    using assms(2,4) by (simp add: partial_state_def)
  then have fr: "fragments (f e) = filter (\<lambda>y. y \<in> insert x A) (seg_list q ps)"
    using bt_insert_filter [OF bt_ok_seg_list [OF nw], of "fst x" "snd x" A] assms(3,5) by simp
  have "r = r0\<lparr>flows := flows r\<rparr>"
    using assms(2) by (simp add: partial_state_def)
  then have "r\<lparr>flows := X\<rparr> = r0\<lparr>flows := X\<rparr>" for X
    by (rule flows_only)
  then show ?thesis
    using assms(2,4,6) fr unfolding partial_state_def by (auto simp: assms(5))
qed

lemma partial_new:
  assumes "record_split q ps hc" "partial_state r0 q ps hc t0 A r" "x \<in> set (seg_list q ps)"
    "map_of (flows r) (flow_key_of hc) = None" "fragments e = [x]" "t0 \<le> created e"
    "if x = (q, hd ps)
     then head e = Some \<lparr>hd_seq = q, hd_capture = hc\<rparr> \<and> expected_total e = Some (length (concat ps))
     else head e = None"
  shows "partial_state r0 q ps hc t0 (insert x A)
    (r\<lparr>flows := bt_insert (flow_key_of hc) e (flows r)\<rparr>)"
proof -
  have nw: "no_wrap q ps"
    using assms(1) by (simp add: record_split_def)
  have A: "A = {}"
    using assms(2,4) by (simp add: partial_state_def)
  have "filter (\<lambda>y. y = x) (seg_list q ps) = [x]"
    using bt_insert_filter [OF bt_ok_seg_list [OF nw], of "fst x" "snd x" "{}"] assms(3) by simp
  moreover have "r = r0\<lparr>flows := flows r\<rparr>"
    using assms(2) by (simp add: partial_state_def)
  from flows_only [OF this] have "r\<lparr>flows := X\<rparr> = r0\<lparr>flows := X\<rparr>" for X .
  ultimately show ?thesis
    using assms(2,5-7) unfolding partial_state_def A by (auto split: if_splits)
qed

lemma partial_head:
  assumes "record_split q ps hc" "partial_state r0 q ps hc t0 A r"
    "map_of (flows r) (flow_key_of hc) = Some e" "(q, hd ps) \<notin> A"
    "f e = e\<lparr>head := Some \<lparr>hd_seq = q, hd_capture = hc\<rparr>, expected_total := Some (length (concat ps)),
       fragments := bt_insert q (hd ps) (fragments e)\<rparr>"
  shows "partial_state r0 q ps hc t0 (insert (q, hd ps) A)
    (r\<lparr>flows := kv_modify (flow_key_of hc) f (flows r)\<rparr>)"
proof -
  have nw: "no_wrap q ps" and hd: "(q, hd ps) \<in> set (seg_list q ps)"
    using assms(1) hd_seg_list [of ps q] by (simp_all add: record_split_def) (metis list.set_intros(1))
  have "fragments e = filter (\<lambda>x. x \<in> A) (seg_list q ps)"
    using assms(2,3) by (simp add: partial_state_def)
  then have fr: "fragments (f e) = filter (\<lambda>y. y \<in> insert (q, hd ps) A) (seg_list q ps)"
    using bt_insert_filter [OF bt_ok_seg_list [OF nw], of q "hd ps" A] hd assms(5) by simp
  have "r = r0\<lparr>flows := flows r\<rparr>"
    using assms(2) by (simp add: partial_state_def)
  then have "r\<lparr>flows := X\<rparr> = r0\<lparr>flows := X\<rparr>" for X
    by (rule flows_only)
  then show ?thesis
    using assms(2,3) fr unfolding partial_state_def by (auto simp: assms(5))
qed

lemma reasm_flag_cases:
  "has_flag FLAG_FRAGMENT c \<Longrightarrow> reasm_insert now c r = insert_head now c r"
  "\<not> has_flag FLAG_FRAGMENT c \<Longrightarrow> has_flag FLAG_CONTINUATION c \<Longrightarrow>
     reasm_insert now c r = insert_continuation now c r"
  by (auto simp: reasm_insert_def has_flag_def bit.conj_disj_distrib or_eq_0_iff)

lemma head_arrival:
  assumes sp: "record_split q ps hc" and st: "partial_state r0 q ps hc t0 A r"
    and room: "length (flows r0) + 1 < max_flows r0" and new: "(q, hd ps) \<notin> A" and now: "t0 \<le> now"
  shows "\<exists>r'. partial_state r0 q ps hc t0 (insert (q, hd ps) A) r' \<and>
    insert_head now hc r = check_completion (flow_key_of hc) r'"
proof -
  let ?k = "flow_key_of hc"
  have seg: "tcp_seq hc = q" "payload_slice hc = hd ps" "record_total (hd ps) = Some (length (concat ps))"
    using sp by (simp_all add: record_split_def seg_of_def)
  have "bt_ok (flows r)" "kv_remove ?k (flows r) = flows r0" "max_flows r = max_flows r0"
    using st unfolding partial_state_def by (blast, blast, metis Reassembler.select_convs(2) Reassembler.surjective Reassembler.update_convs(1))
  then have "length (flows r) < max_flows r"
    using bt.len_remove [of "flows r" ?k] room by (auto split: if_splits)
  then have cl: "cleanup_if_over_limit r = r"
    by (simp add: cleanup_if_over_limit_def)
  have hd: "(q, hd ps) \<in> set (seg_list q ps)"
    using sp hd_seg_list [of ps q] by (metis list.set_intros(1) record_split_def)
  show ?thesis
  proof (cases "map_of (flows r) ?k")
    case None
    show ?thesis
      using partial_new [OF sp st hd None, of "\<lparr>fragments = [(q, hd ps)], created = now,
          head = Some \<lparr>hd_seq = q, hd_capture = hc\<rparr>, expected_total = Some (length (concat ps))\<rparr>"]
        now None by (auto simp: insert_head_def Let_def cl seg)
  next
    case (Some e)
    let ?f = "\<lambda>entry. entry\<lparr>head := Some \<lparr>hd_seq = q, hd_capture = hc\<rparr>,
        expected_total := Some (length (concat ps)), fragments := bt_insert q (hd ps) (fragments entry)\<rparr>"
    have "partial_state r0 q ps hc t0 (insert (q, hd ps) A)
        (r\<lparr>flows := kv_modify ?k ?f (flows r)\<rparr>)"
      by (rule partial_head [OF sp st Some new]) simp
    moreover have "insert_head now hc r =
        check_completion ?k (r\<lparr>flows := kv_modify ?k ?f (flows r)\<rparr>)"
      using Some by (simp add: insert_head_def Let_def cl seg)
    ultimately show ?thesis
      by blast
  qed
qed

lemma continuation_arrival:
  assumes sp: "record_split q ps hc" and st: "partial_state r0 q ps hc t0 A r"
    and c: "flow_key_of c = flow_key_of hc" "seg_of c \<in> set (tl (seg_list q ps))" "seg_of c \<notin> A"
    and now: "t0 \<le> now" "now < t0 + timeout r0"
  shows "\<exists>r'. partial_state r0 q ps hc t0 (insert (seg_of c) A) r' \<and>
    insert_continuation now c r = check_completion (flow_key_of hc) r'"
proof -
  let ?k = "flow_key_of hc" and ?segs = "seg_list q ps"
  let ?f = "\<lambda>e. e\<lparr>fragments := bt_insert (tcp_seq c) (payload_slice c) (fragments e)\<rparr>"
  let ?new = "\<lparr>fragments = [], created = now, head = None, expected_total = None\<rparr>"
  have nw: "no_wrap q ps" and ne: "ps \<noteq> []" and few: "length ps \<le> 3"
    using sp by (simp_all add: record_split_def)
  have x: "seg_of c \<in> set ?segs" "seg_of c \<noteq> (q, hd ps)"
    using c(2) hd_seg_list [OF ne, of q] bt_ok_seg_list [OF nw] bt_ok_distinct [of ?segs]
    by (metis list.set_intros(2), metis distinct.simps(2) distinct_map list.sel(3) list.simps(9))
  have timeouts: "timeout r' = timeout r0" if "partial_state r0 q ps hc t0 B r'" for B r'
    using that unfolding partial_state_def
    by (metis Reassembler.select_convs(3) Reassembler.surjective Reassembler.update_convs(1))
  obtain r' e where r': "partial_state r0 q ps hc t0 (insert (seg_of c) A) r'"
    and e: "map_of (flows r') ?k = Some e"
    and ins: "insert_continuation now c r =
        (if length (fragments e) \<ge> 4 then finalize_entry ?k True r'
         else if elapsed now (created e) \<ge> timeout r' then finalize_entry ?k True r'
         else check_completion ?k r')"
  proof (cases "map_of (flows r) ?k")
    case None
    let ?r' = "r\<lparr>flows := bt_insert ?k (?f ?new) (flows r)\<rparr>"
    have "partial_state r0 q ps hc t0 (insert (seg_of c) A) ?r'"
      using x now by (intro partial_new [OF sp st _ None]) (auto simp: seg_of_def)
    then show thesis
      by (rule that [of _ "?f ?new"])
        (use None in \<open>auto simp: insert_continuation_def Let_def c(1) kv_modify_bt_insert\<close>)
  next
    case (Some e)
    let ?r' = "r\<lparr>flows := kv_modify ?k ?f (flows r)\<rparr>"
    have ps': "partial_state r0 q ps hc t0 (insert (seg_of c) A) ?r'"
      using x by (intro partial_update [OF sp st _ Some]) (auto simp: seg_of_def)
    have "fragments e = filter (\<lambda>x. x \<in> A) ?segs"
      using st Some by (simp add: partial_state_def)
    moreover have "(tcp_seq c, w) \<notin> set (filter (\<lambda>x. x \<in> A) ?segs)" for w
      using x(1) c(3) eq_key_imp_eq_value [OF bt_ok_distinct [OF bt_ok_seg_list [OF nw]]]
      by (auto simp: seg_of_def)
    ultimately have "map_of (fragments e) (tcp_seq c) = None"
      by (metis map_of_SomeD not_None_eq)
    then show thesis
      using ps' Some by (intro that [of ?r' "?f e"]) (auto simp: insert_continuation_def Let_def c(1))
  qed
  have "t0 \<le> created e" "fragments e = filter (\<lambda>x. x \<in> insert (seg_of c) A) ?segs"
    using r' e by (simp_all add: partial_state_def)
  then have "\<not> length (fragments e) \<ge> 4" "\<not> elapsed now (created e) \<ge> timeout r'"
    using few now length_filter_le [of "\<lambda>x. x \<in> insert (seg_of c) A" ?segs]
    by (auto simp: timeouts [OF r'] elapsed_def)
  with r' ins show ?thesis
    by auto
qed

lemma feed_partial:
  assumes sp: "record_split q ps hc" and room: "length (flows r0) + 1 < max_flows r0"
    and cs: "\<forall>a \<in> set cs. arrives q ps hc t0 (timeout r0) a" "distinct (map (seg_of \<circ> snd) cs)"
    and st: "partial_state r0 q ps hc t0 A r" and A: "A \<inter> (seg_of \<circ> snd) ` set cs = {}"
    "A \<union> (seg_of \<circ> snd) ` set cs = set (seg_list q ps)" "cs \<noteq> []"
  shows "reasm_feed cs r = (replicate (length cs - 1) None @ [Some (whole_record ps hc)], r0)"
  using cs st A
proof (induction cs arbitrary: A r)
  case Nil
  then show ?case by simp
next
  case (Cons a cs)
  obtain now c where a: "a = (now, c)"
    by (cases a)
  let ?A = "insert (seg_of c) A"
  have arr: "t0 \<le> now" "now < t0 + timeout r0" "flow_key_of c = flow_key_of hc"
    and kind: "c = hc \<or> \<not> has_flag FLAG_FRAGMENT c \<and> has_flag FLAG_CONTINUATION c \<and>
      seg_of c \<in> set (tl (seg_list q ps))"
    using Cons.prems(1) by (simp_all add: arrives_def a)
  have newseg: "seg_of c \<notin> A"
    using Cons.prems(4) by (auto simp: a)
  have hc: "seg_of hc = (q, hd ps)" "has_flag FLAG_FRAGMENT hc"
    using sp by (simp_all add: record_split_def)
  obtain r' where r': "partial_state r0 q ps hc t0 ?A r'"
    "reasm_insert now c r = check_completion (flow_key_of hc) r'"
  proof (cases "c = hc")
    case True
    then show thesis
      using head_arrival [OF sp Cons.prems(3) room, of now] newseg arr(1) that
      by (auto simp: hc reasm_flag_cases)
  next
    case False
    then show thesis
      using kind continuation_arrival [OF sp Cons.prems(3) arr(3) _ newseg arr(1,2)] that
      by (auto simp: reasm_flag_cases)
  qed
  have sub: "?A \<subseteq> set (seg_list q ps)"
    using Cons.prems(5) by (auto simp: a)
  have step: "reasm_insert now c r =
      (if ?A = set (seg_list q ps) then (Some (whole_record ps hc), r0) else (None, r'))"
    unfolding r'(2) by (rule check_partial [OF sp r'(1) _ sub]) simp
  have rest: "?A \<inter> (seg_of \<circ> snd) ` set cs = {}" "?A \<union> (seg_of \<circ> snd) ` set cs = set (seg_list q ps)"
    using Cons.prems(2,4,5) by (auto simp: a)
  show ?case
  proof (cases "cs = []")
    case True
    with rest step show ?thesis
      by (simp add: a)
  next
    case False
    then obtain b where "b \<in> set cs"
      by (meson last_in_set)
    then have "seg_of (snd b) \<in> (seg_of \<circ> snd) ` set cs"
      by force
    then have "seg_of (snd b) \<in> set (seg_list q ps) - ?A"
      using rest by blast
    then have "?A \<noteq> set (seg_list q ps)"
      by blast
    with step have "reasm_insert now c r = (None, r')"
      by simp
    moreover have "reasm_feed cs r' = (replicate (length cs - 1) None @ [Some (whole_record ps hc)], r0)"
      by (rule Cons.IH [OF _ _ r'(1) rest False]) (use Cons.prems(1,2) in auto)
    ultimately show ?thesis
      using False by (cases cs) (simp_all add: a)
  qed
qed


definition sample_head :: RawTlsCapture where
  "sample_head = default_capture\<lparr>flags := FLAG_FRAGMENT, tcp_seq := 100, payload_len := 5,
     payload := [22, 3, 3, 0, 2]\<rparr>"

definition sample_tail :: RawTlsCapture where
  "sample_tail = default_capture\<lparr>flags := FLAG_CONTINUATION, tcp_seq := 105, payload_len := 2,
     payload := [1, 1]\<rparr>"

lemma sample_slices: "payload_slice sample_head = [22, 3, 3, 0, 2]" "payload_slice sample_tail = [1, 1]"
  by (simp_all add: payload_slice_def sample_head_def sample_tail_def RAW_PAYLOAD_SIZE_def)

lemma sample_flags:
  "has_flag FLAG_FRAGMENT sample_head" "\<not> has_flag FLAG_FRAGMENT sample_tail"
  "has_flag FLAG_CONTINUATION sample_tail" "flow_key_of sample_tail = flow_key_of sample_head"
  "tcp_seq sample_head = 100" "tcp_seq sample_tail = 105"
  by (simp_all add: has_flag_def sample_head_def sample_tail_def default_capture_def flag_defs flow_key_of_def)

lemma sample_split: "record_split 100 [[22, 3, 3, 0, 2], [1, 1]] sample_head"
  by (simp add: record_split_def no_wrap_def seg_of_def sample_slices sample_flags record_total_def
      unat_be16)


lemma reassembly_sound_witness:
  "\<exists>r outs rec. reasm_reach (honest (\<lambda>_. [22, 3, 3, 0, 2, 1, 1]) (\<lambda>_. 100)) r outs \<and> rec \<in> set outs \<and>
     \<not> ar_truncated rec \<and> prefix (ar_buffer rec) [22, 3, 3, 0, 2, 1, 1] \<and>
     record_total (payload_slice (ar_head_capture rec)) = Some (length (ar_buffer rec))"
proof -
  let ?S = "\<lambda>_ :: FlowKey. [22, 3, 3, 0, 2, 1, 1] :: bytes" and ?s0 = "\<lambda>_ :: FlowKey. 100 :: u32"
  let ?rec = "\<lparr>ar_head_capture = sample_head, ar_buffer = [22, 3, 3, 0, 2, 1, 1], ar_truncated = False\<rparr>"
  obtain r1 where feed: "reasm_insert 1 sample_tail reassembler_new = (None, r1)"
    "reasm_insert 2 sample_head r1 = (Some ?rec, reassembler_new)"
    using feed_partial [OF sample_split, of reassembler_new "[(1, sample_tail), (2, sample_head)]" 0 "{}" reassembler_new]
    by (auto simp: reassembler_new_def arrives_def seg_of_def sample_slices sample_flags insert_commute
        partial_state_def kv_remove_absent whole_record_def split: prod.splits)
  have "honest ?S ?s0 sample_head" "honest ?S ?s0 sample_tail"
    by (simp_all add: honest_def Let_def slice_of_def sample_slices sample_flags)
  then have "reasm_reach (honest ?S ?s0) reassembler_new ([] @ [] @ [?rec])"
    using reasm_reach.insert_step [OF reasm_reach.insert_step [OF reasm_reach.start _ feed(1)] _ feed(2)]
    by simp
  with reassembly_sound [OF this, of ?rec] show ?thesis
    by (intro exI [of _ reassembler_new] exI [of _ "[] @ [] @ [?rec]"] exI [of _ ?rec])
      (simp add: short_streams_def)
qed

section \<open>Bounds\<close>

lemma snd_check_completion_len: "bt_ok (flows r) \<Longrightarrow> length (flows (snd (check_completion k r))) \<le> length (flows r)"
  using flows_check_completion [of k r] bt.len_remove_le [of "flows r" k] by auto

text \<open>As long as the table respects its limit of at least one flow, inserting the head of a
  record keeps it within the limit: a full table first loses one flow.\<close>

theorem head_insert_bound:
  assumes "bt_ok (flows r)" "length (flows r) \<le> max_flows r" "0 < max_flows r"
    and "has_flag FLAG_FRAGMENT cap"
  shows "length (flows (snd (reasm_insert now cap r))) \<le> max_flows r"
proof -
  let ?k = "flow_key_of cap" and ?q = "cleanup_if_over_limit r"
  have q: "bt_ok (flows ?q)" "max_flows ?q = max_flows r" "length (flows ?q) \<le> max_flows r"
    using assms(1,2) bt.len_remove_le [OF assms(1)]
    by (auto simp: bt_ok_cleanup cleanup_if_over_limit_def kv_remove_def bt_ok_filter le_SucI
        split: list.splits)
  have put: "length (bt_insert ?k e (flows ?q)) \<le> max_flows r" for e
  proof (cases "flows r")
    case Nil
    with assms(3) show ?thesis
      by (simp add: cleanup_if_over_limit_def)
  next
    case (Cons x xs)
    then show ?thesis
      by (intro bt.evict_then_insert_bound [OF assms(1-3), of "fst x"])
        (auto simp: cleanup_if_over_limit_def split: prod.splits)
  qed
  show ?thesis
    using q put bt_ok_insert
    by (auto simp: reasm_flag_cases(1) [OF assms(4)] insert_head_def Let_def split: option.split
        intro!: order_trans [OF snd_check_completion_len])
qed

lemma head_insert_bound_witness:
  "length (flows (snd (reasm_insert 0 sample_head reassembler_new))) \<le> 1024"
  using head_insert_bound [of reassembler_new sample_head 0]
  by (simp add: reassembler_new_def sample_flags)

lemma new_flow_continuation:
  assumes "\<not> has_flag FLAG_FRAGMENT c" "has_flag FLAG_CONTINUATION c"
    and "map_of (flows r) (flow_key_of c) = None" "0 < timeout r"
  shows "reasm_insert now c r = (None, r\<lparr>flows := bt_insert (flow_key_of c)
    \<lparr>fragments = [(tcp_seq c, payload_slice c)], created = now, head = None, expected_total = None\<rparr>
    (flows r)\<rparr>)"
  using assms
  by (simp add: reasm_flag_cases insert_continuation_def Let_def kv_modify_bt_insert elapsed_def
      check_completion_def)

text \<open>The flow limit is enforced only when a record head is inserted: continuations of
  flows whose head was never seen each add an entry, so any number of them is held until a
  sweep, whatever \<open>max_flows\<close> is.\<close>

theorem orphans_unbounded:
  assumes "\<forall>c \<in> set cs. \<not> has_flag FLAG_FRAGMENT c \<and> has_flag FLAG_CONTINUATION c"
    and "distinct (map flow_key_of cs)"
  shows "length (flows (snd (reasm_feed (map (Pair now) cs) reassembler_new))) = length cs"
proof -
  have "length (flows (snd (reasm_feed (map (Pair now) cs) r))) = length (flows r) + length cs"
    if "bt_ok (flows r)" "0 < timeout r" "\<forall>c \<in> set cs. map_of (flows r) (flow_key_of c) = None" for r
    using assms that
  proof (induction cs arbitrary: r)
    case Nil
    then show ?case by simp
  next
    case (Cons c cs)
    let ?e = "\<lparr>fragments = [(tcp_seq c, payload_slice c)], created = now, head = None, expected_total = None\<rparr>"
    let ?r = "r\<lparr>flows := bt_insert (flow_key_of c) ?e (flows r)\<rparr>"
    have "reasm_insert now c r = (None, ?r)"
      using Cons.prems by (intro new_flow_continuation) auto
    moreover have "length (flows (snd (reasm_feed (map (Pair now) cs) ?r))) = length (flows ?r) + length cs"
      using Cons.prems by (intro Cons.IH) (auto simp: image_iff)
    ultimately show ?case
      using Cons.prems bt.len_insert [of "flows r" "flow_key_of c" ?e] by (simp add: case_prod_beta)
  qed
  from this [of reassembler_new] show ?thesis
    by (simp add: reassembler_new_def)
qed

lemma orphans_unbounded_witness:
  "length (flows (snd (reasm_feed (map (Pair 7) [sample_tail, sample_tail\<lparr>src_port := 9\<rparr>]) reassembler_new))) = 2"
  using orphans_unbounded [of "[sample_tail, sample_tail\<lparr>src_port := 9\<rparr>]" 7]
  by (simp add: has_flag_def sample_tail_def default_capture_def flag_defs flow_key_of_def)

text \<open>A continuation that is not a retransmission leaves fewer than four fragments in its
  flow's entry: the fourth one finalizes the entry, and the record it emits is marked
  truncated.\<close>

theorem continuation_cap:
  assumes "\<not> has_flag FLAG_FRAGMENT c" "has_flag FLAG_CONTINUATION c"
    and "\<forall>e. map_of (flows r) (flow_key_of c) = Some e \<longrightarrow> map_of (fragments e) (tcp_seq c) = None"
    and "reasm_insert now c r = (out, r')"
  shows "(\<forall>e. map_of (flows r') (flow_key_of c) = Some e \<longrightarrow> length (fragments e) < 4) \<and>
    (\<forall>e rec. map_of (flows r) (flow_key_of c) = Some e \<and> 3 \<le> length (fragments e) \<and>
       bt_ok (fragments e) \<and> out = Some rec \<longrightarrow> ar_truncated rec)"
proof -
  have ins: "insert_continuation now c r = (out, r')"
    using assms(1,2,4) by (simp add: reasm_flag_cases)
  let ?k = "flow_key_of c"
  have "map_of (flows r') ?k = Some e \<Longrightarrow> length (fragments e) < 4" for e
    using ins assms(3)
    by (auto simp: insert_continuation_def Let_def finalize_entry_def check_completion_def
        kv_modify_bt_insert split: option.splits if_splits prod.splits)
  moreover have "ar_truncated rec"
    if "map_of (flows r) ?k = Some e" "3 \<le> length (fragments e)" "bt_ok (fragments e)" "out = Some rec" for e rec
  proof -
    have "length (bt_insert (tcp_seq c) (payload_slice c) (fragments e)) \<ge> 4"
      using that(1-3) assms(3) bt.len_insert [of "fragments e" "tcp_seq c" "payload_slice c"] by simp
    then show ?thesis
      using ins that(1,4) assms(3)
      by (auto simp: insert_continuation_def Let_def finalize_entry_def split: option.splits)
  qed
  ultimately show ?thesis
    by blast
qed

text \<open>A record of seven bytes whose head is there, with two pieces from after it: the fourth piece
  completes it, and it is reported truncated.\<close>

definition sample_entry :: ReassemblyEntry where
  "sample_entry =
     \<lparr>fragments = [(100, [22, 3, 3, 0, 2]), (107, [9]), (108, [9])], created = 0,
      head = Some \<lparr>hd_seq = 100, hd_capture = sample_head\<rparr>, expected_total = Some 7\<rparr>"

definition sample_three :: Reassembler where
  "sample_three = reassembler_new\<lparr>flows := [(flow_key_of sample_head, sample_entry)]\<rparr>"

lemma continuation_cap_witness:
  "map_option ar_truncated (fst (reasm_insert 0 sample_tail sample_three)) = Some True"
proof -
  have fl: "map_of (flows sample_three) (flow_key_of sample_tail) = Some sample_entry"
    by (simp add: sample_three_def sample_flags)
  obtain out r' where ins: "reasm_insert 0 sample_tail sample_three = (out, r')"
    by fastforce
  have "\<exists>rec. out = Some rec"
    using ins by (auto simp: reasm_flag_cases sample_flags insert_continuation_def Let_def fl sample_entry_def
        sample_three_def finalize_entry_def split: option.splits if_splits)
  then show ?thesis
    using continuation_cap [OF sample_flags(2,3) _ ins] fl
    by (auto simp: ins sample_entry_def sample_flags bt_ok_Cons)
qed

end
