(* ===== verification/Worker.thy ===== *)
theory Worker
  imports Record_Walk Reasm
begin

text \<open>
  \<open>crates/tls-probe-cli/src/commands/capture.rs\<close>, the worker task of \<open>run\<close>: one loop iteration
  per capture, in which the reassembler, the parser, the correlator, the record walk, the
  certificate parser and the container resolver meet.

  Third-party code is in \<open>Deps\<close>: SHA-256, the X.509 decoder, the RFC 3339 printer and
  \<open>serde_json\<close>.  What an iteration reads of the outside world is in \<open>Env\<close>: the clocks, each read
  once per iteration, the iteration order of the correlator's hash map, and the cgroup file system.
  \<open>w_accepts\<close> is the writer channel: how many more lines its receiver takes before it is gone
  (\<open>None\<close> if it never goes); a send after that is an error.  The \<open>debug!\<close> output of verbose
  mode is not modelled.
\<close>

section \<open>State\<close>

record Deps =
  d_sha :: "string \<Rightarrow> string"
  d_parse_x509 :: "bytes \<Rightarrow> X509 option"
  d_rfc3339 :: "int \<Rightarrow> string option"
  d_to_json :: "CaptureEvent \<Rightarrow> bytes option"

record Env =
  en_instant :: nat
  en_now_ns :: u64
  en_utc :: string
  en_asn1_now :: int
  en_iter :: "pending \<Rightarrow> pending"
  en_fs :: fs_env

record Worker =
  w_reasm :: Reassembler
  w_corr :: Correlator
  w_counter :: u32
  w_cache :: ResolverCache
  w_sh_without_ch :: u64
  w_alerts_dropped :: u64
  w_certs_dropped_13 :: u64
  w_lines :: "bytes list"
  w_accepts :: "nat option"

definition worker_new :: "nat option \<Rightarrow> Worker" where
  "worker_new accepts =
     \<lparr>w_reasm = reassembler_new, w_corr = correlator_new, w_counter = 0, w_cache = resolver_new,
      w_sh_without_ch = 0, w_alerts_dropped = 0, w_certs_dropped_13 = 0, w_lines = [], w_accepts = accepts\<rparr>"

text \<open>
  How an iteration goes on after its capture: to the sweep, to the next capture (\<open>continue\<close>), or
  out of the loop (\<open>break\<close>).
\<close>

datatype LoopCtl = ToSweep | NextCapture | Stop

text \<open>\<open>if let Ok(x) = r\<close>; and the result of a call that has no \<open>Err\<close>.\<close>

fun ok_of :: "('e, 'a) run \<Rightarrow> ('f, 'a option) run" where
  "ok_of (Ret x) = Ret (Some x)"
| "ok_of (Fail e) = Ret None"
| "ok_of Panic = Panic"

fun no_err :: "('e, 'a) run \<Rightarrow> ('f, 'a) run" where
  "no_err (Ret x) = Ret x"
| "no_err (Fail e) = Panic"
| "no_err Panic = Panic"

section \<open>Output\<close>

definition json_line :: "Deps \<Rightarrow> CaptureEvent \<Rightarrow> bytes" where
  "json_line d ev = (case d_to_json d ev of None \<Rightarrow> [] | Some b \<Rightarrow> b) @ [0x0A]"

definition send_line :: "bytes \<Rightarrow> Worker \<Rightarrow> bool \<times> Worker" where
  "send_line line w =
     (case w_accepts w of
        None \<Rightarrow> (True, w\<lparr>w_lines := w_lines w @ [line]\<rparr>)
      | Some 0 \<Rightarrow> (False, w)
      | Some (Suc n) \<Rightarrow> (True, w\<lparr>w_lines := w_lines w @ [line], w_accepts := Some n\<rparr>))"

definition enrich :: "Env \<Rightarrow> RawTlsCapture \<Rightarrow> CaptureEvent \<Rightarrow> Worker \<Rightarrow> CaptureEvent \<times> Worker" where
  "enrich en c ev w =
     (case enrich_with_cgroup resolve_inode (en_fs en) c ev (w_cache w) of
        (ev', cache) \<Rightarrow> (ev', w\<lparr>w_cache := cache\<rparr>))"

definition send_event :: "Deps \<Rightarrow> Env \<Rightarrow> RawTlsCapture \<Rightarrow> CaptureEvent \<Rightarrow> Worker \<Rightarrow> bool \<times> Worker" where
  "send_event d en c ev w = (case enrich en c ev w of (ev', w1) \<Rightarrow> send_line (json_line d ev') w1)"

definition finish_event :: "Deps \<Rightarrow> Env \<Rightarrow> RawTlsCapture \<Rightarrow> CaptureEvent \<Rightarrow> Worker \<Rightarrow> LoopCtl \<times> Worker" where
  "finish_event d en c ev w =
     (case send_event d en c ev w of (sent, w1) \<Rightarrow> (if sent then ToSweep else Stop, w1))"

section \<open>Handshake messages\<close>

text \<open>The steps the two branches of the loop, for a reassembled record and for a direct one, share.\<close>

definition note_client_hello :: "Env \<Rightarrow> ConnKey \<Rightarrow> bytes \<Rightarrow> Worker \<Rightarrow> (unit, Worker) run" where
  "note_client_hello en key p w =
     rbind (ok_of (parse_tls_payload p True)) (\<lambda>r.
       case r of
         None \<Rightarrow> Ret w
       | Some analysis \<Rightarrow>
           Ret (w\<lparr>w_corr := snd (on_client_hello (en_iter en) (en_now_ns en) key analysis (w_corr w))\<rparr>))"

definition note_server_hello ::
  "ConnKey \<Rightarrow> TlsAnalysis \<Rightarrow> CaptureEvent \<Rightarrow> Worker \<Rightarrow> CaptureEvent \<times> Worker" where
  "note_server_hello key analysis ev w =
     (case on_server_hello key analysis (w_corr w) of
        (Some negotiation, co) \<Rightarrow> (ev\<lparr>ev_negotiation := Some negotiation\<rparr>, w\<lparr>w_corr := co\<rparr>)
      | (None, co) \<Rightarrow> (ev, w\<lparr>w_corr := co, w_sh_without_ch := w_sh_without_ch w + 1\<rparr>))"

definition note_alert :: "ConnKey \<Rightarrow> bytes \<Rightarrow> CaptureEvent \<Rightarrow> Worker \<Rightarrow> CaptureEvent \<times> Worker" where
  "note_alert key p ev w =
     (case parse_alert p of
        None \<Rightarrow> (ev, w\<lparr>w_alerts_dropped := w_alerts_dropped w + 1\<rparr>)
      | Some (level, description) \<Rightarrow>
          (case on_alert key level description (w_corr w) of
             (Some negotiation, co) \<Rightarrow> (ev\<lparr>ev_negotiation := Some negotiation\<rparr>, w\<lparr>w_corr := co\<rparr>)
           | (None, co) \<Rightarrow> (ev, w\<lparr>w_corr := co, w_alerts_dropped := w_alerts_dropped w + 1\<rparr>)))"

text \<open>\<open>if p.len() > 4 \<open>{\<close> parse_certificate(&p[4..]) \<open>}\<close>\<close>\<close>

definition attach_certificate :: "Deps \<Rightarrow> Env \<Rightarrow> bytes \<Rightarrow> CaptureEvent \<Rightarrow> (unit, CaptureEvent) run" where
  "attach_certificate d en p ev =
     (if length p > 4 then
        rbind (subslice p 4 (length p)) (\<lambda>cert_payload.
        rbind (parse_certificate (d_parse_x509 d) (d_rfc3339 d) (en_asn1_now en) cert_payload) (\<lambda>r.
          case r of
            None \<Rightarrow> Ret ev
          | Some cert \<Rightarrow> Ret (ev\<lparr>ev_certificate := Some cert\<rparr>)))
      else Ret ev)"

text \<open>Whether the record is reported as TLS 1.3, in which case it is counted and skipped.\<close>

definition drop_if_13 :: "bytes \<Rightarrow> bool \<Rightarrow> Worker \<Rightarrow> (unit, bool \<times> Worker) run" where
  "drop_if_13 p is_client w =
     rbind (ok_of (parse_tls_payload p is_client)) (\<lambda>r.
       case r of
         None \<Rightarrow> Ret (False, w)
       | Some analysis \<Rightarrow>
           if effective_version analysis = 0x0304
           then Ret (True, w\<lparr>w_certs_dropped_13 := w_certs_dropped_13 w + 1\<rparr>)
           else Ret (False, w))"

definition note_certificate ::
  "Deps \<Rightarrow> Env \<Rightarrow> RawTlsCapture \<Rightarrow> ConnKey \<Rightarrow> bytes \<Rightarrow> CaptureEvent \<Rightarrow> Worker \<Rightarrow>
     (unit, bool \<times> CaptureEvent \<times> Worker) run" where
  "note_certificate d en c key p ev w =
     (let is_client = has_flag FLAG_INGRESS c in
      rbind (attach_certificate d en p ev) (\<lambda>ev1.
        let (ev2, w1) =
          (if is_client then
             (case on_client_certificate key (w_corr w) of
                (Some neg, co) \<Rightarrow> (ev1\<lparr>ev_negotiation := Some neg\<rparr>, w\<lparr>w_corr := co\<rparr>)
              | (None, co) \<Rightarrow> (ev1, w\<lparr>w_corr := co\<rparr>))
           else (ev1, w))
        in rbind (drop_if_13 p is_client w1) (\<lambda>(dropped, w2). Ret (dropped, ev2, w2))))"

definition note_certificate_request :: "ConnKey \<Rightarrow> bytes \<Rightarrow> Worker \<Rightarrow> (unit, bool \<times> Worker) run" where
  "note_certificate_request key p w =
     drop_if_13 p False (w\<lparr>w_corr := on_certificate_request key (w_corr w)\<rparr>)"

section \<open>The two branches\<close>

definition process_assembled :: "Deps \<Rightarrow> Env \<Rightarrow> AssembledRecord \<Rightarrow> Worker \<Rightarrow> (unit, LoopCtl \<times> Worker) run" where
  "process_assembled d en rec w =
     (let c = ar_head_capture rec; p = ar_buffer rec; key = conn_key_of c in
      rbind (no_err (analyze_capture_with_payload (d_sha d) (en_utc en) c p)) (\<lambda>ev0.
      let ev = ev0\<lparr>ev_reassembled := Some True, ev_truncated := Some (ar_truncated rec)\<rparr> in
      if cap_is_client_hello c then
        rbind (note_client_hello en key p w) (\<lambda>w1. Ret (finish_event d en c ev w1))
      else if cap_is_server_hello c then
        rbind (ok_of (parse_tls_payload p False)) (\<lambda>r.
          case r of
            None \<Rightarrow> Ret (finish_event d en c ev w)
          | Some analysis \<Rightarrow>
              (case note_server_hello key analysis ev w of
                 (ev1, w1) \<Rightarrow> Ret (finish_event d en c ev1 w1)))
      else if has_flag FLAG_ALERT c then
        (case note_alert key p ev w of (ev1, w1) \<Rightarrow> Ret (finish_event d en c ev1 w1))
      else if handshake_type c = 0x0B then
        rbind (note_certificate d en c key p ev w) (\<lambda>(dropped, ev1, w1).
          Ret (if dropped then (NextCapture, w1) else finish_event d en c ev1 w1))
      else if handshake_type c = 0x0D then
        rbind (note_certificate_request key p w) (\<lambda>(dropped, w1).
          Ret (if dropped then (NextCapture, w1) else finish_event d en c ev w1))
      else Ret (finish_event d en c ev w)))"

definition note_walked_requests :: "ConnKey \<Rightarrow> ExtractedRecord list \<Rightarrow> Correlator \<Rightarrow> Correlator" where
  "note_walked_requests key records co =
     fold (\<lambda>r co. if record_handshake_type r = 0x0D then on_certificate_request key co else co) records co"

primrec emit_walked ::
  "Deps \<Rightarrow> Env \<Rightarrow> RawTlsCapture \<Rightarrow> ExtractedRecord list \<Rightarrow> Worker \<Rightarrow> (unit, Worker) run" where
  "emit_walked d en c [] w = Ret w"
| "emit_walked d en c (r # rs) w =
     (case synthesize_event_from_walked_record (en_utc en) c r of
        (ev, ht) \<Rightarrow>
          rbind (if ht = 0x0B then attach_certificate d en (er_body r) ev else Ret ev) (\<lambda>ev1.
            case send_event d en c ev1 w of
              (True, w1) \<Rightarrow> emit_walked d en c rs w1
            | (False, w1) \<Rightarrow> Ret w1))"

definition walk_if_tls12 :: "TlsAnalysis \<Rightarrow> bytes \<Rightarrow> (unit, ExtractedRecord list) run" where
  "walk_if_tls12 analysis p = (if effective_version analysis \<le> 0x0303 then walk_records p else Ret [])"

definition process_direct :: "Deps \<Rightarrow> Env \<Rightarrow> RawTlsCapture \<Rightarrow> Worker \<Rightarrow> (unit, LoopCtl \<times> Worker) run" where
  "process_direct d en c w =
     (let p = payload_slice c; key = conn_key_of c in
      rbind (no_err (analyze_capture (d_sha d) (en_utc en) c)) (\<lambda>ev.
      if cap_is_client_hello c then
        rbind (note_client_hello en key p w) (\<lambda>w1. Ret (finish_event d en c ev w1))
      else if cap_is_server_hello c then
        rbind (ok_of (parse_tls_payload p False)) (\<lambda>r.
          case r of
            None \<Rightarrow> Ret (finish_event d en c ev w)
          | Some analysis \<Rightarrow>
              rbind (walk_if_tls12 analysis p) (\<lambda>walked.
              let w1 = w\<lparr>w_corr := note_walked_requests key walked (w_corr w)\<rparr> in
              case note_server_hello key analysis ev w1 of
                (ev1, w2) \<Rightarrow>
                  rbind (walk_if_tls12 analysis p) (\<lambda>walked'.
                  rbind (emit_walked d en c walked' w2) (\<lambda>w3. Ret (finish_event d en c ev1 w3)))))
      else if has_flag FLAG_ALERT c then
        (case note_alert key p ev w of (ev1, w1) \<Rightarrow> Ret (finish_event d en c ev1 w1))
      else if handshake_type c = 0x0B then
        rbind (note_certificate d en c key p ev w) (\<lambda>(dropped, ev1, w1).
          Ret (if dropped then (NextCapture, w1) else finish_event d en c ev1 w1))
      else if handshake_type c = 0x0D then
        rbind (note_certificate_request key p w) (\<lambda>(dropped, w1).
          Ret (if dropped then (NextCapture, w1) else finish_event d en c ev w1))
      else Ret (finish_event d en c ev w)))"

section \<open>The sweep\<close>

primrec emit_expired :: "Deps \<Rightarrow> Env \<Rightarrow> AssembledRecord list \<Rightarrow> Worker \<Rightarrow> (unit, Worker) run" where
  "emit_expired d en [] w = Ret w"
| "emit_expired d en (rec # recs) w =
     rbind (no_err (analyze_capture_with_payload (d_sha d) (en_utc en) (ar_head_capture rec) (ar_buffer rec)))
       (\<lambda>ev.
       case send_event d en (ar_head_capture rec)
              (ev\<lparr>ev_reassembled := Some True, ev_truncated := Some (ar_truncated rec)\<rparr>) w of
         (True, w1) \<Rightarrow> emit_expired d en recs w1
       | (False, w1) \<Rightarrow> Ret w1)"

definition sweep_tick :: "Deps \<Rightarrow> Env \<Rightarrow> Worker \<Rightarrow> (unit, Worker) run" where
  "sweep_tick d en w =
     (let w1 = w\<lparr>w_counter := w_counter w + 1\<rparr> in
      if w_counter w1 mod 500 = 0 then
        (case sweep_expired (en_instant en) (w_reasm w1) of
           (expired_recs, r) \<Rightarrow>
             emit_expired d en expired_recs
               (w1\<lparr>w_corr := snd (corr_sweep_expired (en_now_ns en) (w_corr w1)), w_reasm := r\<rparr>))
      else Ret w1)"

section \<open>The loop\<close>

definition partial_capture :: "RawTlsCapture \<Rightarrow> bool" where
  "partial_capture c = (flags c AND (FLAG_FRAGMENT OR FLAG_CONTINUATION) \<noteq> 0)"

definition handle_capture :: "Deps \<Rightarrow> Env \<Rightarrow> RawTlsCapture \<Rightarrow> Worker \<Rightarrow> (unit, LoopCtl \<times> Worker) run" where
  "handle_capture d en c w =
     (case (if partial_capture c then reasm_insert (en_instant en) c (w_reasm w) else (None, w_reasm w)) of
        (assembled, r) \<Rightarrow>
          (let w1 = w\<lparr>w_reasm := r\<rparr> in
           case assembled of
             Some rec \<Rightarrow> process_assembled d en rec w1
           | None \<Rightarrow> if \<not> partial_capture c then process_direct d en c w1 else Ret (ToSweep, w1)))"

text \<open>One iteration; \<open>False\<close> when the loop is left.\<close>

definition worker_step :: "Deps \<Rightarrow> Env \<Rightarrow> RawTlsCapture \<Rightarrow> Worker \<Rightarrow> (unit, bool \<times> Worker) run" where
  "worker_step d en c w =
     rbind (handle_capture d en c w) (\<lambda>(ctl, w1).
       case ctl of
         ToSweep \<Rightarrow> rbind (sweep_tick d en w1) (\<lambda>w2. Ret (True, w2))
       | NextCapture \<Rightarrow> Ret (True, w1)
       | Stop \<Rightarrow> Ret (False, w1))"

primrec worker_run :: "Deps \<Rightarrow> (Env \<times> RawTlsCapture) list \<Rightarrow> Worker \<Rightarrow> (unit, Worker) run" where
  "worker_run d [] w = Ret w"
| "worker_run d (i # is) w =
     rbind (worker_step d (fst i) (snd i) w) (\<lambda>(go, w1). if go then worker_run d is w1 else Ret w1)"

section \<open>Total correctness of computations\<close>

text \<open>\<open>ensures r P\<close>: the computation returns, without an error or a panic, and its result satisfies \<open>P\<close>.\<close>

definition ensures :: "('e, 'a) run \<Rightarrow> ('a \<Rightarrow> bool) \<Rightarrow> bool" where
  "ensures r P = (\<exists>x. r = Ret x \<and> P x)"

lemma ensures_Ret [simp]: "ensures (Ret x) P = P x"
  by (simp add: ensures_def)

lemma ensures_bind:
  "ensures r Q \<Longrightarrow> (\<And>x. r = Ret x \<Longrightarrow> Q x \<Longrightarrow> ensures (f x) P) \<Longrightarrow> ensures (rbind r f) P"
  by (auto simp: ensures_def)

lemma ensures_mono: "ensures r Q \<Longrightarrow> (\<And>x. Q x \<Longrightarrow> P x) \<Longrightarrow> ensures r P"
  by (auto simp: ensures_def)

lemma ensures_ok_parse: "ensures (ok_of (parse_tls_payload p b)) (\<lambda>_. True)"
  using parse_payload_not_Panic [of p b] by (cases "parse_tls_payload p b") (auto simp: ensures_def)

section \<open>What a message does to the correlator\<close>

text \<open>
  \<open>corr_trace key n co co'\<close>: the correlator has gone from \<open>co\<close> to \<open>co'\<close> by its own operations,
  all on connection \<open>key\<close>, of which at most \<open>n\<close> record a ClientHello.
\<close>

definition client_op :: "CorrOp \<Rightarrow> bool" where
  "client_op op = (case op of OpClientHello _ _ _ \<Rightarrow> True | _ \<Rightarrow> False)"

definition corr_trace :: "ConnKey \<Rightarrow> nat \<Rightarrow> Correlator \<Rightarrow> Correlator \<Rightarrow> bool" where
  "corr_trace key n co co' =
     (\<exists>ops. (\<forall>i \<in> set ops. iter_ok (fst i) \<and> op_key (snd i) = Some key) \<and>
        length (filter (\<lambda>i. client_op (snd i)) ops) \<le> n \<and> co' = snd (run_outputs corr_op ops co))"

lemma run_outputs_append:
  "snd (run_outputs f (xs @ ys) s) = snd (run_outputs f ys (snd (run_outputs f xs s)))"
  by (simp add: snd_run_outputs)

lemma corr_trace_refl [simp]: "corr_trace key n co co"
  unfolding corr_trace_def by (intro exI [of _ "[]"]) simp

lemma corr_trace_trans:
  assumes "corr_trace key n a b" "corr_trace key m b c"
  shows "corr_trace key (n + m) a c"
proof -
  from assms obtain xs ys where "\<forall>i \<in> set (xs @ ys). iter_ok (fst i) \<and> op_key (snd i) = Some key"
    "length (filter (\<lambda>i. client_op (snd i)) (xs @ ys)) \<le> n + m"
    "b = snd (run_outputs corr_op xs a)" "c = snd (run_outputs corr_op ys b)"
    by (fastforce simp: corr_trace_def)
  then show ?thesis
    unfolding corr_trace_def by (intro exI [of _ "xs @ ys"]) (simp add: run_outputs_append)
qed

lemma corr_trace_op:
  "iter_ok iter \<Longrightarrow> op_key op = Some key \<Longrightarrow> (if client_op op then 1 else 0) \<le> n \<Longrightarrow>
     corr_trace key n co (snd (corr_op (iter, op) co))"
  unfolding corr_trace_def by (intro exI [of _ "[(iter, op)]"]) (auto simp: case_prod_beta split: if_splits)

lemma iter_ok_id: "iter_ok (\<lambda>p. p)"
  by (simp add: iter_ok_def)

lemma corr_trace_ops:
  "iter_ok iter \<Longrightarrow> corr_trace key (Suc 0) co (snd (on_client_hello iter now key a co))"
  "corr_trace key 0 co (snd (on_server_hello key a co))"
  "corr_trace key 0 co (snd (on_alert key l ds co))"
  "corr_trace key 0 co (snd (on_client_certificate key co))"
  "corr_trace key 0 co (on_certificate_request key co)"
  using corr_trace_op [of iter "OpClientHello now key a" key "Suc 0" co]
    corr_trace_op [OF iter_ok_id, of "OpServerHello key a" key 0 co]
    corr_trace_op [OF iter_ok_id, of "OpAlert key l ds" key 0 co]
    corr_trace_op [OF iter_ok_id, of "OpClientCertificate key" key 0 co]
    corr_trace_op [OF iter_ok_id, of "OpCertificateRequest key" key 0 co]
  by (simp_all add: client_op_def)

lemma corr_trace_walked: "corr_trace key 0 co (note_walked_requests key rs co)"
  unfolding note_walked_requests_def
proof (induction rs arbitrary: co)
  case (Cons r rs)
  show ?case
    using corr_trace_trans [OF corr_trace_ops(5) [of key co] Cons [of "on_certificate_request key co"]] Cons [of co]
    by simp
qed simp

lemma corr_trace_inv:
  assumes "corr_trace key n co co'" "corr_inv co"
  shows "corr_inv co'"
  using assms corr.run_inv_from by (auto simp: corr_trace_def snd_run_outputs)

text \<open>The entry of another connection survives, as long as there is room for the new ones.\<close>

lemma other_op_keeps:
  assumes "op_key op = Some j" "j \<noteq> k" "length (pending c) + (if client_op op then 1 else 0) \<le> max_entries c"
  shows "map_of (pending (snd (corr_op (iter, op) c))) k = map_of (pending c) k"
    "max_entries (snd (corr_op (iter, op) c)) = max_entries c" "ttl_ns (snd (corr_op (iter, op) c)) = ttl_ns c"
    "length (pending (snd (corr_op (iter, op) c))) \<le> length (pending c) + (if client_op op then 1 else 0)"
  using assms length_hm_insert_le [of j _ "pending c"] length_kv_remove_le [of j "pending c"]
  by (cases op; auto simp: on_client_hello_def on_server_hello_def on_alert_def Let_def client_op_def
      on_certificate_request_def on_client_certificate_def split: TlsAnalysis.split option.split)+

lemma corr_trace_other:
  assumes "corr_trace key n co co'" "key \<noteq> k" "length (pending co) + n \<le> max_entries co"
  shows "map_of (pending co') k = map_of (pending co) k \<and> max_entries co' = max_entries co \<and>
    ttl_ns co' = ttl_ns co \<and> length (pending co') \<le> length (pending co) + n"
proof -
  obtain ops where ops: "\<forall>i \<in> set ops. op_key (snd i) = Some key"
    "length (filter (\<lambda>i. client_op (snd i)) ops) \<le> n" "co' = snd (run_outputs corr_op ops co)"
    using assms(1) by (auto simp: corr_trace_def)
  then show ?thesis
    using assms(3)
  proof (induction ops arbitrary: co n)
    case (Cons i ops)
    obtain iter op where i: "i = (iter, op)"
      by (cases i)
    let ?m = "if client_op op then 1 else 0" and ?c = "snd (corr_op (iter, op) co)"
    have op: "op_key op = Some key" "?m \<le> n" "length (filter (\<lambda>i. client_op (snd i)) ops) \<le> n - ?m"
      using Cons.prems(1,2) by (auto simp: i split: if_splits)
    note st = other_op_keeps [OF op(1) assms(2), of co iter]
    have "length (pending ?c) + (n - ?m) \<le> max_entries ?c"
      using st op(2) Cons.prems(4) by simp
    from Cons.IH [OF _ op(3) _ this] show ?case
      using st op(2) Cons.prems by (fastforce simp: i case_prod_beta)
  qed simp
qed

section \<open>What a capture does to the worker\<close>

text \<open>
  \<open>quiet key n w w'\<close>: only the correlator, the resolver's cache, the counters and the output have
  changed, the correlator by operations on \<open>key\<close>; output already sent stays.
\<close>

definition quiet :: "ConnKey \<Rightarrow> nat \<Rightarrow> Worker \<Rightarrow> Worker \<Rightarrow> bool" where
  "quiet key n w w' =
     (corr_trace key n (w_corr w) (w_corr w') \<and> w_reasm w' = w_reasm w \<and> w_counter w' = w_counter w \<and>
      (\<exists>ls. w_lines w' = w_lines w @ ls) \<and> (w_accepts w = None \<longrightarrow> w_accepts w' = None))"

text \<open>An event that carries the connection, time, process and cgroup of the capture \<open>c\<close>.\<close>

definition event_of :: "RawTlsCapture \<Rightarrow> CaptureEvent \<Rightarrow> bool" where
  "event_of c ev =
     (ev_src ev = endpoint (src_addr_str c) (src_port c) \<and> ev_dst ev = endpoint (dst_addr_str c) (dst_port c) \<and>
      ev_timestamp_ns ev = timestamp_ns c \<and> (ev_process_name ev, ev_pid ev) = process_attribution c)"

lemma event_of_updates [simp]:
  "event_of c (ev\<lparr>ev_negotiation := n\<rparr>) = event_of c ev"
  "event_of c (ev\<lparr>ev_certificate := ct\<rparr>) = event_of c ev"
  "event_of c (ev\<lparr>ev_reassembled := b\<rparr>) = event_of c ev"
  "event_of c (ev\<lparr>ev_truncated := b\<rparr>) = event_of c ev"
  "event_of c (ev\<lparr>ev_cgroup_id := g, ev_container_id := ci, ev_pod_uid := u\<rparr>) = event_of c ev"
  by (simp_all add: event_of_def)

lemma analyze_ensures: "ensures (no_err (analyze_capture_with_payload sha now c p)) (event_of c)"
proof -
  obtain ev where "analyze_capture_with_payload sha now c p = Ret ev" "event_of c ev"
    using analysis_event [of sha now c p] by (auto simp: event_of_def)
  then show ?thesis
    by simp
qed

lemma quiet_refl [simp]: "quiet key n w w"
  by (simp add: quiet_def)

lemma quiet_trans: "quiet key n a b \<Longrightarrow> quiet key m b c \<Longrightarrow> quiet key (n + m) a c"
  by (auto simp: quiet_def intro: corr_trace_trans)

lemma quiet_more: "quiet key n a b \<Longrightarrow> n \<le> m \<Longrightarrow> quiet key m a b"
  using quiet_trans [of key n a b "m - n" b] by simp

lemma quiet_corr: "corr_trace key n (w_corr w) co \<Longrightarrow> quiet key n w (w\<lparr>w_corr := co\<rparr>)"
  by (simp add: quiet_def)

lemma quiet_counts [simp]:
  "quiet key n w (w'\<lparr>w_sh_without_ch := x\<rparr>) = quiet key n w w'"
  "quiet key n w (w'\<lparr>w_alerts_dropped := x\<rparr>) = quiet key n w w'"
  "quiet key n w (w'\<lparr>w_certs_dropped_13 := x\<rparr>) = quiet key n w w'"
  by (simp_all add: quiet_def)

text \<open>The event after attribution: only the cgroup and container fields may differ.\<close>

definition enriched :: "CaptureEvent \<Rightarrow> CaptureEvent \<Rightarrow> bool" where
  "enriched ev ev' = (\<exists>g ci u. ev' = ev\<lparr>ev_cgroup_id := g, ev_container_id := ci, ev_pod_uid := u\<rparr>)"

lemma enriched_keeps:
  assumes "enriched ev ev'"
  shows "ev_negotiation ev' = ev_negotiation ev" "ev_certificate ev' = ev_certificate ev"
    "ev_reassembled ev' = ev_reassembled ev" "ev_truncated ev' = ev_truncated ev"
    "ev_sni ev' = ev_sni ev" "ev_tls_version ev' = ev_tls_version ev" "ev_handshake_type ev' = ev_handshake_type ev"
    "ev_cipher_suites ev' = ev_cipher_suites ev" "ev_key_exchange_groups ev' = ev_key_exchange_groups ev"
    "ev_ja4 ev' = ev_ja4 ev" "ev_alert_description ev' = ev_alert_description ev"
  using assms by (auto simp: enriched_def)

lemma enriched_refl: "enriched ev ev"
  unfolding enriched_def by (intro exI [of _ "ev_cgroup_id ev"] exI [of _ "ev_container_id ev"] exI [of _ "ev_pod_uid ev"]) simp

lemma enrich_effect:
  assumes "enrich en c ev w = (ev', w')"
  shows "enriched ev ev'" "event_of c ev' = event_of c ev" "\<exists>cache. w' = w\<lparr>w_cache := cache\<rparr>"
proof -
  obtain ev1 cache where e: "enrich_with_cgroup resolve_inode (en_fs en) c ev (w_cache w) = (ev1, cache)"
    by fastforce
  with assms have "ev' = ev1" "w' = w\<lparr>w_cache := cache\<rparr>"
    by (simp_all add: enrich_def)
  with e show "enriched ev ev'" "event_of c ev' = event_of c ev" "\<exists>cache. w' = w\<lparr>w_cache := cache\<rparr>"
    by (auto simp: enrich_with_cgroup_def enriched_refl split: prod.splits if_splits) (auto simp: enriched_def)
qed

text \<open>
  \<open>tells d C w w'\<close>: every line sent since \<open>w\<close> is an event about a capture of \<open>C\<close>, whether the
  channel stays open or not.
\<close>

definition tells :: "Deps \<Rightarrow> RawTlsCapture set \<Rightarrow> Worker \<Rightarrow> Worker \<Rightarrow> bool" where
  "tells d C w w' =
     (\<exists>ls. w_lines w' = w_lines w @ ls \<and> (\<forall>l \<in> set ls. \<exists>c \<in> C. \<exists>ev. l = json_line d ev \<and> event_of c ev))"

lemma tells_silent: "w_lines w' = w_lines w \<Longrightarrow> tells d C w w'"
  by (simp add: tells_def)

lemma tells_trans: "tells d C a b \<Longrightarrow> tells d C b e \<Longrightarrow> tells d C a e"
  unfolding tells_def by (elim exE conjE, rule exI, rule conjI, simp, auto)

lemma tells_mono: "tells d C a b \<Longrightarrow> C \<subseteq> D \<Longrightarrow> tells d D a b"
  unfolding tells_def by blast

lemma tells_from: "tells d C a b \<Longrightarrow> w_lines a' = w_lines a \<Longrightarrow> tells d C a' b"
  by (simp add: tells_def)

text \<open>Sending one event: with the channel open its line is appended, enriched but about the same capture.\<close>

lemma send_event_effect:
  assumes "send_event d en c ev w = (sent, w')"
  shows "quiet key n w w'" "w_certs_dropped_13 w' = w_certs_dropped_13 w" "w_corr w' = w_corr w"
    "w_accepts w = None \<Longrightarrow> event_of c ev \<Longrightarrow>
       sent \<and> (\<exists>ev'. w_lines w' = w_lines w @ [json_line d ev'] \<and> event_of c ev' \<and> enriched ev ev')"
    "event_of c ev \<Longrightarrow> tells d {c} w w'"
proof -
  obtain ev' w1 where e: "enrich en c ev w = (ev', w1)"
    by fastforce
  obtain cache where w1: "w1 = w\<lparr>w_cache := cache\<rparr>"
    using enrich_effect(3) [OF e] by auto
  have sl: "send_line (json_line d ev') w1 = (sent, w')"
    using assms by (simp add: send_event_def e)
  show "quiet key n w w'" "w_certs_dropped_13 w' = w_certs_dropped_13 w" "w_corr w' = w_corr w"
    using sl by (auto simp: send_line_def quiet_def w1 split: option.splits nat.splits)
  show "tells d {c} w w'" if "event_of c ev"
    using sl that enrich_effect(2) [OF e] by (fastforce simp: send_line_def tells_def w1 split: option.splits nat.splits)
  assume "w_accepts w = None" "event_of c ev"
  then show "sent \<and> (\<exists>ev'. w_lines w' = w_lines w @ [json_line d ev'] \<and> event_of c ev' \<and> enriched ev ev')"
    using sl enrich_effect(1,2) [OF e] by (auto simp: send_line_def w1)
qed

lemma finish_event_effect:
  assumes "finish_event d en c ev w = (ctl, w')"
  shows "quiet key n w w'" "w_certs_dropped_13 w' = w_certs_dropped_13 w" "ctl \<noteq> NextCapture"
    "w_accepts w = None \<Longrightarrow> event_of c ev \<Longrightarrow>
       ctl = ToSweep \<and> (\<exists>ev'. w_lines w' = w_lines w @ [json_line d ev'] \<and> event_of c ev' \<and> enriched ev ev')"
    "event_of c ev \<Longrightarrow> tells d {c} w w'"
proof -
  obtain sent w1 where s: "send_event d en c ev w = (sent, w1)"
    by fastforce
  note eff = send_event_effect [OF s]
  have w': "w' = w1" "ctl = (if sent then ToSweep else Stop)"
    using assms by (simp_all add: finish_event_def s)
  show "quiet key n w w'" "w_certs_dropped_13 w' = w_certs_dropped_13 w" "ctl \<noteq> NextCapture"
    "event_of c ev \<Longrightarrow> tells d {c} w w'"
    using eff by (simp_all add: w')
  assume "w_accepts w = None" "event_of c ev"
  with eff(4) show "ctl = ToSweep \<and> (\<exists>ev'. w_lines w' = w_lines w @ [json_line d ev'] \<and> event_of c ev' \<and> enriched ev ev')"
    by (simp add: w')
qed

text \<open>
  \<open>handled\<close>: with the channel open, a capture whose processing started in \<open>w\<close> has been answered:
  by its own event, after at most four events of records that follow it, or, for a certificate
  message taken for TLS 1.3, by counting it.
\<close>

definition handled :: "Deps \<Rightarrow> RawTlsCapture \<Rightarrow> Worker \<Rightarrow> LoopCtl \<times> Worker \<Rightarrow> bool" where
  "handled d c w out =
     (w_accepts w = None \<longrightarrow>
        (fst out = ToSweep \<and> w_certs_dropped_13 (snd out) = w_certs_dropped_13 w \<and>
          (\<exists>walked ev. w_lines (snd out) = w_lines w @ map (json_line d) (walked @ [ev]) \<and>
             (\<forall>e \<in> set walked. event_of c e) \<and> event_of c ev \<and> length walked \<le> 4 \<and>
             (walked \<noteq> [] \<longrightarrow> cap_is_server_hello c))) \<or>
        (fst out = NextCapture \<and> w_certs_dropped_13 (snd out) = w_certs_dropped_13 w + 1 \<and>
          w_lines (snd out) = w_lines w \<and> handshake_type c \<in> {0x0B, 0x0D}))"

definition done_with :: "Deps \<Rightarrow> RawTlsCapture \<Rightarrow> Worker \<Rightarrow> LoopCtl \<times> Worker \<Rightarrow> bool" where
  "done_with d c w out = (quiet (conn_key_of c) (Suc 0) w (snd out) \<and> handled d c w out \<and> tells d {c} w (snd out))"

text \<open>A message step that sends nothing and counts no certificate, followed by the event.\<close>

definition noted :: "RawTlsCapture \<Rightarrow> Worker \<Rightarrow> Worker \<Rightarrow> bool" where
  "noted c w w1 =
     (quiet (conn_key_of c) (Suc 0) w w1 \<and> w_lines w1 = w_lines w \<and> w_certs_dropped_13 w1 = w_certs_dropped_13 w \<and>
      w_accepts w1 = w_accepts w)"

lemma finish_done:
  assumes "noted c w w1" "event_of c ev"
  shows "done_with d c w (finish_event d en c ev w1)"
proof -
  obtain ctl w' where f: "finish_event d en c ev w1 = (ctl, w')"
    by fastforce
  note eff = finish_event_effect [OF f]
  have "quiet (conn_key_of c) (Suc 0) w w'"
    using assms(1) eff(1) [of _ 0] quiet_trans [of "conn_key_of c" "Suc 0" w w1 0 w'] by (simp add: noted_def)
  moreover have "handled d c w (ctl, w')"
    unfolding handled_def
  proof (intro impI disjI1)
    assume "w_accepts w = None"
    then obtain ev' where "ctl = ToSweep" "w_lines w' = w_lines w @ [json_line d ev']" "event_of c ev'"
      using assms eff(4) by (auto simp: noted_def)
    then show "fst (ctl, w') = ToSweep \<and> w_certs_dropped_13 (snd (ctl, w')) = w_certs_dropped_13 w \<and>
        (\<exists>walked ev. w_lines (snd (ctl, w')) = w_lines w @ map (json_line d) (walked @ [ev]) \<and>
             (\<forall>e \<in> set walked. event_of c e) \<and> event_of c ev \<and> length walked \<le> 4 \<and>
             (walked \<noteq> [] \<longrightarrow> cap_is_server_hello c))"
      using assms(1) eff(2) by (auto simp: noted_def intro!: exI [of _ "[]"])
  qed
  moreover have "tells d {c} w w'"
    using assms(1) by (intro tells_from [OF eff(5) [OF assms(2)]]) (simp add: noted_def)
  ultimately show ?thesis
    by (simp add: done_with_def f)
qed

lemma note_client_hello_ensures:
  assumes "iter_ok (en_iter en)"
  shows "ensures (note_client_hello en (conn_key_of c) p w) (noted c w)"
  unfolding note_client_hello_def
  using assms
  by (intro ensures_bind [OF ensures_ok_parse])
    (auto simp: noted_def quiet_corr corr_trace_ops(1) split: option.split)

lemma noted_corr:
  assumes "corr_trace (conn_key_of c) (Suc 0) (w_corr w) co"
  shows "noted c w (w\<lparr>w_corr := co\<rparr>)" "noted c w (w\<lparr>w_corr := co, w_sh_without_ch := x\<rparr>)"
    "noted c w (w\<lparr>w_corr := co, w_alerts_dropped := x\<rparr>)"
  using quiet_corr [OF assms] by (simp_all add: noted_def)

lemma corr_trace_0_1: "corr_trace key 0 a b \<Longrightarrow> corr_trace key (Suc 0) a b"
  using corr_trace_trans [of key 0 a b "Suc 0" b] by simp

lemma note_server_hello_effect:
  assumes "note_server_hello (conn_key_of c) a ev w = (ev1, w1)"
  shows "noted c w w1" "event_of c ev \<Longrightarrow> event_of c ev1"
  using assms corr_trace_0_1 [OF corr_trace_ops(2) [of "conn_key_of c" "w_corr w" a]]
  by (auto simp: note_server_hello_def noted_corr split: prod.splits option.splits)

lemma note_alert_effect:
  assumes "note_alert (conn_key_of c) p ev w = (ev1, w1)"
  shows "noted c w w1" "event_of c ev \<Longrightarrow> event_of c ev1"
proof -
  have tr: "corr_trace (conn_key_of c) (Suc 0) (w_corr w) (snd (on_alert (conn_key_of c) l ds (w_corr w)))" for l ds
    by (rule corr_trace_0_1 [OF corr_trace_ops(3)])
  have "noted c w (w\<lparr>w_alerts_dropped := x\<rparr>)" for x
    by (simp add: noted_def)
  then show "noted c w w1" "event_of c ev \<Longrightarrow> event_of c ev1"
    using assms noted_corr [OF tr]
    by (auto simp: note_alert_def split: prod.splits option.splits) (metis snd_conv)+
qed

text \<open>What \<open>&p[4..]\<close> holds is decoded as a certificate list; the event changes in that field only.\<close>

lemma attach_certificate_eq:
  "attach_certificate d en p ev =
     Ret (case (if length p > 4
                then (let q = drop 4 p in
                      if length q < 6 \<or> be24 (q ! 0) (q ! 1) (q ! 2) < 3 \<or> length q < 6 + be24 (q ! 3) (q ! 4) (q ! 5)
                      then None
                      else parse_der_certificate (d_parse_x509 d) (d_rfc3339 d) (en_asn1_now en)
                             (take (be24 (q ! 3) (q ! 4) (q ! 5)) (drop 6 q)))
                else None) of
            None \<Rightarrow> ev | Some cert \<Rightarrow> ev\<lparr>ev_certificate := Some cert\<rparr>)"
  by (simp add: attach_certificate_def subslice_in parse_certificate_eq Let_def split: option.split)

lemma attach_certificate_ensures:
  "event_of c ev \<Longrightarrow> ensures (attach_certificate d en p ev) (event_of c)"
  by (simp add: attach_certificate_eq split: option.split)

lemma drop_if_13_ensures:
  "ensures (drop_if_13 p b w) (\<lambda>(dropped, w1).
     w1 = (if dropped then w\<lparr>w_certs_dropped_13 := w_certs_dropped_13 w + 1\<rparr> else w))"
  unfolding drop_if_13_def
  by (intro ensures_bind [OF ensures_ok_parse]) (simp split: option.split)

text \<open>A certificate message: noted, and perhaps to be skipped.\<close>

definition noted_or_skipped :: "RawTlsCapture \<Rightarrow> Worker \<Rightarrow> bool \<Rightarrow> Worker \<Rightarrow> bool" where
  "noted_or_skipped c w dropped w1 =
     (if dropped
      then \<exists>w0. noted c w w0 \<and> w1 = w0\<lparr>w_certs_dropped_13 := w_certs_dropped_13 w0 + 1\<rparr>
      else noted c w w1)"

lemma note_certificate_ensures:
  assumes "event_of c ev"
  shows "ensures (note_certificate d en c (conn_key_of c) p ev w)
    (\<lambda>(dropped, ev1, w1). noted_or_skipped c w dropped w1 \<and> event_of c ev1)"
  unfolding note_certificate_def Let_def
proof (rule ensures_bind [OF attach_certificate_ensures [OF assms]], goal_cases)
  case (1 ev1)
  define ew where "ew = (if has_flag FLAG_INGRESS c then
      (case on_client_certificate (conn_key_of c) (w_corr w) of
         (Some neg, co) \<Rightarrow> (ev1\<lparr>ev_negotiation := Some neg\<rparr>, w\<lparr>w_corr := co\<rparr>)
       | (None, co) \<Rightarrow> (ev1, w\<lparr>w_corr := co\<rparr>)) else (ev1, w))"
  obtain ev2 w1 where ew: "ew = (ev2, w1)"
    by fastforce
  have "noted c w w"
    by (simp add: noted_def)
  then have n: "noted c w w1" "event_of c ev2"
    using ew 1(2) corr_trace_0_1 [OF corr_trace_ops(4) [of "conn_key_of c" "w_corr w"]]
    by (auto simp: ew_def noted_corr split: prod.splits option.splits if_splits)
  have "ensures (rbind (drop_if_13 p (has_flag FLAG_INGRESS c) w1) (\<lambda>(dropped, w2). Ret (dropped, ev2, w2)))
      (\<lambda>(dropped, ev1, w1). noted_or_skipped c w dropped w1 \<and> event_of c ev1)"
    by (rule ensures_bind [OF drop_if_13_ensures]) (use n in \<open>auto simp: noted_or_skipped_def\<close>)
  then show ?case
    by (simp add: ew [unfolded ew_def])
qed

lemma note_certificate_request_ensures:
  "ensures (note_certificate_request (conn_key_of c) p w) (\<lambda>(dropped, w1). noted_or_skipped c w dropped w1)"
  unfolding note_certificate_request_def
  using noted_corr(1) [OF corr_trace_0_1 [OF corr_trace_ops(5) [of "conn_key_of c" "w_corr w"]]]
  by (intro ensures_mono [OF drop_if_13_ensures]) (auto simp: noted_or_skipped_def)

lemma skipped_done:
  assumes "noted_or_skipped c w True w1" "handshake_type c \<in> {0x0B, 0x0D}"
  shows "done_with d c w (NextCapture, w1)"
  using assms by (auto simp: noted_or_skipped_def noted_def done_with_def handled_def tells_silent)

section \<open>Certificate flights\<close>

lemma length_walk_of: "length (walk_of n b) \<le> n"
proof (induction n arbitrary: b)
  case (Suc n)
  show ?case
    using Suc [of "drop (5 + unat (be16 (b ! 3) (b ! 4))) b"] by (simp add: Let_def)
qed simp

lemma walk_ensures: "ensures (walk_if_tls12 a p) (\<lambda>rs. length rs \<le> 4)"
  using length_walk_of [of MAX_RECORDS_TO_WALK] by (simp add: walk_if_tls12_def walk_records_eq MAX_RECORDS_TO_WALK_def)

lemma synthesized_event: "event_of c (fst (synthesize_event_from_walked_record now c r))"
  by (simp add: synthesize_event_from_walked_record_def event_of_def process_attribution_def Let_def)

lemma emit_walked_ensures:
  "ensures (emit_walked d en c rs w) (\<lambda>w1. quiet key n w w1 \<and> w_certs_dropped_13 w1 = w_certs_dropped_13 w \<and>
     w_corr w1 = w_corr w \<and> tells d {c} w w1 \<and>
     (w_accepts w = None \<longrightarrow> w_accepts w1 = None \<and>
        (\<exists>evs. w_lines w1 = w_lines w @ map (json_line d) evs \<and> length evs = length rs \<and> (\<forall>e \<in> set evs. event_of c e))))"
proof (induction rs arbitrary: w)
  case (Cons r rs)
  obtain ev ht where s: "synthesize_event_from_walked_record (en_utc en) c r = (ev, ht)"
    by fastforce
  have ev: "event_of c ev"
    using synthesized_event [of c "en_utc en" r] s by simp
  show ?case
    unfolding emit_walked.simps s prod.case
  proof (rule ensures_bind [where Q = "event_of c"], goal_cases)
    case 1
    show ?case
      using ev by (simp add: attach_certificate_ensures)
  next
    case (2 ev1)
    obtain sent w1 where se: "send_event d en c ev1 w = (sent, w1)"
      by fastforce
    note eff = send_event_effect [OF se]
    show ?case
    proof (cases sent)
      case False
      have "w_accepts w \<noteq> None"
        using eff(4) [OF _ 2(2)] False by auto
      then show ?thesis
        using eff(1-3) eff(5) [OF 2(2)] False by (auto simp: se)
    next
      case True
      have rest: "ensures (emit_walked d en c rs w1) (\<lambda>w1'. quiet key 0 w1 w1' \<and>
          w_certs_dropped_13 w1' = w_certs_dropped_13 w1 \<and> w_corr w1' = w_corr w1 \<and> tells d {c} w1 w1' \<and>
          (w_accepts w1 = None \<longrightarrow> w_accepts w1' = None \<and>
             (\<exists>evs. w_lines w1' = w_lines w1 @ map (json_line d) evs \<and> length evs = length rs \<and> (\<forall>e \<in> set evs. event_of c e))))"
        by (rule ensures_mono [OF Cons]) (auto simp: quiet_def)
      have sent: "sent = True"
        using True by simp
      show ?thesis
        unfolding se prod.case sent bool.case
      proof (rule ensures_mono [OF rest], goal_cases)
        case (1 w2)
        have q: "quiet key n w w2"
          using quiet_trans [OF eff(1) [of key n], of 0 w2] 1 by simp
        have "w_accepts w1 = None" if "w_accepts w = None"
          using eff(1) that by (auto simp: quiet_def)
        then have "\<exists>evs. w_lines w2 = w_lines w @ map (json_line d) evs \<and> length evs = length (r # rs) \<and>
            (\<forall>e \<in> set evs. event_of c e)" if open_w: "w_accepts w = None"
        proof -
          obtain ev' where "w_lines w1 = w_lines w @ [json_line d ev']" "event_of c ev'"
            using eff(4) [OF open_w 2(2)] by auto
          moreover obtain evs where "w_lines w2 = w_lines w1 @ map (json_line d) evs" "length evs = length rs"
            "\<forall>e \<in> set evs. event_of c e"
            using 1 \<open>w_accepts w = None \<Longrightarrow> w_accepts w1 = None\<close> open_w by auto
          ultimately show ?thesis
            by (intro exI [of _ "ev' # evs"]) simp
        qed
        then show ?case
          using 1 q eff(2,3) tells_trans [OF eff(5) [OF 2(2)]] by (auto simp: quiet_def)
      qed
    qed
  qed
qed (simp add: tells_silent)

section \<open>The branches return\<close>

lemma noted_refl [simp]: "noted c w w"
  by (simp add: noted_def)

lemma done_after:
  assumes "quiet (conn_key_of c) 0 w w0" "w_certs_dropped_13 w0 = w_certs_dropped_13 w" "event_of c ev"
    and "w_accepts w = None \<Longrightarrow> w_accepts w0 = None \<and>
      (\<exists>evs. w_lines w0 = w_lines w @ map (json_line d) evs \<and> length evs \<le> 4 \<and> (\<forall>e \<in> set evs. event_of c e))"
    and "cap_is_server_hello c" "tells d {c} w w0"
  shows "done_with d c w (finish_event d en c ev w0)"
proof -
  obtain ctl w' where f: "finish_event d en c ev w0 = (ctl, w')"
    by fastforce
  note eff = finish_event_effect [OF f]
  have "quiet (conn_key_of c) (Suc 0) w w'"
    using quiet_trans [OF assms(1) eff(1), of "Suc 0"] by simp
  moreover have "handled d c w (ctl, w')"
    unfolding handled_def
  proof (intro impI disjI1)
    assume open_w: "w_accepts w = None"
    obtain evs where evs: "w_lines w0 = w_lines w @ map (json_line d) evs" "length evs \<le> 4" "\<forall>e \<in> set evs. event_of c e"
      using assms(4) [OF open_w] by auto
    obtain ev' where "ctl = ToSweep" "w_lines w' = w_lines w0 @ [json_line d ev']" "event_of c ev'"
      using assms(3) assms(4) [OF open_w] eff(4) by auto
    then show "fst (ctl, w') = ToSweep \<and> w_certs_dropped_13 (snd (ctl, w')) = w_certs_dropped_13 w \<and>
        (\<exists>walked ev. w_lines (snd (ctl, w')) = w_lines w @ map (json_line d) (walked @ [ev]) \<and>
             (\<forall>e \<in> set walked. event_of c e) \<and> event_of c ev \<and> length walked \<le> 4 \<and>
             (walked \<noteq> [] \<longrightarrow> cap_is_server_hello c))"
      using evs eff(2) assms(2,5) by (intro conjI exI [of _ evs] exI [of _ ev']) simp_all
  qed
  moreover have "tells d {c} w w'"
    by (rule tells_trans [OF assms(6) eff(5) [OF assms(3)]])
  ultimately show ?thesis
    by (simp add: done_with_def f)
qed

lemma server_hello_branch:
  assumes "event_of c ev" "cap_is_server_hello c"
  shows "ensures (rbind (walk_if_tls12 a p) (\<lambda>walked.
      let w1 = w\<lparr>w_corr := note_walked_requests (conn_key_of c) walked (w_corr w)\<rparr> in
      case note_server_hello (conn_key_of c) a ev w1 of
        (ev1, w2) \<Rightarrow>
          rbind (walk_if_tls12 a p) (\<lambda>walked'.
          rbind (emit_walked d en c walked' w2) (\<lambda>w3. Ret (finish_event d en c ev1 w3)))))
    (done_with d c w)"
proof (rule ensures_bind [OF walk_ensures], goal_cases)
  case (1 walked)
  let ?w1 = "w\<lparr>w_corr := note_walked_requests (conn_key_of c) walked (w_corr w)\<rparr>"
  obtain ev1 w2 where n: "note_server_hello (conn_key_of c) a ev ?w1 = (ev1, w2)"
    by fastforce
  have q1: "quiet (conn_key_of c) 0 w ?w1"
    by (rule quiet_corr [OF corr_trace_walked])
  have "w_corr w2 = snd (on_server_hello (conn_key_of c) a (w_corr ?w1))" "w_lines w2 = w_lines ?w1"
    "w_accepts w2 = w_accepts ?w1" "w_certs_dropped_13 w2 = w_certs_dropped_13 ?w1"
    "w_reasm w2 = w_reasm ?w1" "w_counter w2 = w_counter ?w1"
    using n by (auto simp: note_server_hello_def split: prod.splits option.splits)
  then have q2: "quiet (conn_key_of c) 0 ?w1 w2" "w_lines w2 = w_lines w" "w_accepts w2 = w_accepts w"
    "w_certs_dropped_13 w2 = w_certs_dropped_13 w"
    using corr_trace_ops(2) [of "conn_key_of c" "w_corr ?w1" a] by (simp_all add: quiet_def)
  have q: "quiet (conn_key_of c) 0 w w2"
    using quiet_trans [OF q1 q2(1)] by simp
  have ev1: "event_of c ev1"
    by (rule note_server_hello_effect(2) [OF n assms(1)])
  show ?case
    unfolding Let_def n prod.case
  proof (rule ensures_bind [OF walk_ensures], rule ensures_bind [OF emit_walked_ensures [where key = "conn_key_of c" and n = 0]], goal_cases)
    case (1 walked' w3)
    have "quiet (conn_key_of c) 0 w w3"
      using quiet_trans [OF q] 1(4) by fastforce
    then show ?case
      unfolding ensures_Ret using 1 q2 ev1 assms(2) tells_from [of d _ w2 w3 w] by (intro done_after) auto
  qed
qed

lemma certificate_branches:
  assumes "event_of c ev"
  shows "handshake_type c = 0x0B \<Longrightarrow>
    ensures (rbind (note_certificate d en c (conn_key_of c) p ev w) (\<lambda>(dropped, ev1, w1).
        Ret (if dropped then (NextCapture, w1) else finish_event d en c ev1 w1))) (done_with d c w)"
    "handshake_type c = 0x0D \<Longrightarrow>
    ensures (rbind (note_certificate_request (conn_key_of c) p w) (\<lambda>(dropped, w1).
        Ret (if dropped then (NextCapture, w1) else finish_event d en c ev w1))) (done_with d c w)"
proof -
  assume "handshake_type c = 0x0B"
  then show "ensures (rbind (note_certificate d en c (conn_key_of c) p ev w) (\<lambda>(dropped, ev1, w1).
        Ret (if dropped then (NextCapture, w1) else finish_event d en c ev1 w1))) (done_with d c w)"
    by (intro ensures_bind [OF note_certificate_ensures [OF assms]])
      (auto simp: skipped_done finish_done noted_or_skipped_def [of c w False])
next
  assume "handshake_type c = 0x0D"
  then show "ensures (rbind (note_certificate_request (conn_key_of c) p w) (\<lambda>(dropped, w1).
        Ret (if dropped then (NextCapture, w1) else finish_event d en c ev w1))) (done_with d c w)"
    using assms
    by (intro ensures_bind [OF note_certificate_request_ensures])
      (auto simp: skipped_done finish_done noted_or_skipped_def [of c w False])
qed

lemma process_direct_ensures:
  assumes "iter_ok (en_iter en)"
  shows "ensures (process_direct d en c w) (done_with d c w)"
  unfolding process_direct_def Let_def analyze_capture_def
proof (rule ensures_bind [OF analyze_ensures], goal_cases)
  case (1 ev)
  note ev = 1(2)
  consider "cap_is_client_hello c" | "\<not> cap_is_client_hello c" "cap_is_server_hello c"
    | "\<not> cap_is_client_hello c" "\<not> cap_is_server_hello c"
    by blast
  then show ?case
  proof cases
    case 1
    then show ?thesis
      by (simp add: ensures_bind [OF note_client_hello_ensures [OF assms]] finish_done ev)
  next
    case 2
    show ?thesis
      using server_hello_branch [OF ev 2(2), unfolded Let_def]
      by (simp only: 2 if_True if_False simp_thms, intro ensures_bind [OF ensures_ok_parse])
        (simp add: finish_done ev split: option.split)
  next
    case 3
    obtain ev1 w1 where na: "note_alert (conn_key_of c) (payload_slice c) ev w = (ev1, w1)"
      by fastforce
    show ?thesis
      using 3 certificate_branches [OF ev] finish_done [OF note_alert_effect(1) [OF na] note_alert_effect(2) [OF na ev]]
      by (simp add: na finish_done ev)
  qed
qed

lemma process_assembled_ensures:
  assumes "iter_ok (en_iter en)"
  shows "ensures (process_assembled d en rec w) (done_with d (ar_head_capture rec) w)"
  unfolding process_assembled_def Let_def
proof (rule ensures_bind [OF analyze_ensures], goal_cases)
  case (1 ev0)
  let ?c = "ar_head_capture rec"
  define ev where "ev = ev0\<lparr>ev_reassembled := Some True, ev_truncated := Some (ar_truncated rec)\<rparr>"
  have ev: "event_of ?c ev"
    using 1(2) by (simp add: ev_def)
  consider "cap_is_client_hello ?c" | "\<not> cap_is_client_hello ?c" "cap_is_server_hello ?c"
    | "\<not> cap_is_client_hello ?c" "\<not> cap_is_server_hello ?c"
    by blast
  then show ?case
  proof cases
    case 1
    show ?thesis
      unfolding ev_def [symmetric]
      by (simp only: 1 if_True, rule ensures_bind [OF note_client_hello_ensures [OF assms]])
        (simp only: ensures_Ret finish_done [OF _ ev])
  next
    case 2
    show ?thesis
      unfolding ev_def [symmetric]
      by (simp only: 2 if_True if_False simp_thms, rule ensures_bind [OF ensures_ok_parse])
        (auto simp: finish_done ev note_server_hello_effect split: option.split prod.split)
  next
    case 3
    obtain ev1 w1 where na: "note_alert (conn_key_of ?c) (ar_buffer rec) ev w = (ev1, w1)"
      by fastforce
    show ?thesis
      unfolding ev_def [symmetric]
      using 3 certificate_branches [OF ev] finish_done [OF note_alert_effect(1) [OF na] note_alert_effect(2) [OF na ev]]
      by (simp add: na finish_done ev)
  qed
qed

section \<open>The reassembler under the worker\<close>

text \<open>
  Every head is stored under the flow it belongs to, so a record that completes is the inserted
  capture's flow's; and every head is a capture that was given, one that satisfies \<open>ok\<close>.
\<close>

definition heads_ok :: "(RawTlsCapture \<Rightarrow> bool) \<Rightarrow> Reassembler \<Rightarrow> bool" where
  "heads_ok ok r =
     (\<forall>(k, e) \<in> set (flows r). \<forall>h. head e = Some h \<longrightarrow> flow_key_of (hd_capture h) = k \<and> ok (hd_capture h))"

definition completes_for :: "(RawTlsCapture \<Rightarrow> bool) \<Rightarrow> FlowKey \<Rightarrow> AssembledRecord option \<times> Reassembler \<Rightarrow> bool" where
  "completes_for ok k out =
     (heads_ok ok (snd out) \<and>
      (\<forall>rec. fst out = Some rec \<longrightarrow> flow_key_of (ar_head_capture rec) = k \<and> ok (ar_head_capture rec)))"

lemma heads_ok_remove: "heads_ok ok r \<Longrightarrow> heads_ok ok (r\<lparr>flows := kv_remove k (flows r)\<rparr>)"
  by (auto simp: heads_ok_def kv_remove_def)

lemma heads_ok_lookup:
  "heads_ok ok r \<Longrightarrow> map_of (flows r) k = Some e \<Longrightarrow> head e = Some h \<Longrightarrow> flow_key_of (hd_capture h) = k \<and> ok (hd_capture h)"
  by (auto simp: heads_ok_def dest!: map_of_SomeD)

lemma completes_for_parts:
  assumes "heads_ok ok r"
  shows "completes_for ok k (finalize_entry k t r)" "completes_for ok k (check_completion k r)"
  using assms
  by (auto simp: completes_for_def finalize_entry_def check_completion_def Let_def heads_ok_remove
      split: option.split prod.split dest: heads_ok_lookup)

lemma heads_ok_put:
  assumes "heads_ok ok r" "\<And>h. head e = Some h \<Longrightarrow> flow_key_of (hd_capture h) = k \<and> ok (hd_capture h)"
  shows "heads_ok ok (r\<lparr>flows := bt_insert k e (flows r)\<rparr>)"
  using assms set_bt_insert_sub [of k e "flows r"] by (fastforce simp: heads_ok_def)

lemma heads_ok_modify:
  assumes "heads_ok ok r" "\<And>e h. head (f e) = Some h \<Longrightarrow> head e = Some h \<or> flow_key_of (hd_capture h) = k \<and> ok (hd_capture h)"
  shows "heads_ok ok (r\<lparr>flows := kv_modify k f (flows r)\<rparr>)"
  using assms by (fastforce simp: heads_ok_def kv_modify_def split: if_splits)

lemma heads_ok_cleanup: "heads_ok ok r \<Longrightarrow> heads_ok ok (cleanup_if_over_limit r)"
  by (auto simp: cleanup_if_over_limit_def heads_ok_def kv_remove_def split: list.split)

lemma reasm_insert_completes:
  assumes "heads_ok ok r" "ok c"
  shows "completes_for ok (flow_key_of c) (reasm_insert now c r)"
proof -
  have "completes_for ok (flow_key_of c) (insert_head now c r)"
    unfolding insert_head_def Let_def
    by (auto intro!: completes_for_parts heads_ok_modify heads_ok_put assms(2) heads_ok_cleanup [OF assms(1)] split: option.split)
  moreover have "completes_for ok (flow_key_of c) (insert_continuation now c r)"
  proof -
    let ?k = "flow_key_of c"
    define r1 where "r1 = (case map_of (flows r) ?k of
        Some _ \<Rightarrow> r
      | None \<Rightarrow> r\<lparr>flows := bt_insert ?k \<lparr>fragments = [], created = now, head = None, expected_total = None\<rparr> (flows r)\<rparr>)"
    define r2 where "r2 = r1\<lparr>flows := kv_modify ?k
        (\<lambda>entry. entry\<lparr>fragments := bt_insert (tcp_seq c) (payload_slice c) (fragments entry)\<rparr>) (flows r1)\<rparr>"
    have "heads_ok ok r1"
      using assms by (auto simp: r1_def intro!: heads_ok_put split: option.split)
    then have r2: "heads_ok ok r2"
      unfolding r2_def by (intro heads_ok_modify) auto
    show ?thesis
      unfolding insert_continuation_def Let_def r1_def [symmetric] r2_def [symmetric]
      using assms completes_for_parts [OF r2, of ?k] r2
      by (auto split: option.split) (simp_all add: completes_for_def)
  qed
  ultimately show ?thesis
    using assms by (auto simp: reasm_insert_def completes_for_def)
qed

lemma flow_key_conn: "flow_key_of a = flow_key_of b \<Longrightarrow> conn_key_of a = conn_key_of b"
  by (simp add: flow_key_of_def conn_key_of_def)

text \<open>What the sweep reports: one event per expired record, marked reassembled and truncated as the record is.\<close>

definition report_of :: "AssembledRecord \<Rightarrow> CaptureEvent \<Rightarrow> bool" where
  "report_of rec ev =
     (event_of (ar_head_capture rec) ev \<and> ev_reassembled ev = Some True \<and> ev_truncated ev = Some (ar_truncated rec))"

definition swept :: "Worker \<Rightarrow> Worker \<Rightarrow> bool" where
  "swept w w' =
     (w_reasm w' = w_reasm w \<and> w_corr w' = w_corr w \<and> w_counter w' = w_counter w \<and>
      w_certs_dropped_13 w' = w_certs_dropped_13 w \<and> (w_accepts w = None \<longrightarrow> w_accepts w' = None))"

lemma swept_trans: "swept a b \<Longrightarrow> swept b c \<Longrightarrow> swept a c"
  by (simp add: swept_def)

lemma send_event_swept:
  assumes "send_event d en c ev w = (sent, w')"
  shows "swept w w'"
  using send_event_effect(1) [OF assms, of undefined 0] send_event_effect(2,3) [OF assms]
  by (auto simp: swept_def quiet_def)

lemma emit_expired_ensures:
  "ensures (emit_expired d en recs w) (\<lambda>w1. swept w w1 \<and> tells d (ar_head_capture ` set recs) w w1 \<and>
     (w_accepts w = None \<longrightarrow>
        (\<exists>evs. w_lines w1 = w_lines w @ map (json_line d) evs \<and> list_all2 report_of recs evs)))"
proof (induction recs arbitrary: w)
  case Nil
  show ?case
    by (simp add: swept_def tells_silent)
next
  case (Cons rec recs)
  show ?case
    unfolding emit_expired.simps
  proof (rule ensures_bind [OF analyze_ensures], goal_cases)
    case (1 ev0)
    define ev where "ev = ev0\<lparr>ev_reassembled := Some True, ev_truncated := Some (ar_truncated rec)\<rparr>"
    have ev: "event_of (ar_head_capture rec) ev"
      using 1(2) by (simp add: ev_def)
    obtain sent w1 where se: "send_event d en (ar_head_capture rec) ev w = (sent, w1)"
      by fastforce
    note eff = send_event_effect [OF se] and sw = send_event_swept [OF se]
    let ?C = "ar_head_capture ` set (rec # recs)"
    have told: "tells d ?C w w1"
      by (rule tells_mono [OF eff(5) [OF ev]]) simp
    have first: "sent \<and> (\<exists>ev'. w_lines w1 = w_lines w @ [json_line d ev'] \<and> report_of rec ev')" if "w_accepts w = None"
      using eff(4) [OF that ev] by (fastforce simp: report_of_def ev_def enriched_def)
    have "ensures (case (sent, w1) of (True, w1) \<Rightarrow> emit_expired d en recs w1 | (False, w1) \<Rightarrow> Ret w1)
      (\<lambda>w1. swept w w1 \<and> tells d ?C w w1 \<and> (w_accepts w = None \<longrightarrow>
        (\<exists>evs. w_lines w1 = w_lines w @ map (json_line d) evs \<and> list_all2 report_of (rec # recs) evs)))"
    proof (cases sent)
      case False
      then show ?thesis
        using sw first told by auto
    next
      case True
      have "ensures (emit_expired d en recs w1) (\<lambda>w1. swept w w1 \<and> tells d ?C w w1 \<and> (w_accepts w = None \<longrightarrow>
        (\<exists>evs. w_lines w1 = w_lines w @ map (json_line d) evs \<and> list_all2 report_of (rec # recs) evs)))"
      proof (rule ensures_mono [OF Cons], goal_cases)
        case (1 w2)
        have "\<exists>evs. w_lines w2 = w_lines w @ map (json_line d) evs \<and> list_all2 report_of (rec # recs) evs"
          if open_w: "w_accepts w = None"
        proof -
          obtain ev' evs where "w_lines w1 = w_lines w @ [json_line d ev']" "report_of rec ev'"
            "w_lines w2 = w_lines w1 @ map (json_line d) evs" "list_all2 report_of recs evs"
            using first [OF open_w] 1 sw open_w by (auto simp: swept_def)
          then show ?thesis
            by (intro exI [of _ "ev' # evs"]) simp
        qed
        moreover have "tells d ?C w w2"
          using 1 by (intro tells_trans [OF told tells_mono]) auto
        ultimately show ?case
          using 1 swept_trans [OF sw] by blast
      qed
      with True show ?thesis
        by simp
    qed
    then show ?case
      by (simp add: se ev_def [symmetric])
  qed
qed

definition ticks :: "Worker \<Rightarrow> bool" where
  "ticks w = ((w_counter w + 1) mod 500 = 0)"

lemma sweep_tick_ensures:
  "ensures (sweep_tick d en w) (\<lambda>w'. w_counter w' = w_counter w + 1 \<and>
     w_certs_dropped_13 w' = w_certs_dropped_13 w \<and> (w_accepts w = None \<longrightarrow> w_accepts w' = None) \<and>
     w_corr w' = (if ticks w then snd (corr_sweep_expired (en_now_ns en) (w_corr w)) else w_corr w) \<and>
     w_reasm w' = (if ticks w then snd (sweep_expired (en_instant en) (w_reasm w)) else w_reasm w) \<and>
     tells d (ar_head_capture ` set (if ticks w then fst (sweep_expired (en_instant en) (w_reasm w)) else [])) w w' \<and>
     (w_accepts w = None \<longrightarrow>
        (\<exists>evs. w_lines w' = w_lines w @ map (json_line d) evs \<and>
           list_all2 report_of (if ticks w then fst (sweep_expired (en_instant en) (w_reasm w)) else []) evs)))"
proof (cases "ticks w")
  case False
  then show ?thesis
    by (simp add: sweep_tick_def ticks_def Let_def tells_silent)
next
  case True
  obtain recs r where sw: "sweep_expired (en_instant en) (w_reasm w) = (recs, r)"
    by fastforce
  let ?w = "w\<lparr>w_counter := w_counter w + 1, w_corr := snd (corr_sweep_expired (en_now_ns en) (w_corr w)), w_reasm := r\<rparr>"
  have "sweep_tick d en w = emit_expired d en recs ?w"
    using True by (simp add: sweep_tick_def ticks_def sw)
  then show ?thesis
    using True by (simp only: if_True sw fst_conv snd_conv)
      (rule ensures_mono [OF emit_expired_ensures], auto simp: swept_def intro: tells_from)
qed

section \<open>One iteration\<close>

lemma handle_capture_ensures:
  assumes "iter_ok (en_iter en)" "heads_ok ok (w_reasm w)" "ok c"
  shows "ensures (handle_capture d en c w) (\<lambda>(ctl, w').
     w_reasm w' = (if partial_capture c then snd (reasm_insert (en_instant en) c (w_reasm w)) else w_reasm w) \<and>
     corr_trace (conn_key_of c) (Suc 0) (w_corr w) (w_corr w') \<and> w_counter w' = w_counter w \<and>
     (w_accepts w = None \<longrightarrow> w_accepts w' = None) \<and> tells d {c. ok c} w w' \<and>
     (\<not> partial_capture c \<longrightarrow> handled d c w (ctl, w')))"
proof (cases "partial_capture c")
  case False
  have "tells d {c. ok c} w w'" if "tells d {c} w w'" for w'
    using assms(3) by (intro tells_mono [OF that]) simp
  then show ?thesis
    using False process_direct_ensures [OF assms(1), of d c w]
    by (simp add: handle_capture_def) (erule ensures_mono, auto simp: done_with_def quiet_def)
next
  case True
  obtain out r where ins: "reasm_insert (en_instant en) c (w_reasm w) = (out, r)"
    by fastforce
  show ?thesis
  proof (cases out)
    case None
    then show ?thesis
      using True by (simp add: handle_capture_def ins tells_silent)
  next
    case (Some rec)
    have rec: "flow_key_of (ar_head_capture rec) = flow_key_of c" "{ar_head_capture rec} \<subseteq> {c. ok c}"
      using reasm_insert_completes [OF assms(2,3), of "en_instant en"] Some by (simp_all add: ins completes_for_def)
    have "tells d {c. ok c} w w'" if "tells d {ar_head_capture rec} (w\<lparr>w_reasm := r\<rparr>) w'" for w'
      by (rule tells_from [OF tells_mono [OF that rec(2)]]) simp
    then show ?thesis
      using True Some flow_key_conn [OF rec(1)] process_assembled_ensures [OF assms(1), of d rec "w\<lparr>w_reasm := r\<rparr>"]
      by (simp add: handle_capture_def ins) (erule ensures_mono, auto simp: done_with_def quiet_def)
  qed
qed

text \<open>
  The worker's invariant: its reassembler is in a state the reassembler's own operations reach from
  captures that satisfy \<open>ok\<close>, and its correlator keeps the correlator's invariant.
\<close>

definition worker_inv :: "(RawTlsCapture \<Rightarrow> bool) \<Rightarrow> Worker \<Rightarrow> bool" where
  "worker_inv ok w = ((\<exists>outs. reasm_reach ok (w_reasm w) outs) \<and> heads_ok ok (w_reasm w) \<and> corr_inv (w_corr w))"

lemma worker_inv_new: "worker_inv ok (worker_new accepts)"
  using reasm_reach.start [of ok] corr.inv_init
  by (auto simp: worker_inv_def worker_new_def heads_ok_def reassembler_new_def)

lemma heads_ok_sweep:
  assumes "bt_ok (flows r)" "heads_ok ok r"
  shows "heads_ok ok (snd (sweep_expired now r))" "ar_head_capture ` set (fst (sweep_expired now r)) \<subseteq> {c. ok c}"
  using assms by (auto simp: sweep_expired_eq heads_ok_def partial_record_def split: option.splits)

lemma worker_inv_sweep:
  assumes "worker_inv ok w" "w_corr w' = snd (corr_sweep_expired now_ns (w_corr w))"
    "w_reasm w' = snd (sweep_expired now (w_reasm w))"
  shows "worker_inv ok w'"
proof -
  obtain outs where r: "reasm_reach ok (w_reasm w) outs" and h: "heads_ok ok (w_reasm w)" and co: "corr_inv (w_corr w)"
    using assms(1) by (auto simp: worker_inv_def)
  obtain recs r' where sw: "sweep_expired now (w_reasm w) = (recs, r')"
    by fastforce
  have "reasm_reach ok r' (outs @ recs)"
    by (rule reasm_reach.sweep_step [OF r sw])
  moreover have "heads_ok ok r'"
    using heads_ok_sweep(1) [OF reasm_reach_bt_ok [OF r] h, of now] by (simp add: sw)
  moreover have "corr_inv (w_corr w')"
    using corr_op_inv [OF _ co, of "(\<lambda>p. p, OpSweep now_ns)"] by (simp add: assms(2) iter_ok_id)
  ultimately show ?thesis
    using assms(3) sw by (auto simp: worker_inv_def)
qed

lemma worker_inv_handle:
  assumes "worker_inv ok w" "corr_trace key n (w_corr w) (w_corr w')" "ok c"
    "w_reasm w' = (if partial_capture c then snd (reasm_insert now c (w_reasm w)) else w_reasm w)"
  shows "worker_inv ok w'"
proof -
  obtain outs where r: "reasm_reach ok (w_reasm w) outs" and h: "heads_ok ok (w_reasm w)" and co: "corr_inv (w_corr w)"
    using assms(1) by (auto simp: worker_inv_def)
  obtain out r' where ins: "reasm_insert now c (w_reasm w) = (out, r')"
    by fastforce
  have "\<exists>outs. reasm_reach ok r' outs"
    using reasm_reach.insert_step [OF r assms(3) ins] by blast
  moreover have "heads_ok ok r'"
    using reasm_insert_completes [OF h assms(3), of now] by (simp add: ins completes_for_def)
  ultimately show ?thesis
    using assms(4) r h corr_trace_inv [OF assms(2) co] by (auto simp: worker_inv_def ins)
qed

lemma worker_inv_tick:
  assumes "worker_inv ok w"
  shows "ensures (sweep_tick d en w) (\<lambda>w'. worker_inv ok w' \<and> tells d {c. ok c} w w')"
proof (rule ensures_mono [OF sweep_tick_ensures], goal_cases)
  case (1 w')
  obtain outs where "reasm_reach ok (w_reasm w) outs" and h: "heads_ok ok (w_reasm w)"
    using assms by (auto simp: worker_inv_def)
  note sw = heads_ok_sweep(2) [OF reasm_reach_bt_ok [OF this(1)] h, of "en_instant en"]
  have "worker_inv ok w'"
    using 1 worker_inv_sweep [OF assms, of w'] assms by (cases "ticks w") (simp_all add: worker_inv_def)
  moreover have "tells d {c. ok c} w w'"
    using 1 sw by (cases "ticks w") (auto elim!: tells_mono)
  ultimately show ?case
    by simp
qed

lemma worker_step_ensures:
  assumes "iter_ok (en_iter en)" "ok c" "worker_inv ok w"
  shows "ensures (worker_step d en c w) (\<lambda>(go, w'). worker_inv ok w' \<and> tells d {c. ok c} w w')"
proof -
  have h: "heads_ok ok (w_reasm w)"
    using assms(3) by (simp add: worker_inv_def)
  show ?thesis
    unfolding worker_step_def
  proof (rule ensures_bind [OF handle_capture_ensures [OF assms(1) h assms(2)]], clarsimp, goal_cases)
    case (1 ctl w1)
    have inv: "worker_inv ok w1"
      using 1 by (intro worker_inv_handle [OF assms(3) _ assms(2)]) auto
    have told: "tells d {c. ok c} w w1"
      using 1 by blast
    show ?case
    proof (cases ctl)
      case ToSweep
      have "ensures (rbind (sweep_tick d en w1) (\<lambda>w2. Ret (True, w2))) (\<lambda>(go, w'). worker_inv ok w' \<and> tells d {c. ok c} w w')"
        by (rule ensures_bind [OF worker_inv_tick [OF inv]]) (auto intro: tells_trans [OF told])
      then show ?thesis
        using ToSweep by simp
    qed (use inv told in simp_all)
  qed
qed

lemma worker_run_ensures:
  assumes "\<forall>i \<in> set is. iter_ok (en_iter (fst i)) \<and> ok (snd i)" "worker_inv ok w"
  shows "ensures (worker_run d is w) (\<lambda>w'. worker_inv ok w' \<and> tells d {c. ok c} w w')"
  using assms
proof (induction "is" arbitrary: w)
  case (Cons i "is")
  have i: "iter_ok (en_iter (fst i))" "ok (snd i)"
    using Cons.prems(1) by simp_all
  show ?case
    unfolding worker_run.simps
  proof (rule ensures_bind [OF worker_step_ensures [OF i Cons.prems(2)]], clarify, goal_cases)
    case (1 go w1)
    have "ensures (worker_run d is w1) (\<lambda>w'. worker_inv ok w' \<and> tells d {c. ok c} w w')"
      by (rule ensures_mono [OF Cons.IH]) (use 1 Cons.prems in \<open>auto intro: tells_trans\<close>)
    then show ?case
      using 1 by simp
  qed
qed (simp add: tells_silent)

text \<open>C8: the worker survives whatever it is fed.  For every sequence of captures, with any flags,
  payloads, clocks and file system contents, and whenever the writer goes away, the loop
  returns without a panic; its reassembler has gone only through states that the reassembler's
  own operations reach from the captures it was given, and its correlator still satisfies the
  correlator's invariant, in particular its bound of 8192 connections.\<close>

theorem worker_survives:
  assumes "\<forall>i \<in> set is. iter_ok (en_iter (fst i)) \<and> ok (snd i)"
  shows "\<exists>w'. worker_run d is (worker_new accepts) = Ret w' \<and> (\<exists>outs. reasm_reach ok (w_reasm w') outs) \<and>
    corr_inv (w_corr w') \<and> length (pending (w_corr w')) \<le> 8192"
proof -
  show ?thesis
    using worker_run_ensures [OF assms worker_inv_new, of d accepts] by (auto simp: ensures_def worker_inv_def corr_inv_def)
qed

definition sample_env :: Env where
  "sample_env = \<lparr>en_instant = 7, en_now_ns = 1000, en_utc = ''now'', en_asn1_now = 0, en_iter = rev, en_fs = (0, None)\<rparr>"

definition sample_deps :: Deps where
  "sample_deps = \<lparr>d_sha = (\<lambda>_. replicate 64 (CHR ''a'')), d_parse_x509 = (\<lambda>_. None), d_rfc3339 = (\<lambda>_. None),
     d_to_json = (\<lambda>ev. Some (bytes_of_str (ev_src ev)))\<rparr>"

lemma sample_iter: "iter_ok (en_iter sample_env)"
  by (simp add: sample_env_def iter_ok_def)

lemma worker_survives_witness:
  "\<exists>w'. worker_run sample_deps [(sample_env, sample_tail), (sample_env, sample_head), (sample_env, default_capture)]
     (worker_new (Some 1)) = Ret w' \<and> length (pending (w_corr w')) \<le> 8192"
  using worker_survives [of "[(sample_env, sample_tail), (sample_env, sample_head), (sample_env, default_capture)]" "\<lambda>_. True"]
    sample_iter by fastforce

lemma step_accounted:
  assumes "iter_ok (en_iter en)" "worker_inv ok w" "\<not> partial_capture c" "w_accepts w = None"
  shows "\<exists>w'. worker_step d en c w = Ret (True, w') \<and> w_accepts w' = None \<and>
    ((w_lines w' = w_lines w \<and> w_certs_dropped_13 w' = w_certs_dropped_13 w + 1 \<and> w_counter w' = w_counter w \<and>
      handshake_type c \<in> {0x0B, 0x0D}) \<or>
     (w_certs_dropped_13 w' = w_certs_dropped_13 w \<and> w_counter w' = w_counter w + 1 \<and>
      (\<exists>walked ev late. w_lines w' = w_lines w @ map (json_line d) (walked @ [ev] @ late) \<and>
         (\<forall>e \<in> set (walked @ [ev]). event_of c e) \<and> length walked \<le> 4 \<and>
         (cap_is_server_hello c \<or> walked = []) \<and>
         list_all2 report_of (if ticks w then fst (sweep_expired (en_instant en) (w_reasm w)) else []) late)))"
proof -
  have h: "heads_ok (\<lambda>_. True) (w_reasm w)"
    using assms(2) by (auto simp: worker_inv_def heads_ok_def)
  obtain ctl w1 where hc: "handle_capture d en c w = Ret (ctl, w1)" "w_reasm w1 = w_reasm w"
    "w_counter w1 = w_counter w" "w_accepts w1 = None" "handled d c w (ctl, w1)"
    using handle_capture_ensures [OF assms(1) h, of d c] assms(3,4) by (auto simp: ensures_def)
  then consider
    (own) walked ev where "ctl = ToSweep" "w_certs_dropped_13 w1 = w_certs_dropped_13 w"
      "w_lines w1 = w_lines w @ map (json_line d) (walked @ [ev])" "\<forall>e \<in> set (walked @ [ev]). event_of c e"
      "length walked \<le> 4" "cap_is_server_hello c \<or> walked = []"
    | (skipped) "ctl = NextCapture" "w_certs_dropped_13 w1 = w_certs_dropped_13 w + 1" "w_lines w1 = w_lines w"
      "handshake_type c \<in> {0x0B, 0x0D}"
    using assms(4) by (auto simp: handled_def)
  then show ?thesis
  proof cases
    case own
    have tick: "ticks w1 = ticks w"
      by (simp add: ticks_def hc(3))
    obtain w2 late where "sweep_tick d en w1 = Ret w2" "w_accepts w2 = None" "w_counter w2 = w_counter w1 + 1"
      "w_certs_dropped_13 w2 = w_certs_dropped_13 w1" "w_lines w2 = w_lines w1 @ map (json_line d) late"
      "list_all2 report_of (if ticks w then fst (sweep_expired (en_instant en) (w_reasm w)) else []) late"
      using sweep_tick_ensures [of d en w1] hc(2,4) tick by (auto simp: ensures_def)
    then have "worker_step d en c w = Ret (True, w2)" "w_accepts w2 = None"
      "w_lines w2 = w_lines w @ map (json_line d) (walked @ [ev] @ late)"
      "w_certs_dropped_13 w2 = w_certs_dropped_13 w" "w_counter w2 = w_counter w + 1"
      "list_all2 report_of (if ticks w then fst (sweep_expired (en_instant en) (w_reasm w)) else []) late"
      using own hc by (simp_all add: worker_step_def)
    then show ?thesis
      using own(4-6) by blast
  next
    case skipped
    then show ?thesis
      using hc by (intro exI [of _ w1] conjI disjI1) (simp_all add: worker_step_def)
  qed
qed



section \<open>Alerts and certificates\<close>

lemma direct_step: "\<not> partial_capture c \<Longrightarrow> handle_capture d en c w = process_direct d en c w"
  by (simp add: handle_capture_def)

text \<open>An alert that no pending ClientHello matches is counted as dropped and its event is sent all the
  same, without a negotiation.\<close>

theorem unmatched_alert_sent:
  assumes "\<not> partial_capture c" "has_flag FLAG_ALERT c" "content_type c = 0x15" "handshake_type c = 0"
    and "parse_alert (payload_slice c) = Some (level, description)"
    and "map_of (pending (w_corr w)) (conn_key_of c) = None" "w_accepts w = None"
  shows "\<exists>w' ev. handle_capture d en c w = Ret (ToSweep, w') \<and>
    w_alerts_dropped w' = w_alerts_dropped w + 1 \<and> w_lines w' = w_lines w @ [json_line d ev] \<and> event_of c ev \<and>
    ev_negotiation ev = None \<and> ev_alert_description ev = Some (alert_description_name description)"
proof -
  have an: "analyze_capture sha now c = Ret (build_alert_event now c level description)" for sha now
    using assms(3,5) by (simp add: analyze_capture_def analyze_capture_with_payload_def)
  define ev where "ev = build_alert_event (en_utc en) c level description"
  have ev: "event_of c ev" "ev_negotiation ev = None" "ev_alert_description ev = Some (alert_description_name description)"
    by (simp_all add: ev_def build_alert_event_def event_of_def split: prod.split)
  have hello: "\<not> cap_is_client_hello c" "\<not> cap_is_server_hello c"
    using assms(4) by (simp_all add: cap_is_client_hello_def cap_is_server_hello_def hs_type_defs)
  let ?w = "w\<lparr>w_corr := w_corr w, w_alerts_dropped := w_alerts_dropped w + 1\<rparr>"
  obtain ctl w' where f: "finish_event d en c ev ?w = (ctl, w')"
    by fastforce
  have "note_alert (conn_key_of c) (payload_slice c) ev w = (ev, ?w)"
    using assms(5,6) by (simp add: note_alert_def on_alert_def)
  then have "handle_capture d en c w = Ret (ctl, w')"
    using assms(1,2) hello f by (simp add: direct_step process_direct_def an ev_def [symmetric])
  moreover have "w_alerts_dropped w' = w_alerts_dropped w + 1"
    using f by (auto simp: finish_event_def send_event_def enrich_def send_line_def split: prod.splits option.splits nat.splits)
  moreover obtain ev' where "ctl = ToSweep" "w_lines w' = w_lines w @ [json_line d ev']" "event_of c ev'" "enriched ev ev'"
    using finish_event_effect(4) [OF f _ ev(1)] assms(7) by auto
  ultimately show ?thesis
    using ev(2,3) enriched_keeps(1,11) [of ev ev'] by auto
qed

definition sample_alert :: RawTlsCapture where
  "sample_alert = default_capture\<lparr>flags := FLAG_ALERT, content_type := 0x15, payload_len := 7,
     payload := [0x15, 3, 3, 0, 2, 2, 40]\<rparr>"

lemma sample_alert_facts:
  "\<not> partial_capture sample_alert" "has_flag FLAG_ALERT sample_alert" "content_type sample_alert = 0x15"
  "handshake_type sample_alert = 0" "parse_alert (payload_slice sample_alert) = Some (2, 40)"
  by (simp_all add: partial_capture_def has_flag_def sample_alert_def default_capture_def flag_defs parse_alert_def
      payload_slice_def RAW_PAYLOAD_SIZE_def)

lemma unmatched_alert_sent_witness:
  "\<exists>w' ev. handle_capture sample_deps sample_env sample_alert (worker_new None) = Ret (ToSweep, w') \<and>
     w_alerts_dropped w' = 1 \<and> w_lines w' = [json_line sample_deps ev] \<and>
     ev_alert_description ev = Some ''handshake_failure(40)''"
  using unmatched_alert_sent [OF sample_alert_facts, of "worker_new None" sample_deps sample_env]
  by (auto simp: worker_new_def correlator_new_def alert_description_name_def alert_description_table_def)


definition sample_der_deps :: Deps where
  "sample_der_deps = sample_deps\<lparr>d_parse_x509 := (\<lambda>b. if b = [1, 2, 3] then Some sample_x509 else None)\<rparr>"

definition sample_cert_message :: bytes where
  "sample_cert_message = 0x0B # be24_bytes (length (enc_certificate [[1, 2, 3]])) @ enc_certificate [[1, 2, 3]]"


section \<open>A handshake through the worker\<close>

lemma map_of_filter_Some: "map_of m k = Some v \<Longrightarrow> P (k, v) \<Longrightarrow> map_of (filter P m) k = Some v"
  by (induction m) (auto split: if_splits)

text \<open>
  \<open>waiting\<close>: the ClientHello of connection \<open>k\<close> is pending since \<open>ts\<close>, and there is room for \<open>n\<close> more
  connections.
\<close>

definition waiting :: "ConnKey \<Rightarrow> ClientHelloSummary \<Rightarrow> u64 \<Rightarrow> nat \<Rightarrow> Correlator \<Rightarrow> bool" where
  "waiting k s ts n co =
     (map_of (pending co) k = Some (s, ts) \<and> length (pending co) + n \<le> max_entries co \<and> ttl_ns co = 10000000000)"

lemma waiting_trace:
  assumes "waiting k s ts (Suc n) co" "corr_trace key (Suc 0) co co'" "key \<noteq> k"
  shows "waiting k s ts n co'"
  using assms corr_trace_other [OF assms(2,3)] by (auto simp: waiting_def)

lemma waiting_sweep:
  assumes "waiting k s ts n co" "now - ts < 10000000000"
  shows "waiting k s ts n (snd (corr_sweep_expired now co))"
proof -
  have "map_of (filter (\<lambda>(_, _, ts). now - ts < ttl_ns co) (pending co)) k = Some (s, ts)"
    using assms by (intro map_of_filter_Some) (simp_all add: waiting_def)
  then show ?thesis
    using assms(1) by (auto simp: waiting_def corr_sweep_expired_def Let_def intro: order_trans [OF add_right_mono [OF length_filter_le]])
qed

lemma sweep_tick_waiting:
  assumes "waiting k s ts n (w_corr w)" "en_now_ns en - ts < 10000000000"
  shows "ensures (sweep_tick d en w) (\<lambda>w'. waiting k s ts n (w_corr w'))"
  using assms waiting_sweep by (intro ensures_mono [OF sweep_tick_ensures]) auto

lemma step_waiting:
  assumes "iter_ok (en_iter en)" "worker_inv ok w" "ok c" "conn_key_of c \<noteq> k"
    and "waiting k s ts (Suc n) (w_corr w)" "en_now_ns en - ts < 10000000000"
  shows "ensures (worker_step d en c w) (\<lambda>(go, w'). waiting k s ts n (w_corr w') \<and> worker_inv ok w')"
proof -
  have h: "heads_ok ok (w_reasm w)"
    using assms(2) by (simp add: worker_inv_def)
  have "ensures (worker_step d en c w) (\<lambda>(go, w'). waiting k s ts n (w_corr w'))"
    unfolding worker_step_def
  proof (rule ensures_bind [OF handle_capture_ensures [OF assms(1) h assms(3)]], clarsimp, goal_cases)
    case (1 ctl w1)
    have w1: "waiting k s ts n (w_corr w1)"
      using waiting_trace [OF assms(5) _ assms(4)] 1 by blast
    show ?case
    proof (cases ctl)
      case ToSweep
      then show ?thesis
        by (simp add: ensures_bind [OF sweep_tick_waiting [OF w1 assms(6)]])
    qed (use w1 in simp_all)
  qed
  then show ?thesis
    using worker_step_ensures [OF assms(1,3,2), of d] by (auto simp: ensures_def)
qed

lemma run_waiting:
  assumes "\<forall>(en, c) \<in> set is. iter_ok (en_iter en) \<and> conn_key_of c \<noteq> k \<and> en_now_ns en - ts < 10000000000"
    and "worker_inv (\<lambda>_. True) w" "waiting k s ts (length is) (w_corr w)"
  shows "ensures (worker_run d is w) (\<lambda>w'. waiting k s ts 0 (w_corr w') \<and> worker_inv (\<lambda>_. True) w')"
  using assms
proof (induction "is" arbitrary: w)
  case (Cons i "is")
  obtain en c where i: "i = (en, c)"
    by (cases i)
  have st: "ensures (worker_step d en c w) (\<lambda>(go, w'). waiting k s ts (length is) (w_corr w') \<and> worker_inv (\<lambda>_. True) w')"
    using Cons.prems by (intro step_waiting) (auto simp: i)
  have weaker: "waiting k s ts 0 co" if "waiting k s ts n co" for n co
    using that by (auto simp: waiting_def)
  show ?case
    unfolding i worker_run.simps fst_conv snd_conv
    by (rule ensures_bind [OF st]) (use Cons weaker in \<open>auto simp: i\<close>)
qed simp

lemma note_walked_lookup:
  assumes "map_of (pending co) k = Some (s, ts)"
  shows "map_of (pending (note_walked_requests k rs co)) k =
    Some (s\<lparr>cs_mtls_requested := cs_mtls_requested s \<or> (\<exists>r \<in> set rs. record_handshake_type r = 0x0D)\<rparr>, ts)"
  using assms unfolding note_walked_requests_def
proof (induction rs arbitrary: co s)
  case (Cons r rs)
  show ?case
  proof (cases "record_handshake_type r = 0x0D")
    case True
    have "map_of (pending (on_certificate_request k co)) k = Some (s\<lparr>cs_mtls_requested := True\<rparr>, ts)"
      using Cons.prems by (simp add: on_certificate_request_def)
    from Cons.IH [OF this] show ?thesis
      by (simp add: True)
  next
    case False
    then show ?thesis
      using Cons.IH [OF Cons.prems] by simp
  qed
qed simp

lemma on_server_hello_joins:
  "map_of (pending co) k = Some (s, ts) \<Longrightarrow>
     fst (on_server_hello k (ServerHelloA rv sh) co) = Some (build_negotiation s sh)"
  by (simp add: on_server_hello_def Let_def)

text \<open>The ServerHello's own iteration.\<close>

lemma server_hello_joined:
  assumes "\<not> partial_capture c" "cap_is_server_hello c" "w_accepts w = None"
    and parse: "parse_tls_payload (payload_slice c) False = Ret (ServerHelloA rv sh)"
    and walk: "walk_if_tls12 (ServerHelloA rv sh) (payload_slice c) = Ret walked"
    and pend: "map_of (pending (w_corr w)) (conn_key_of c) = Some (s, ts)"
  shows "ensures (handle_capture d en c w) (\<lambda>(ctl, w'). ctl = ToSweep \<and> w_accepts w' = None \<and>
    (\<exists>certs ev. w_lines w' = w_lines w @ map (json_line d) (certs @ [ev]) \<and> length certs = length walked \<and>
       event_of c ev \<and> ev_negotiation ev = Some (build_negotiation
         (s\<lparr>cs_mtls_requested := cs_mtls_requested s \<or> (\<exists>r \<in> set walked. record_handshake_type r = 0x0D)\<rparr>) sh)))"
proof -
  let ?k = "conn_key_of c"
  let ?s = "s\<lparr>cs_mtls_requested := cs_mtls_requested s \<or> (\<exists>r \<in> set walked. record_handshake_type r = 0x0D)\<rparr>"
  obtain ev0 where ev0: "analyze_capture (d_sha d) (en_utc en) c = Ret ev0" "event_of c ev0"
    using analyze_ensures [of "d_sha d" "en_utc en" c "payload_slice c"] analysis_event [of "d_sha d" "en_utc en" c "payload_slice c"]
    by (auto simp: ensures_def analyze_capture_def)
  let ?w1 = "w\<lparr>w_corr := note_walked_requests ?k walked (w_corr w)\<rparr>"
  let ?neg = "build_negotiation ?s sh"
  have w_corr_upd: "w_corr ?w1 = note_walked_requests ?k walked (w_corr w)"
    by simp
  obtain co where "on_server_hello ?k (ServerHelloA rv sh) (w_corr ?w1) = (Some ?neg, co)"
    using on_server_hello_joins [OF note_walked_lookup [OF pend, of walked], of rv sh] by (metis prod.collapse w_corr_upd)
  then have nsh: "note_server_hello ?k (ServerHelloA rv sh) ev0 ?w1 =
      (ev0\<lparr>ev_negotiation := Some ?neg\<rparr>, ?w1\<lparr>w_corr := co\<rparr>)"
    by (simp add: note_server_hello_def)
  define ev where "ev = ev0\<lparr>ev_negotiation := Some ?neg\<rparr>"
  define w2 where "w2 = ?w1\<lparr>w_corr := co\<rparr>"
  have ev: "event_of c ev" "ev_negotiation ev = Some ?neg" and w2: "w_accepts w2 = None" "w_lines w2 = w_lines w"
    using ev0(2) assms(3) by (simp_all add: ev_def w2_def)
  have "\<not> cap_is_client_hello c"
    using assms(2) by (simp add: cap_is_client_hello_def cap_is_server_hello_def hs_type_defs)
  then have eq: "handle_capture d en c w = rbind (emit_walked d en c walked w2) (\<lambda>w3. Ret (finish_event d en c ev w3))"
    using assms(1,2) by (simp add: direct_step process_direct_def ev0(1) parse walk nsh ev_def w2_def)
  show ?thesis
    unfolding eq
  proof (rule ensures_bind [OF emit_walked_ensures [where key = ?k and n = 0]], goal_cases)
    case (1 w3)
    obtain ctl w' where f: "finish_event d en c ev w3 = (ctl, w')"
      by fastforce
    obtain certs where certs: "w_lines w3 = w_lines w @ map (json_line d) certs" "length certs = length walked" "w_accepts w3 = None"
      using 1(2) w2 by auto
    obtain ev' where ev': "ctl = ToSweep" "w_lines w' = w_lines w3 @ [json_line d ev']" "event_of c ev'" "enriched ev ev'"
      using finish_event_effect(4) [OF f certs(3) ev(1)] by auto
    have "w_accepts w' = None"
      using finish_event_effect(1) [OF f, of ?k 0] certs(3) by (simp add: quiet_def)
    moreover have "\<exists>certs ev. w_lines w' = w_lines w @ map (json_line d) (certs @ [ev]) \<and> length certs = length walked \<and>
       event_of c ev \<and> ev_negotiation ev = Some ?neg"
      using certs ev' ev(2) enriched_keeps(1) [OF ev'(4)] by (intro exI [of _ certs] exI [of _ ev']) simp
    ultimately show ?case
      using ev'(1) by (simp add: f)
  qed
qed

lemma client_hello_waits:
  assumes "iter_ok (en_iter en)" "\<not> partial_capture c" "cap_is_client_hello c"
    and parse: "parse_tls_payload (payload_slice c) True = Ret (ClientHelloA rv h)"
    and room: "length (pending (w_corr w)) + Suc n \<le> max_entries (w_corr w)" "ttl_ns (w_corr w) = 10000000000"
    and inv: "worker_inv (\<lambda>_. True) w"
  shows "ensures (worker_step d en c w) (\<lambda>(go, w').
    waiting (conn_key_of c) (summary_of (en_now_ns en) h) (en_now_ns en) n (w_corr w') \<and> worker_inv (\<lambda>_. True) w')"
proof -
  let ?k = "conn_key_of c" and ?s = "summary_of (en_now_ns en) h" and ?t = "en_now_ns en"
  obtain ev where ev: "analyze_capture (d_sha d) (en_utc en) c = Ret ev"
    using analysis_event [of "d_sha d" "en_utc en" c "payload_slice c"] by (auto simp: analyze_capture_def)
  define w1 where "w1 = w\<lparr>w_corr := snd (on_client_hello (en_iter en) ?t ?k (ClientHelloA rv h) (w_corr w))\<rparr>"
  obtain ctl w2 where f: "finish_event d en c ev w1 = (ctl, w2)"
    by fastforce
  have hc: "handle_capture d en c w = Ret (ctl, w2)"
    using assms(2,3) by (simp add: direct_step process_direct_def ev note_client_hello_def parse w1_def [symmetric] f)
  have co: "w_corr w2 = (w_corr w)\<lparr>pending := hm_insert ?k (?s, ?t) (pending (w_corr w))\<rparr>"
    using f room(1) by (auto simp: finish_event_def w1_def on_client_hello_def Let_def split: prod.splits dest: send_event_effect(3))
  have wait: "waiting ?k ?s ?t n (w_corr w2)"
    using room length_hm_insert_le [of ?k "(?s, ?t)" "pending (w_corr w)"] by (simp add: waiting_def co)
  have "ensures (worker_step d en c w) (\<lambda>(go, w'). waiting ?k ?s ?t n (w_corr w'))"
  proof (cases ctl)
    case ToSweep
    then show ?thesis
      by (simp add: worker_step_def hc ensures_bind [OF sweep_tick_waiting [OF wait]])
  qed (use wait in \<open>simp_all add: worker_step_def hc\<close>)
  then show ?thesis
    using worker_step_ensures [OF assms(1) _ inv, where c = c and d = d] by (auto simp: ensures_def)
qed


section \<open>A concrete handshake\<close>

definition hello_capture :: "u8 \<Rightarrow> bytes \<Rightarrow> RawTlsCapture" where
  "hello_capture ht p =
     default_capture\<lparr>handshake_type := ht, content_type := 0x16, payload_len := of_nat (length p), payload := p\<rparr>"

lemma hello_capture_facts:
  "length p \<le> 4096 \<Longrightarrow> payload_slice (hello_capture ht p) = p"
  "\<not> partial_capture (hello_capture ht p)" "conn_key_of (hello_capture ht p) = conn_key_of default_capture"
  "handshake_type (hello_capture ht p) = ht"
  by (simp_all add: hello_capture_def payload_slice_def RAW_PAYLOAD_SIZE_def unat_of_nat16 partial_capture_def
      default_capture_def conn_key_of_def)

definition sample_client :: bytes where
  "sample_client = enc_client_hello (replicate 9 0) 0x0303 (replicate 32 7) [] [0x1301] [0] []"

definition sample_server :: bytes where
  "sample_server = enc_server_hello (replicate 9 0) 0x0303 (replicate 32 7) [] 0x1301 0 []"

lemma sample_hello_lengths: "length sample_client = 52" "length sample_server = 49"
  by (simp_all add: sample_client_def sample_server_def enc_client_hello_def enc_server_hello_def enc_u16s_def enc_exts_def)

lemma sample_payloads:
  "parse_tls_payload sample_client True =
     Ret (ClientHelloA 0 (client_base 0x0303 (replicate 32 7) [] [0x1301] [0]))"
  "parse_tls_payload sample_server False =
     Ret (ServerHelloA 0 (server_base 0x0303 (replicate 32 7) [] 0x1301 0))"
proof -
  have "rd16 sample_client 1 = (Ret 0 :: (ParseError, u16) run)" "rd16 sample_server 1 = (Ret 0 :: (ParseError, u16) run)"
    by (simp_all add: rd16_in sample_hello_lengths)
      (simp_all add: sample_client_def sample_server_def enc_client_hello_def enc_server_hello_def nth_append be16_def)
  then show "parse_tls_payload sample_client True =
     Ret (ClientHelloA 0 (client_base 0x0303 (replicate 32 7) [] [0x1301] [0]))"
   "parse_tls_payload sample_server False =
     Ret (ServerHelloA 0 (server_base 0x0303 (replicate 32 7) [] 0x1301 0))"
    using client_hello_parsed [OF sample_sizes(1), of "[0x1301]" "[0]" "0x0303"]
      server_hello_parsed [OF sample_sizes(1), of "0x0303" "0x1301" 0]
    by (simp_all add: parse_tls_payload_def hello_lens sample_hello_lengths)
      (simp_all add: sample_client_def sample_server_def client_fields_def client_base_def server_fields_def server_base_def)
qed

lemma walk_of_other: "b ! 0 \<noteq> 0x16 \<Longrightarrow> walk_of n b = []"
  by (cases n) (simp_all add: Let_def)

lemma sample_server_walk: "walk_if_tls12 (ServerHelloA 0 (server_base 0x0303 (replicate 32 7) [] 0x1301 0)) sample_server = Ret []"
proof -
  have "sample_server ! 3 = 0" "sample_server ! 4 = 0" "sample_server ! 5 = 0"
    by (simp_all add: sample_server_def enc_server_hello_def nth_append)
  then show ?thesis
    using walk_of_other [of "drop 5 sample_server"]
    by (simp add: walk_if_tls12_def walk_records_eq sample_hello_lengths be16_def)
qed


end
