(* ===== verification/Spool.thy ===== *)
theory Spool
  imports Stores Rust_Text "HOL-Library.Multiset"
begin

text \<open>
  \<open>crates/tls-probe-cli/src/pipeline.rs\<close>: the output side.  A buffered writer with a flush policy, the
  spool of rotating chunk files under a size cap, and the writer thread.

  The file system is explicit, because what the spool loses depends on aliasing: an open file
  is an inode, a directory entry is a name for one, and a rename or a removal changes names only.
  \<open>Disk\<close> is the output directory, which holds regular files with UTF-8 names only, together with
  the contents of the inodes.  \<open>dk_script\<close> says which of the coming I/O calls fail: \<open>None\<close> is a
  success, \<open>Some n\<close> an error, for a write after \<open>n\<close> bytes; past its end everything succeeds.

  \<open>BufWriter\<close> is the one of the standard library, with its default capacity of 8 KiB.  Sizes and
  byte counts, which are \<open>usize\<close> and \<open>u64\<close> in the code, are bounded by what a disk holds and are
  \<open>nat\<close> here.
\<close>

section \<open>The file system\<close>

datatype 'a io_result = IoOk 'a | IoErr

record Disk =
  dk_names :: "(string \<times> nat) list"
  dk_inodes :: "nat \<Rightarrow> bytes"
  dk_next :: nat
  dk_script :: "nat option list"

definition io_call :: "Disk \<Rightarrow> nat option \<times> Disk" where
  "io_call d = (case dk_script d of [] \<Rightarrow> (None, d) | x # xs \<Rightarrow> (x, d\<lparr>dk_script := xs\<rparr>))"

text \<open>\<open>write_all\<close> on a file: how many bytes have been written, and whether that was all.\<close>

definition file_write :: "nat \<Rightarrow> bytes \<Rightarrow> Disk \<Rightarrow> (nat \<times> bool) \<times> Disk" where
  "file_write i bs d =
     (case io_call d of
        (None, d1) \<Rightarrow> ((length bs, True), d1\<lparr>dk_inodes := (dk_inodes d1)(i := dk_inodes d1 i @ bs)\<rparr>)
      | (Some n, d1) \<Rightarrow> ((n, False), d1\<lparr>dk_inodes := (dk_inodes d1)(i := dk_inodes d1 i @ take n bs)\<rparr>))"

definition file_create :: "string \<Rightarrow> Disk \<Rightarrow> nat io_result \<times> Disk" where
  "file_create name d =
     (case io_call d of
        (Some _, d1) \<Rightarrow> (IoErr, d1)
      | (None, d1) \<Rightarrow>
          (case map_of (dk_names d1) name of
             Some i \<Rightarrow> (IoOk i, d1\<lparr>dk_inodes := (dk_inodes d1)(i := [])\<rparr>)
           | None \<Rightarrow>
               (IoOk (dk_next d1),
                d1\<lparr>dk_names := hm_insert name (dk_next d1) (dk_names d1),
                   dk_inodes := (dk_inodes d1)(dk_next d1 := []), dk_next := Suc (dk_next d1)\<rparr>)))"

definition file_rename :: "string \<Rightarrow> string \<Rightarrow> Disk \<Rightarrow> unit io_result \<times> Disk" where
  "file_rename old new d =
     (case io_call d of
        (Some _, d1) \<Rightarrow> (IoErr, d1)
      | (None, d1) \<Rightarrow>
          (case map_of (dk_names d1) old of
             None \<Rightarrow> (IoErr, d1)
           | Some i \<Rightarrow> (IoOk (), d1\<lparr>dk_names := hm_insert new i (kv_remove old (dk_names d1))\<rparr>)))"

definition file_remove :: "string \<Rightarrow> Disk \<Rightarrow> unit io_result \<times> Disk" where
  "file_remove name d =
     (case io_call d of
        (Some _, d1) \<Rightarrow> (IoErr, d1)
      | (None, d1) \<Rightarrow>
          (case map_of (dk_names d1) name of
             None \<Rightarrow> (IoErr, d1)
           | Some i \<Rightarrow> (IoOk (), d1\<lparr>dk_names := kv_remove name (dk_names d1)\<rparr>)))"

text \<open>\<open>Path::exists\<close>, which is false when the file cannot be looked at.\<close>

definition file_exists :: "string \<Rightarrow> Disk \<Rightarrow> bool \<times> Disk" where
  "file_exists name d =
     (case io_call d of
        (Some _, d1) \<Rightarrow> (False, d1)
      | (None, d1) \<Rightarrow> (map_of (dk_names d1) name \<noteq> None, d1))"

section \<open>BufWriter\<close>

record BufWriter =
  bw_inode :: nat
  bw_buf :: bytes

definition buf_capacity :: nat where
  "buf_capacity = 8192"

definition bw_flush :: "BufWriter \<Rightarrow> Disk \<Rightarrow> bool \<times> BufWriter \<times> Disk" where
  "bw_flush b d =
     (if bw_buf b = [] then (True, b, d)
      else
        (case file_write (bw_inode b) (bw_buf b) d of
           ((n, ok), d1) \<Rightarrow> (ok, b\<lparr>bw_buf := drop n (bw_buf b)\<rparr>, d1)))"

definition bw_write_all :: "bytes \<Rightarrow> BufWriter \<Rightarrow> Disk \<Rightarrow> bool \<times> BufWriter \<times> Disk" where
  "bw_write_all line b d =
     (if length line < buf_capacity - length (bw_buf b)
      then (True, b\<lparr>bw_buf := bw_buf b @ line\<rparr>, d)
      else
        (case (if length line > buf_capacity - length (bw_buf b) then bw_flush b d else (True, b, d)) of
           (False, b1, d1) \<Rightarrow> (False, b1, d1)
         | (True, b1, d1) \<Rightarrow>
             if length line \<ge> buf_capacity
             then (case file_write (bw_inode b1) line d1 of ((n, ok), d2) \<Rightarrow> (ok, b1, d2))
             else (True, b1\<lparr>bw_buf := bw_buf b1 @ line\<rparr>, d1)))"

text \<open>Dropping it writes what it still holds and ignores an error.\<close>

definition bw_drop :: "BufWriter \<Rightarrow> Disk \<Rightarrow> Disk" where
  "bw_drop b d = (case bw_flush b d of (_, _, d1) \<Rightarrow> d1)"

section \<open>BufferedLineWriter\<close>

definition FLUSH_THRESHOLD :: nat where
  "FLUSH_THRESHOLD = 64 * 1024"

text \<open>In milliseconds, as are all instants of this theory.\<close>

definition FLUSH_INTERVAL :: nat where
  "FLUSH_INTERVAL = 250"

record BufferedLineWriter =
  inner :: BufWriter
  pending_bytes :: nat
  last_flush :: nat

definition line_writer_new :: "nat \<Rightarrow> nat \<Rightarrow> BufferedLineWriter" where
  "line_writer_new now i = \<lparr>inner = \<lparr>bw_inode = i, bw_buf = []\<rparr>, pending_bytes = 0, last_flush = now\<rparr>"

definition line_write :: "bytes \<Rightarrow> BufferedLineWriter \<Rightarrow> Disk \<Rightarrow> bool \<times> BufferedLineWriter \<times> Disk" where
  "line_write line w d =
     (case bw_write_all line (inner w) d of
        (False, b, d1) \<Rightarrow> (False, w\<lparr>inner := b\<rparr>, d1)
      | (True, b, d1) \<Rightarrow> (True, w\<lparr>inner := b, pending_bytes := pending_bytes w + length line\<rparr>, d1))"

definition should_flush :: "nat \<Rightarrow> BufferedLineWriter \<Rightarrow> bool" where
  "should_flush now w =
     (pending_bytes w > 0 \<and> (pending_bytes w \<ge> FLUSH_THRESHOLD \<or> now - last_flush w \<ge> FLUSH_INTERVAL))"

definition do_flush :: "nat \<Rightarrow> BufferedLineWriter \<Rightarrow> Disk \<Rightarrow> bool \<times> BufferedLineWriter \<times> Disk" where
  "do_flush now w d =
     (case bw_flush (inner w) d of
        (False, b, d1) \<Rightarrow> (False, w\<lparr>inner := b\<rparr>, d1)
      | (True, b, d1) \<Rightarrow> (True, w\<lparr>inner := b, pending_bytes := 0, last_flush := now\<rparr>, d1))"

definition flush_if_needed :: "nat \<Rightarrow> BufferedLineWriter \<Rightarrow> Disk \<Rightarrow> bool io_result \<times> BufferedLineWriter \<times> Disk" where
  "flush_if_needed now w d =
     (if should_flush now w then
        (case do_flush now w d of (ok, w1, d1) \<Rightarrow> (if ok then IoOk True else IoErr, w1, d1))
      else (IoOk False, w, d))"

definition force_flush :: "nat \<Rightarrow> BufferedLineWriter \<Rightarrow> Disk \<Rightarrow> bool \<times> BufferedLineWriter \<times> Disk" where
  "force_flush now w d = (if pending_bytes w > 0 then do_flush now w d else (True, w, d))"

section \<open>Chunk names\<close>

definition CHUNK_PREFIX :: string where
  "CHUNK_PREFIX = ''capture-''"

definition CHUNK_SUFFIX :: string where
  "CHUNK_SUFFIX = ''.jsonl''"

definition CHUNK_PART_SUFFIX :: string where
  "CHUNK_PART_SUFFIX = ''.jsonl.part''"

text \<open>Part name and complete name; both within the output directory.\<close>

definition chunk_paths :: "u64 \<Rightarrow> string \<times> string" where
  "chunk_paths ts =
     (CHUNK_PREFIX @ dec (unat ts) @ CHUNK_PART_SUFFIX, CHUNK_PREFIX @ dec (unat ts) @ CHUNK_SUFFIX)"

definition parse_complete_chunk_timestamp :: "string \<Rightarrow> u64 option" where
  "parse_complete_chunk_timestamp name =
     Option.bind (strip_suffix CHUNK_SUFFIX name) (\<lambda>stem.
     Option.bind (strip_prefix CHUNK_PREFIX stem) (\<lambda>digits.
       map_option of_nat (from_str_radix 64 10 digits)))"

text \<open>\<open>Path::extension\<close>: what follows the last dot, unless that dot is the first character.\<close>

definition extension :: "string \<Rightarrow> string option" where
  "extension name =
     (let after = rev (takeWhile (\<lambda>c. c \<noteq> CHR ''.'') (rev name)) in
      if length after = length name \<or> Suc (length after) = length name then None else Some after)"

section \<open>RotatingSpoolWriter\<close>

record RotatingSpoolWriter =
  max_chunk_bytes :: nat
  max_total_bytes :: "nat option"
  current_writer :: BufferedLineWriter
  current_part_path :: string
  current_complete_path :: string
  current_bytes :: nat
  chunks_evicted :: u64

text \<open>What a call reads of the outside: the monotonic clock, the wall clock in seconds, and the order
  in which the directory is listed.\<close>

record SpoolEnv =
  se_now :: nat
  se_secs :: u64
  se_readdir :: "(string \<times> nat) list \<Rightarrow> (string \<times> nat) list"

definition spool_new :: "SpoolEnv \<Rightarrow> nat \<Rightarrow> nat option \<Rightarrow> Disk \<Rightarrow> RotatingSpoolWriter io_result \<times> Disk" where
  "spool_new e max_chunk max_total d =
     (case io_call d of
        (Some _, d1) \<Rightarrow> (IoErr, d1)
      | (None, d1) \<Rightarrow>
          (case chunk_paths (se_secs e) of
             (part_path, complete_path) \<Rightarrow>
               (case file_create part_path d1 of
                  (IoErr, d2) \<Rightarrow> (IoErr, d2)
                | (IoOk i, d2) \<Rightarrow>
                    (IoOk \<lparr>max_chunk_bytes = max_chunk, max_total_bytes = max_total,
                       current_writer = line_writer_new (se_now e) i, current_part_path = part_path,
                       current_complete_path = complete_path, current_bytes = 0, chunks_evicted = 0\<rparr>, d2))))"

text \<open>The size of every listed file is one more call.\<close>

primrec chunk_entries ::
  "(string \<times> nat) list \<Rightarrow> Disk \<Rightarrow> (u64 \<times> nat \<times> string) list io_result \<times> Disk" where
  "chunk_entries [] d = (IoOk [], d)"
| "chunk_entries (e # es) d =
     (if extension (fst e) \<noteq> Some ''jsonl'' then chunk_entries es d
      else
        (case parse_complete_chunk_timestamp (fst e) of
           None \<Rightarrow> chunk_entries es d
         | Some ts \<Rightarrow>
             (case io_call d of
                (Some _, d1) \<Rightarrow> (IoErr, d1)
              | (None, d1) \<Rightarrow>
                  (case chunk_entries es d1 of
                     (IoErr, d2) \<Rightarrow> (IoErr, d2)
                   | (IoOk cs, d2) \<Rightarrow> (IoOk ((ts, length (dk_inodes d1 (snd e)), fst e) # cs), d2)))))"

definition list_complete_chunks :: "SpoolEnv \<Rightarrow> Disk \<Rightarrow> (u64 \<times> nat \<times> string) list io_result \<times> Disk" where
  "list_complete_chunks e d =
     (case io_call d of
        (Some _, d1) \<Rightarrow> (IoErr, d1)
      | (None, d1) \<Rightarrow> chunk_entries (se_readdir e (dk_names d1)) d1)"

text \<open>The eviction loop: chunks from the oldest on, until the excess is gone; the number removed.\<close>

primrec evict_loop :: "nat \<Rightarrow> (u64 \<times> nat \<times> string) list \<Rightarrow> nat \<Rightarrow> Disk \<Rightarrow> bool \<times> nat \<times> Disk" where
  "evict_loop excess [] n d = (True, n, d)"
| "evict_loop excess (c # cs) n d =
     (if excess = 0 then (True, n, d)
      else
        (case file_remove (snd (snd c)) d of
           (IoErr, d1) \<Rightarrow> (False, n, d1)
         | (IoOk _, d1) \<Rightarrow> evict_loop (excess - fst (snd c)) cs (Suc n) d1))"

definition enforce_cap ::
  "SpoolEnv \<Rightarrow> nat \<Rightarrow> RotatingSpoolWriter \<Rightarrow> Disk \<Rightarrow> bool \<times> RotatingSpoolWriter \<times> Disk" where
  "enforce_cap e max_total s d =
     (case list_complete_chunks e d of
        (IoErr, d1) \<Rightarrow> (False, s, d1)
      | (IoOk listed, d1) \<Rightarrow>
          (let chunks = sort_key fst listed; total = sum_list (map (\<lambda>c. fst (snd c)) chunks) in
           if total \<le> max_total then (True, s, d1)
           else
             (case evict_loop (total - max_total) chunks 0 d1 of
                (ok, n, d2) \<Rightarrow> (ok, s\<lparr>chunks_evicted := chunks_evicted s + of_nat n\<rparr>, d2))))"

definition open_next_chunk :: "SpoolEnv \<Rightarrow> RotatingSpoolWriter \<Rightarrow> Disk \<Rightarrow> bool \<times> RotatingSpoolWriter \<times> Disk" where
  "open_next_chunk e s d =
     (case chunk_paths (se_secs e) of
        (part_path, complete_path) \<Rightarrow>
          (case file_create part_path d of
             (IoErr, d1) \<Rightarrow> (False, s, d1)
           | (IoOk i, d1) \<Rightarrow>
               (True,
                s\<lparr>current_writer := line_writer_new (se_now e) i, current_part_path := part_path,
                  current_complete_path := complete_path\<rparr>,
                bw_drop (inner (current_writer s)) d1)))"

definition rotate_chunk :: "SpoolEnv \<Rightarrow> RotatingSpoolWriter \<Rightarrow> Disk \<Rightarrow> bool \<times> RotatingSpoolWriter \<times> Disk" where
  "rotate_chunk e s d =
     (case force_flush (se_now e) (current_writer s) d of
        (False, w, d1) \<Rightarrow> (False, s\<lparr>current_writer := w\<rparr>, d1)
      | (True, w, d1) \<Rightarrow>
          (let s1 = s\<lparr>current_writer := w\<rparr> in
           case file_rename (current_part_path s1) (current_complete_path s1) d1 of
             (IoErr, d2) \<Rightarrow> (False, s1, d2)
           | (IoOk _, d2) \<Rightarrow>
               (let s2 = s1\<lparr>current_bytes := 0\<rparr> in
                case (case max_total_bytes s2 of
                        Some max_total \<Rightarrow> enforce_cap e max_total s2 d2
                      | None \<Rightarrow> (True, s2, d2)) of
                  (False, s3, d3) \<Rightarrow> (False, s3, d3)
                | (True, s3, d3) \<Rightarrow> open_next_chunk e s3 d3)))"

definition spool_write :: "SpoolEnv \<Rightarrow> bytes \<Rightarrow> RotatingSpoolWriter \<Rightarrow> Disk \<Rightarrow> bool \<times> RotatingSpoolWriter \<times> Disk" where
  "spool_write e line s d =
     (case line_write line (current_writer s) d of
        (False, w, d1) \<Rightarrow> (False, s\<lparr>current_writer := w\<rparr>, d1)
      | (True, w, d1) \<Rightarrow>
          (let s1 = s\<lparr>current_writer := w, current_bytes := current_bytes s + length line\<rparr> in
           if current_bytes s1 \<ge> max_chunk_bytes s1 then rotate_chunk e s1 d1 else (True, s1, d1)))"

definition spool_flush_if_needed ::
  "SpoolEnv \<Rightarrow> RotatingSpoolWriter \<Rightarrow> Disk \<Rightarrow> bool io_result \<times> RotatingSpoolWriter \<times> Disk" where
  "spool_flush_if_needed e s d =
     (case flush_if_needed (se_now e) (current_writer s) d of (r, w, d1) \<Rightarrow> (r, s\<lparr>current_writer := w\<rparr>, d1))"

text \<open>The writer is consumed, so its buffer is dropped on every path.\<close>

definition spool_finalize :: "SpoolEnv \<Rightarrow> RotatingSpoolWriter \<Rightarrow> Disk \<Rightarrow> bool \<times> Disk" where
  "spool_finalize e s d =
     (case force_flush (se_now e) (current_writer s) d of
        (False, w, d1) \<Rightarrow> (False, bw_drop (inner w) d1)
      | (True, w, d1) \<Rightarrow>
          (case file_exists (current_part_path s) d1 of
             (False, d2) \<Rightarrow> (True, bw_drop (inner w) d2)
           | (True, d2) \<Rightarrow>
               (case file_rename (current_part_path s) (current_complete_path s) d2 of
                  (IoErr, d3) \<Rightarrow> (False, bw_drop (inner w) d3)
                | (IoOk _, d3) \<Rightarrow> (True, bw_drop (inner w) d3))))"

section \<open>The writer thread\<close>

datatype WriterBackend = Plain BufferedLineWriter | Spool RotatingSpoolWriter

primrec backend_write :: "SpoolEnv \<Rightarrow> bytes \<Rightarrow> WriterBackend \<Rightarrow> Disk \<Rightarrow> bool \<times> WriterBackend \<times> Disk" where
  "backend_write e line (Plain w) d = (case line_write line w d of (ok, w1, d1) \<Rightarrow> (ok, Plain w1, d1))"
| "backend_write e line (Spool s) d = (case spool_write e line s d of (ok, s1, d1) \<Rightarrow> (ok, Spool s1, d1))"

primrec backend_flush :: "SpoolEnv \<Rightarrow> WriterBackend \<Rightarrow> Disk \<Rightarrow> bool io_result \<times> WriterBackend \<times> Disk" where
  "backend_flush e (Plain w) d = (case flush_if_needed (se_now e) w d of (r, w1, d1) \<Rightarrow> (r, Plain w1, d1))"
| "backend_flush e (Spool s) d = (case spool_flush_if_needed e s d of (r, s1, d1) \<Rightarrow> (r, Spool s1, d1))"

primrec backend_finalize :: "SpoolEnv \<Rightarrow> WriterBackend \<Rightarrow> Disk \<Rightarrow> bool \<times> Disk" where
  "backend_finalize e (Plain w) d =
     (case force_flush (se_now e) w d of (ok, w1, d1) \<Rightarrow> (ok, bw_drop (inner w1) d1))"
| "backend_finalize e (Spool s) d = spool_finalize e s d"

text \<open>
  The thread's state, with standard output as one more open file.  A poll of the channel finds
  a line, nothing, or every sender gone.
\<close>

record WriterThread =
  file_writer :: "WriterBackend option"
  stdout_writer :: "BufferedLineWriter option"
  events_emitted :: u64

datatype Poll = Line bytes | EmptyPoll | Disconnected

definition flush_writers :: "SpoolEnv \<Rightarrow> WriterThread \<Rightarrow> Disk \<Rightarrow> WriterThread \<times> Disk" where
  "flush_writers e t d =
     (let (fw, d1) = (case file_writer t of
            None \<Rightarrow> (None, d)
          | Some w \<Rightarrow> (case backend_flush e w d of (_, w1, d1) \<Rightarrow> (Some w1, d1)));
          (sw, d2) = (case stdout_writer t of
            None \<Rightarrow> (None, d1)
          | Some w \<Rightarrow> (case flush_if_needed (se_now e) w d1 of (_, w1, d2) \<Rightarrow> (Some w1, d2)))
      in (t\<lparr>file_writer := fw, stdout_writer := sw\<rparr>, d2))"

definition write_and_flush :: "SpoolEnv \<Rightarrow> bytes \<Rightarrow> WriterThread \<Rightarrow> Disk \<Rightarrow> WriterThread \<times> Disk" where
  "write_and_flush e line t d =
     (let (fw, d1) = (case file_writer t of
            None \<Rightarrow> (None, d)
          | Some w \<Rightarrow>
              (case backend_write e line w d of
                 (_, w1, d1) \<Rightarrow> (case backend_flush e w1 d1 of (_, w2, d2) \<Rightarrow> (Some w2, d2))));
          (sw, d2) = (case stdout_writer t of
            None \<Rightarrow> (None, d1)
          | Some w \<Rightarrow>
              (case line_write line w d1 of
                 (_, w1, d2) \<Rightarrow> (case flush_if_needed (se_now e) w1 d2 of (_, w2, d3) \<Rightarrow> (Some w2, d3))))
      in (t\<lparr>file_writer := fw, stdout_writer := sw, events_emitted := events_emitted t + 1\<rparr>, d2))"

definition finish_writers :: "SpoolEnv \<Rightarrow> WriterThread \<Rightarrow> Disk \<Rightarrow> Disk" where
  "finish_writers e t d =
     (let d1 = (case file_writer t of None \<Rightarrow> d | Some w \<Rightarrow> snd (backend_finalize e w d)) in
      case stdout_writer t of
        None \<Rightarrow> d1
      | Some w \<Rightarrow> (case force_flush (se_now e) w d1 of (_, w1, d2) \<Rightarrow> bw_drop (inner w1) d2))"

text \<open>
  The loop over what the polls find; \<open>None\<close> as long as the senders are still there when the polls
  end.
\<close>

fun run_writer_thread :: "(SpoolEnv \<times> Poll) list \<Rightarrow> WriterThread \<Rightarrow> Disk \<Rightarrow> (u64 \<times> Disk) option" where
  "run_writer_thread [] t d = None"
| "run_writer_thread ((e, Line line) # polls) t d =
     (case write_and_flush e line t d of (t1, d1) \<Rightarrow> run_writer_thread polls t1 d1)"
| "run_writer_thread ((e, EmptyPoll) # polls) t d =
     (case flush_writers e t d of (t1, d1) \<Rightarrow> run_writer_thread polls t1 d1)"
| "run_writer_thread ((e, Disconnected) # polls) t d = Some (events_emitted t, finish_writers e t d)"

text \<open>The per-CPU drop counters of the kernel side; \<open>None\<close> when the map is missing or cannot be read.\<close>

definition sum_kernel_drops :: "u64 list option \<Rightarrow> u64" where
  "sum_kernel_drops values = (case values of None \<Rightarrow> 0 | Some vs \<Rightarrow> sum_list vs)"

section \<open>Without I/O errors\<close>

lemma io_call_ok [simp]: "dk_script d = [] \<Longrightarrow> io_call d = (None, d)"
  by (simp add: io_call_def)

definition appended :: "nat \<Rightarrow> bytes \<Rightarrow> Disk \<Rightarrow> Disk" where
  "appended i bs d = d\<lparr>dk_inodes := (dk_inodes d)(i := dk_inodes d i @ bs)\<rparr>"

lemma appended_simps [simp]:
  "appended i [] d = d" "dk_names (appended i bs d) = dk_names d" "dk_next (appended i bs d) = dk_next d"
  "dk_script (appended i bs d) = dk_script d"
  "dk_inodes (appended i bs d) j = (if j = i then dk_inodes d i @ bs else dk_inodes d j)"
  "appended i b (appended i a d) = appended i (a @ b) d"
  by (simp_all add: appended_def)

lemma file_write_ok: "dk_script d = [] \<Longrightarrow> file_write i bs d = ((length bs, True), appended i bs d)"
  by (simp add: file_write_def appended_def)

lemma bw_flush_ok: "dk_script d = [] \<Longrightarrow> bw_flush b d = (True, b\<lparr>bw_buf := []\<rparr>, appended (bw_inode b) (bw_buf b) d)"
  by (simp add: bw_flush_def file_write_ok)

lemma bw_write_all_ok:
  assumes "dk_script d = []"
  shows "\<exists>written rest. bw_write_all line b d = (True, b\<lparr>bw_buf := rest\<rparr>, appended (bw_inode b) written d) \<and>
    written @ rest = bw_buf b @ line"
proof -
  let ?room = "buf_capacity - length (bw_buf b)"
  consider "length line < ?room" | "length line = ?room" "length line < buf_capacity"
    | "length line = ?room" "buf_capacity \<le> length line" | "?room < length line" "length line < buf_capacity"
    | "?room < length line" "buf_capacity \<le> length line"
    by linarith
  then show ?thesis
  proof cases
    case 1
    then show ?thesis
      by (intro exI [of _ "[]"] exI [of _ "bw_buf b @ line"]) (simp add: bw_write_all_def)
  next
    case 2
    then show ?thesis
      by (intro exI [of _ "[]"] exI [of _ "bw_buf b @ line"]) (simp add: bw_write_all_def)
  next
    case 3
    then have "length (bw_buf b) = 0"
      unfolding buf_capacity_def by linarith
    then have "bw_buf b = []"
      by simp
    with 3 assms show ?thesis
      by (intro exI [of _ line] exI [of _ "[]"]) (simp add: bw_write_all_def file_write_ok)
  next
    case 4
    with assms show ?thesis
      by (intro exI [of _ "bw_buf b"] exI [of _ line]) (simp add: bw_write_all_def bw_flush_ok)
  next
    case 5
    with assms show ?thesis
      by (intro exI [of _ "bw_buf b @ line"] exI [of _ "[]"]) (simp add: bw_write_all_def bw_flush_ok file_write_ok)
  qed
qed

text \<open>
  \<open>moved w d bs w' d'\<close>: the writer has taken \<open>bs\<close>, and of all it has taken some more has gone to
  its file; nothing else on the disk has changed.
\<close>

definition line_ok :: "BufferedLineWriter \<Rightarrow> bool" where
  "line_ok w = (pending_bytes w = 0 \<longrightarrow> bw_buf (inner w) = [])"

definition content_of :: "BufferedLineWriter \<Rightarrow> Disk \<Rightarrow> bytes" where
  "content_of w d = dk_inodes d (bw_inode (inner w)) @ bw_buf (inner w)"

definition moved :: "BufferedLineWriter \<Rightarrow> Disk \<Rightarrow> bytes \<Rightarrow> BufferedLineWriter \<Rightarrow> Disk \<Rightarrow> bool" where
  "moved w d bs w' d' =
     (bw_inode (inner w') = bw_inode (inner w) \<and> line_ok w' \<and>
      (\<exists>written. d' = appended (bw_inode (inner w)) written d \<and>
         written @ bw_buf (inner w') = bw_buf (inner w) @ bs))"

lemma moved_facts:
  assumes "moved w d bs w' d'"
  shows "content_of w' d' = content_of w d @ bs" "dk_names d' = dk_names d" "dk_next d' = dk_next d"
    "dk_script d' = dk_script d" "bw_inode (inner w') = bw_inode (inner w)" "line_ok w'"
    "i \<noteq> bw_inode (inner w) \<Longrightarrow> dk_inodes d' i = dk_inodes d i"
  using assms by (auto simp: moved_def content_of_def)

lemma moved_trans: "moved w d a w1 d1 \<Longrightarrow> moved w1 d1 b w2 d2 \<Longrightarrow> moved w d (a @ b) w2 d2"
  unfolding moved_def
proof (elim conjE exE, intro conjI)
  fix x y
  assume "d1 = appended (bw_inode (inner w)) x d" "x @ bw_buf (inner w1) = bw_buf (inner w) @ a"
    "d2 = appended (bw_inode (inner w1)) y d1" "y @ bw_buf (inner w2) = bw_buf (inner w1) @ b"
    "bw_inode (inner w1) = bw_inode (inner w)"
  then show "\<exists>z. d2 = appended (bw_inode (inner w)) z d \<and> z @ bw_buf (inner w2) = bw_buf (inner w) @ a @ b"
    by (intro exI [of _ "x @ y"] conjI) (simp, metis append.assoc)
qed simp_all

lemma moved_refl: "line_ok w \<Longrightarrow> moved w d [] w d"
  unfolding moved_def by (auto intro: exI [of _ "[]"])

lemma line_write_ok:
  assumes "dk_script d = []" "line_ok w"
  shows "\<exists>w' d'. line_write line w d = (True, w', d') \<and> moved w d line w' d'"
proof -
  obtain written rest where e: "written @ rest = bw_buf (inner w) @ line"
    "bw_write_all line (inner w) d = (True, (inner w)\<lparr>bw_buf := rest\<rparr>, appended (bw_inode (inner w)) written d)"
    using bw_write_all_ok [OF assms(1)] by blast
  with assms(2) have "pending_bytes w = 0 \<and> line = [] \<Longrightarrow> rest = []"
    by (simp add: line_ok_def)
  with e show ?thesis
    by (auto simp: line_write_def moved_def line_ok_def)
qed

lemma do_flush_ok:
  assumes "dk_script d = []"
  shows "\<exists>w' d'. do_flush now w d = (True, w', d') \<and> moved w d [] w' d' \<and> bw_buf (inner w') = []"
  using assms by (simp add: do_flush_def bw_flush_ok moved_def line_ok_def)

lemma flush_if_needed_ok:
  assumes "dk_script d = []" "line_ok w"
  shows "\<exists>w' d'. flush_if_needed now w d = (IoOk (should_flush now w), w', d') \<and> moved w d [] w' d' \<and>
    (should_flush now w \<longrightarrow> bw_buf (inner w') = [])"
  using do_flush_ok [OF assms(1), of now w] moved_refl [OF assms(2)] by (auto simp: flush_if_needed_def)

lemma force_flush_ok:
  assumes "dk_script d = []" "line_ok w"
  shows "\<exists>w' d'. force_flush now w d = (True, w', d') \<and> moved w d [] w' d' \<and> bw_buf (inner w') = []"
  using do_flush_ok [OF assms(1), of now w] moved_refl [OF assms(2)] assms(2)
  by (auto simp: force_flush_def line_ok_def)

lemma bw_drop_flushed: "bw_buf b = [] \<Longrightarrow> bw_drop b d = d"
  by (simp add: bw_drop_def bw_flush_def)

section \<open>Names and listings\<close>

abbreviation part_name :: "u64 \<Rightarrow> string" where
  "part_name ts \<equiv> fst (chunk_paths ts)"

abbreviation complete_name :: "u64 \<Rightarrow> string" where
  "complete_name ts \<equiv> snd (chunk_paths ts)"

lemma strip_suffix_append [simp]: "strip_suffix x (p @ s @ x) = Some (p @ s)"
  using strip_affixes(1) [of x "p @ s"] by simp

lemma unat_u64_less: "unat (ts :: u64) < 2 ^ 64"
  using unsigned_less [of ts] by simp

lemma complete_name_parsed: "parse_complete_chunk_timestamp (complete_name ts) = Some ts"
  using parse_dec [OF unat_u64_less [of ts]] by (simp add: parse_complete_chunk_timestamp_def chunk_paths_def)

lemma part_name_not_parsed: "parse_complete_chunk_timestamp (part_name ts) = None"
proof -
  have "last (part_name ts) = CHR ''t''" "last (us @ CHUNK_SUFFIX) = CHR ''l''" for us
    by (simp_all add: chunk_paths_def CHUNK_PART_SUFFIX_def CHUNK_SUFFIX_def)
  then have "\<not> suffix CHUNK_SUFFIX (part_name ts)"
    by (force simp: suffix_def)
  then show ?thesis
    by (simp add: parse_complete_chunk_timestamp_def strip_suffix_def)
qed

lemma parsed_extension:
  assumes "parse_complete_chunk_timestamp name = Some ts"
  shows "extension name = Some ''jsonl''"
proof -
  obtain digits where "name = CHUNK_PREFIX @ digits @ CHUNK_SUFFIX"
    using assms by (auto simp: parse_complete_chunk_timestamp_def bind_eq_Some_conv dest!: strip_affixes_SomeD)
  then show ?thesis
    by (simp add: extension_def CHUNK_PREFIX_def CHUNK_SUFFIX_def Let_def)
qed

lemma complete_name_inj: "complete_name a = complete_name b \<longleftrightarrow> a = b"
  by (metis complete_name_parsed option.inject)

lemma part_ne_complete [simp]: "part_name a \<noteq> complete_name b" "complete_name b \<noteq> part_name a"
  by (metis complete_name_parsed part_name_not_parsed option.distinct(1))+

text \<open>What a listing of the directory gives, and the complete chunks, oldest first.\<close>

definition listing :: "Disk \<Rightarrow> (string \<times> nat) list \<Rightarrow> (u64 \<times> nat \<times> string) list" where
  "listing d es =
     List.map_filter (\<lambda>(name, i).
       map_option (\<lambda>ts. (ts, length (dk_inodes d i), name)) (parse_complete_chunk_timestamp name)) es"

definition complete_chunks :: "Disk \<Rightarrow> (u64 \<times> bytes) list" where
  "complete_chunks d =
     sort_key fst (List.map_filter (\<lambda>(name, i).
       map_option (\<lambda>ts. (ts, dk_inodes d i)) (parse_complete_chunk_timestamp name)) (dk_names d))"

lemma chunk_entries_ok: "dk_script d = [] \<Longrightarrow> chunk_entries es d = (IoOk (listing d es), d)"
  by (induction es) (auto simp: listing_def map_filter_simps parsed_extension split: option.splits)

text \<open>
  A directory in which every complete chunk has the name this program gives it, and no two names
  share a file.
\<close>

definition dir_ok :: "Disk \<Rightarrow> bool" where
  "dir_ok d =
     (dk_script d = [] \<and> hm_ok (dk_names d) \<and> distinct (map snd (dk_names d)) \<and>
      (\<forall>(name, i) \<in> set (dk_names d). i < dk_next d \<and>
        (\<forall>ts. parse_complete_chunk_timestamp name = Some ts \<longrightarrow> name = complete_name ts)))"

definition readdir_ok :: "SpoolEnv \<Rightarrow> bool" where
  "readdir_ok e = (\<forall>es. mset (se_readdir e es) = mset es)"

lemma dir_ok_names: "dir_ok d \<Longrightarrow> (name, i) \<in> set (dk_names d) \<longleftrightarrow> map_of (dk_names d) name = Some i"
  by (simp add: dir_ok_def hm_ok_def)

lemma mset_listing: "mset xs = mset ys \<Longrightarrow> mset (listing d xs) = mset (listing d ys)"
  by (simp add: listing_def List.map_filter_def mset_filter)

lemma listing_filter: "listing d xs = listing d (filter (\<lambda>e. parse_complete_chunk_timestamp (fst e) \<noteq> None) xs)"
  by (induction xs) (auto simp: listing_def map_filter_simps split: option.split)

lemma set_listing:
  "(ts, n, name) \<in> set (listing d es) \<longleftrightarrow>
     (\<exists>i. (name, i) \<in> set es \<and> parse_complete_chunk_timestamp name = Some ts \<and> n = length (dk_inodes d i))"
  by (force simp: listing_def map_filter_def)

lemma set_complete_chunks:
  assumes "dir_ok d"
  shows "(ts, bs) \<in> set (complete_chunks d) \<longleftrightarrow>
    (\<exists>i. map_of (dk_names d) (complete_name ts) = Some i \<and> bs = dk_inodes d i)"
proof -
  have canonical: "name = complete_name ts"
    if "(name, i) \<in> set (dk_names d)" "parse_complete_chunk_timestamp name = Some ts" for name i
    using assms that by (fastforce simp: dir_ok_def)
  have "(ts, bs) \<in> set (complete_chunks d) \<longleftrightarrow>
    (\<exists>name i. (name, i) \<in> set (dk_names d) \<and> parse_complete_chunk_timestamp name = Some ts \<and> bs = dk_inodes d i)"
    by (force simp: complete_chunks_def map_filter_def)
  also have "\<dots> \<longleftrightarrow> (\<exists>i. (complete_name ts, i) \<in> set (dk_names d) \<and> bs = dk_inodes d i)"
    using canonical complete_name_parsed by metis
  finally show ?thesis
    using dir_ok_names [OF assms] by simp
qed

lemma complete_chunks_bt_ok:
  assumes "dir_ok d"
  shows "bt_ok (complete_chunks d)"
proof -
  let ?P = "\<lambda>e. parse_complete_chunk_timestamp (fst e) \<noteq> None"
  let ?ts = "\<lambda>e. the (parse_complete_chunk_timestamp (fst e))"
  have ts: "map fst (List.map_filter (\<lambda>(name, i). map_option (\<lambda>ts. (ts, dk_inodes d i)) (parse_complete_chunk_timestamp name)) es) =
      map ?ts (filter ?P es)" for es
    by (induction es) (auto simp: map_filter_simps split: option.split)
  have canonical: "fst e = complete_name (?ts e)" if "e \<in> set (filter ?P (dk_names d))" for e
    using assms that by (fastforce simp: dir_ok_def)
  have "inj_on ?ts (set (filter ?P (dk_names d)))"
  proof (rule inj_onI)
    fix a b
    assume ab: "a \<in> set (filter ?P (dk_names d))" "b \<in> set (filter ?P (dk_names d))" "?ts a = ?ts b"
    then have "fst a = fst b"
      using canonical by metis
    moreover have "map_of (dk_names d) (fst a) = Some (snd a)" "map_of (dk_names d) (fst b) = Some (snd b)"
      using ab dir_ok_names [OF assms, of "fst a" "snd a"] dir_ok_names [OF assms, of "fst b" "snd b"] by simp_all
    ultimately show "a = b"
      by (simp add: prod_eq_iff)
  qed
  moreover have "distinct (filter ?P (dk_names d))"
    using assms by (simp add: dir_ok_def hm_ok_def distinct_map)
  ultimately have "distinct (map fst (List.map_filter
      (\<lambda>(name, i). map_option (\<lambda>ts. (ts, dk_inodes d i)) (parse_complete_chunk_timestamp name)) (dk_names d)))"
    unfolding ts by (simp add: distinct_map)
  then show ?thesis
    unfolding bt_ok_def strict_sorted_iff complete_chunks_def by (simp add: distinct_map)
qed

lemma complete_chunks_eqI:
  assumes "dir_ok d" "bt_ok cs"
    and "\<And>ts bs. (ts, bs) \<in> set cs \<longleftrightarrow> (\<exists>i. map_of (dk_names d) (complete_name ts) = Some i \<and> bs = dk_inodes d i)"
  shows "complete_chunks d = cs"
  by (rule bt_ok_unique [OF complete_chunks_bt_ok [OF assms(1)] assms(2)])
    (use assms(3) set_complete_chunks [OF assms(1)] in auto)

text \<open>The sorted listing is the sorted chunks, by size and name.\<close>

lemma sorted_listing:
  assumes "dir_ok d" "readdir_ok e"
  shows "sort_key fst (listing d (se_readdir e (dk_names d))) =
    map (\<lambda>c. (fst c, length (snd c), complete_name (fst c))) (complete_chunks d)"
proof (rule sort_key_inj_key_eq)
  let ?g = "\<lambda>c. (fst c, length (snd c), complete_name (fst c))"
  let ?f = "\<lambda>(name, i). map_option (\<lambda>ts. (ts, dk_inodes d i)) (parse_complete_chunk_timestamp name)"
  have canonical: "\<forall>(name, i) \<in> set (dk_names d). \<forall>t. parse_complete_chunk_timestamp name = Some t \<longrightarrow> name = complete_name t"
    using assms(1) by (auto simp: dir_ok_def)
  have "listing d es = map ?g (List.map_filter ?f es)" if "set es \<subseteq> set (dk_names d)" for es
    using that
  proof (induction es)
    case (Cons x es)
    then show ?case
      using canonical by (cases x) (auto simp: listing_def map_filter_simps split: option.split)
  qed (simp add: listing_def map_filter_simps)
  then have "mset (listing d (dk_names d)) = mset (map ?g (complete_chunks d))"
    by (simp add: complete_chunks_def)
  then show m: "mset (listing d (se_readdir e (dk_names d))) = mset (map ?g (complete_chunks d))"
    using assms(2) mset_listing by (metis readdir_ok_def)
  have sorted: "bt_ok (complete_chunks d)"
    by (rule complete_chunks_bt_ok [OF assms(1)])
  have "inj_on fst (set (map ?g (complete_chunks d)))"
    using bt_ok_distinct [OF sorted] by (auto simp: inj_on_def dest: eq_key_imp_eq_value)
  then show "inj_on fst (set (listing d (se_readdir e (dk_names d))))"
    by (simp only: mset_eq_setD [OF m])
  show "sorted (map fst (map ?g (complete_chunks d)))"
    using sorted by (simp add: bt_ok_def comp_def strict_sorted_imp_sorted)
qed

section \<open>Eviction\<close>

text \<open>The reference: drop chunks from the front until the rest fits.\<close>

fun evict_oldest :: "('c \<Rightarrow> nat) \<Rightarrow> nat \<Rightarrow> 'c list \<Rightarrow> 'c list" where
  "evict_oldest sz cap [] = []"
| "evict_oldest sz cap (c # cs) =
     (if sum_list (map sz (c # cs)) \<le> cap then c # cs else evict_oldest sz cap cs)"

lemma evict_oldest_bound: "sum_list (map sz (evict_oldest sz cap cs)) \<le> cap"
  by (induction cs) auto

lemma evict_oldest_suffix: "\<exists>gone. cs = gone @ evict_oldest sz cap cs"
  by (induction cs) (auto intro: exI [of _ "_ # _"])

lemma evict_oldest_least:
  assumes "cs = gone @ [c] @ evict_oldest sz cap cs"
  shows "cap < sum_list (map sz (c # evict_oldest sz cap cs))"
  using assms
proof (induction cs arbitrary: gone)
  case (Cons x cs)
  show ?case
  proof (cases gone)
    case Nil
    then show ?thesis
      using Cons.prems by (auto split: if_splits)
  next
    case (Cons y gone')
    then have "\<not> sum_list (map sz (x # cs)) \<le> cap"
      using Cons.prems by (auto split: if_splits)
    then show ?thesis
      using Cons.IH [of gone'] Cons.prems Cons by auto
  qed
qed simp

lemma evict_oldest_map: "evict_oldest sz cap (map g cs) = map g (evict_oldest (\<lambda>c. sz (g c)) cap cs)"
  by (induction cs) (auto simp: comp_def)

lemma length_evict_oldest: "length (evict_oldest sz cap cs) \<le> length cs"
  by (induction cs) auto

lemma file_remove_ok:
  "dk_script d = [] \<Longrightarrow> map_of (dk_names d) name \<noteq> None \<Longrightarrow>
     file_remove name d = (IoOk (), d\<lparr>dk_names := kv_remove name (dk_names d)\<rparr>)"
  by (auto simp: file_remove_def)

lemma evict_loop_ok:
  assumes "dk_script d = []" "distinct (map (\<lambda>c. snd (snd c)) cs)"
    and "\<forall>c \<in> set cs. map_of (dk_names d) (snd (snd c)) \<noteq> None"
    and "gone = length cs - length (evict_oldest (\<lambda>c. fst (snd c)) cap cs)"
  shows "evict_loop (sum_list (map (\<lambda>c. fst (snd c)) cs) - cap) cs n d =
    (True, n + gone,
     d\<lparr>dk_names := filter (\<lambda>e. fst e \<notin> (\<lambda>c. snd (snd c)) ` set (take gone cs)) (dk_names d)\<rparr>)"
  using assms
proof (induction cs arbitrary: n d gone)
  case (Cons c cs)
  let ?sz = "\<lambda>c. fst (snd c)"
  show ?case
  proof (cases "sum_list (map ?sz (c # cs)) \<le> cap")
    case True
    then show ?thesis
      using Cons.prems(4) by simp
  next
    case False
    define gone' where "gone' = length cs - length (evict_oldest ?sz cap cs)"
    have gone: "gone = Suc gone'"
      using Cons.prems(4) False length_evict_oldest [of ?sz cap cs] by (simp add: gone'_def)
    have rm: "file_remove (snd (snd c)) d = (IoOk (), d\<lparr>dk_names := kv_remove (snd (snd c)) (dk_names d)\<rparr>)"
      using Cons.prems by (intro file_remove_ok) simp_all
    let ?d = "d\<lparr>dk_names := kv_remove (snd (snd c)) (dk_names d)\<rparr>"
    have excess: "sum_list (map ?sz (c # cs)) - cap - ?sz c = sum_list (map ?sz cs) - cap"
      by simp
    have "evict_loop (sum_list (map ?sz cs) - cap) cs (Suc n) ?d =
      (True, Suc n + gone',
       ?d\<lparr>dk_names := filter (\<lambda>e. fst e \<notin> (\<lambda>c. snd (snd c)) ` set (take gone' cs)) (dk_names ?d)\<rparr>)"
      using Cons.prems(1-3) by (intro Cons.IH) (auto simp: gone'_def image_iff)
    moreover have "filter (\<lambda>e. fst e \<notin> (\<lambda>c. snd (snd c)) ` set (take gone' cs)) (kv_remove (snd (snd c)) (dk_names d)) =
        filter (\<lambda>e. fst e \<notin> (\<lambda>c. snd (snd c)) ` set (take gone (c # cs))) (dk_names d)"
      unfolding kv_remove_def filter_filter gone by (rule filter_cong) auto
    ultimately show ?thesis
      using False rm excess by (simp add: gone)
  qed
qed simp

lemma map_of_filter_notin:
  "map_of (filter (\<lambda>e. fst e \<notin> G) m) k = (if k \<in> G then None else map_of m k)"
  by (induction m) auto

lemma dir_ok_filter: "dir_ok d \<Longrightarrow> dir_ok (d\<lparr>dk_names := filter P (dk_names d)\<rparr>)"
  by (auto simp: dir_ok_def hm_ok_def distinct_filter_fst distinct_map_filter)

text \<open>Removing the oldest complete chunks leaves the others, and every other file.\<close>

lemma complete_chunks_drop:
  assumes "dir_ok d" "complete_chunks d = gone @ kept"
  shows "complete_chunks (d\<lparr>dk_names := filter (\<lambda>e. fst e \<notin> complete_name ` fst ` set gone) (dk_names d)\<rparr>) = kept"
proof (rule complete_chunks_eqI)
  have bt: "bt_ok (gone @ kept)"
    using complete_chunks_bt_ok [OF assms(1)] assms(2) by simp
  show "bt_ok kept"
    using bt by (simp add: bt_ok_def sorted_wrt_append)
  have "fst ` set gone \<inter> fst ` set kept = {}"
    using bt_ok_distinct [OF bt] by simp
  then have "(ts, bs) \<in> set kept \<longleftrightarrow> (ts, bs) \<in> set (gone @ kept) \<and> ts \<notin> fst ` set gone" for ts bs
    by force
  moreover have "complete_name ts \<in> complete_name ` fst ` set gone \<longleftrightarrow> ts \<in> fst ` set gone" for ts
    by (force simp: complete_name_inj)
  ultimately show "(ts, bs) \<in> set kept \<longleftrightarrow>
      (\<exists>i. map_of (dk_names (d\<lparr>dk_names := filter (\<lambda>e. fst e \<notin> complete_name ` fst ` set gone) (dk_names d)\<rparr>))
          (complete_name ts) = Some i \<and>
        bs = dk_inodes (d\<lparr>dk_names := filter (\<lambda>e. fst e \<notin> complete_name ` fst ` set gone) (dk_names d)\<rparr>) i)" for ts bs
    using set_complete_chunks [OF assms(1), of ts bs] assms(2) by (simp add: map_of_filter_notin) blast
qed (rule dir_ok_filter [OF assms(1)])

definition same_but_chunks :: "Disk \<Rightarrow> Disk \<Rightarrow> bool" where
  "same_but_chunks d d' =
     (dk_inodes d' = dk_inodes d \<and> dk_next d' = dk_next d \<and>
      (\<forall>name. parse_complete_chunk_timestamp name = None \<longrightarrow> map_of (dk_names d') name = map_of (dk_names d) name))"

lemma enforce_cap_ok:
  assumes "dir_ok d" "readdir_ok e"
    and "kept = evict_oldest (\<lambda>c. length (snd c)) cap (complete_chunks d)"
  shows "\<exists>d'. enforce_cap e cap s d =
      (True, s\<lparr>chunks_evicted := chunks_evicted s + of_nat (length (complete_chunks d) - length kept)\<rparr>, d') \<and>
    dir_ok d' \<and> complete_chunks d' = kept \<and> same_but_chunks d d'"
proof -
  let ?g = "\<lambda>c. (fst c, length (snd c), complete_name (fst c))"
  let ?cs = "complete_chunks d"
  have io: "dk_script d = []"
    using assms(1) by (simp add: dir_ok_def)
  have listed: "list_complete_chunks e d = (IoOk (listing d (se_readdir e (dk_names d))), d)"
    using io by (simp add: list_complete_chunks_def chunk_entries_ok)
  have total: "sum_list (map (\<lambda>c. fst (snd c)) (map ?g ?cs)) = sum_list (map (\<lambda>c. length (snd c)) ?cs)"
    by (simp add: comp_def)
  obtain gone where gone: "?cs = gone @ kept"
    using evict_oldest_suffix [of ?cs] assms(3) by metis
  then have len: "length gone = length ?cs - length kept"
    by simp
  let ?d = "d\<lparr>dk_names := filter (\<lambda>e. fst e \<notin> complete_name ` fst ` set gone) (dk_names d)\<rparr>"
  have "evict_loop (sum_list (map (\<lambda>c. fst (snd c)) (map ?g ?cs)) - cap) (map ?g ?cs) 0 d =
      (True, 0 + length gone,
       d\<lparr>dk_names := filter (\<lambda>e. fst e \<notin> (\<lambda>c. snd (snd c)) ` set (take (length gone) (map ?g ?cs))) (dk_names d)\<rparr>)"
  proof (rule evict_loop_ok [OF io])
    have "distinct (map fst ?cs)"
      by (rule bt_ok_distinct [OF complete_chunks_bt_ok [OF assms(1)]])
    then show "distinct (map (\<lambda>c. snd (snd c)) (map ?g ?cs))"
      by (auto simp: distinct_map comp_def inj_on_def complete_name_inj)
    show "\<forall>c \<in> set (map ?g ?cs). map_of (dk_names d) (snd (snd c)) \<noteq> None"
      using set_complete_chunks [OF assms(1)] by fastforce
    show "length gone = length (map ?g ?cs) - length (evict_oldest (\<lambda>c. fst (snd c)) cap (map ?g ?cs))"
      using len by (simp add: evict_oldest_map flip: assms(3))
  qed
  moreover have "(\<lambda>c. snd (snd c)) ` set (take (length gone) (map ?g ?cs)) = complete_name ` fst ` set gone"
    by (simp add: gone image_image)
  ultimately have loop: "evict_loop (sum_list (map (\<lambda>c. length (snd c)) ?cs) - cap) (map ?g ?cs) 0 d = (True, length gone, ?d)"
    by (simp add: comp_def)
  have "same_but_chunks d ?d"
    using complete_name_parsed by (auto simp: same_but_chunks_def map_of_filter_notin)
  moreover have "dir_ok ?d" "complete_chunks ?d = kept"
    using dir_ok_filter [OF assms(1)] complete_chunks_drop [OF assms(1) gone] by simp_all
  moreover have "enforce_cap e cap s d = (True, s\<lparr>chunks_evicted := chunks_evicted s + of_nat (length gone)\<rparr>, ?d)"
  proof (cases "sum_list (map (\<lambda>c. length (snd c)) ?cs) \<le> cap")
    case True
    then have "kept = ?cs"
      by (cases ?cs) (simp_all add: assms(3))
    then have "gone = []"
      using gone by simp
    then show ?thesis
      using True total by (simp add: enforce_cap_def listed sorted_listing [OF assms(1,2)] comp_def)
  next
    case False
    then show ?thesis
      using loop total by (simp add: enforce_cap_def listed sorted_listing [OF assms(1,2)] comp_def Let_def)
  qed
  ultimately show ?thesis
    by (intro exI [of _ ?d]) (simp add: gone)
qed

section \<open>The abstract spool\<close>

text \<open>
  Closed chunks, a map from seconds to contents in the order of the seconds, and the one being
  written.  Closing a chunk puts it under its second, in place of one that is there already.
\<close>

record ASpool =
  as_max :: nat
  as_cap :: "nat option"
  as_done :: "(u64 \<times> bytes) list"
  as_ts :: u64
  as_cur :: bytes

definition as_close :: "ASpool \<Rightarrow> (u64 \<times> bytes) list" where
  "as_close a = bt_insert (as_ts a) (as_cur a) (as_done a)"

definition as_evict :: "nat option \<Rightarrow> (u64 \<times> bytes) list \<Rightarrow> (u64 \<times> bytes) list" where
  "as_evict cap cs = (case cap of None \<Rightarrow> cs | Some n \<Rightarrow> evict_oldest (\<lambda>c. length (snd c)) n cs)"

definition as_write :: "u64 \<Rightarrow> bytes \<Rightarrow> ASpool \<Rightarrow> ASpool" where
  "as_write ts line a =
     (let a1 = a\<lparr>as_cur := as_cur a @ line\<rparr> in
      if length (as_cur a1) < as_max a then a1
      else a1\<lparr>as_done := as_evict (as_cap a) (as_close a1), as_ts := ts, as_cur := []\<rparr>)"

text \<open>The directory and the writer stand for an abstract spool.\<close>

definition spool_rel :: "RotatingSpoolWriter \<Rightarrow> Disk \<Rightarrow> ASpool \<Rightarrow> bool" where
  "spool_rel s d a =
     (dir_ok d \<and> line_ok (current_writer s) \<and> max_chunk_bytes s = as_max a \<and> max_total_bytes s = as_cap a \<and>
      current_part_path s = part_name (as_ts a) \<and> current_complete_path s = complete_name (as_ts a) \<and>
      map_of (dk_names d) (part_name (as_ts a)) = Some (bw_inode (inner (current_writer s))) \<and>
      content_of (current_writer s) d = as_cur a \<and> current_bytes s = length (as_cur a) \<and>
      complete_chunks d = as_done a)"

lemma dir_ok_cong:
  "dir_ok d \<Longrightarrow> dk_names d' = dk_names d \<Longrightarrow> dk_next d' = dk_next d \<Longrightarrow> dk_script d' = dk_script d \<Longrightarrow> dir_ok d'"
  by (simp add: dir_ok_def)

lemma dir_inj:
  assumes "dir_ok d" "map_of (dk_names d) m = Some i" "map_of (dk_names d) n = Some i"
  shows "m = n"
proof -
  have "(m, i) \<in> set (dk_names d)" "(n, i) \<in> set (dk_names d)" "inj_on snd (set (dk_names d))"
    using assms by (auto simp: dir_ok_def distinct_map dest: map_of_SomeD)
  then show ?thesis
    by (metis fst_conv inj_onD snd_conv)
qed

text \<open>Writing to the part file leaves the complete chunks alone.\<close>

lemma complete_chunks_cong:
  assumes "dir_ok d" "dk_names d' = dk_names d" "dk_next d' = dk_next d" "dk_script d' = dk_script d"
    and "map_of (dk_names d) (part_name t) = Some i" "\<And>j. j \<noteq> i \<Longrightarrow> dk_inodes d' j = dk_inodes d j"
  shows "complete_chunks d' = complete_chunks d"
proof (rule complete_chunks_eqI)
  show "dir_ok d'"
    using assms(1-4) by (rule dir_ok_cong)
  show "bt_ok (complete_chunks d)"
    by (rule complete_chunks_bt_ok [OF assms(1)])
  have "j \<noteq> i" if "map_of (dk_names d) (complete_name ts) = Some j" for ts j
    using dir_inj [OF assms(1,5)] that by (metis part_ne_complete(1))
  then have same: "dk_inodes d' j = dk_inodes d j" if "map_of (dk_names d) (complete_name ts) = Some j" for ts j
    using that by (intro assms(6))
  show "(ts, bs) \<in> set (complete_chunks d) \<longleftrightarrow>
      (\<exists>j. map_of (dk_names d') (complete_name ts) = Some j \<and> bs = dk_inodes d' j)" for ts bs
    unfolding set_complete_chunks [OF assms(1)] assms(2) by (intro ex_cong1 conj_cong refl) (auto dest: same)
qed

lemma spool_rel_moved:
  assumes "spool_rel s d a" "moved (current_writer s) d bs w d'"
  shows "spool_rel (s\<lparr>current_writer := w, current_bytes := current_bytes s + length bs\<rparr>) d' (a\<lparr>as_cur := as_cur a @ bs\<rparr>)"
proof -
  note m = moved_facts [OF assms(2)]
  have d: "dir_ok d" "map_of (dk_names d) (part_name (as_ts a)) = Some (bw_inode (inner (current_writer s)))"
    using assms(1) by (simp_all add: spool_rel_def)
  have "complete_chunks d' = complete_chunks d"
    using complete_chunks_cong [OF d(1) m(2-4) d(2) m(7)] .
  moreover have "dir_ok d'"
    using dir_ok_cong [OF d(1) m(2-4)] .
  ultimately show ?thesis
    using assms(1) m(1,2,5,6) by (simp add: spool_rel_def)
qed

lemma spool_rel_moved_Nil:
  assumes "spool_rel s d a" "moved (current_writer s) d [] w d'"
  shows "spool_rel (s\<lparr>current_writer := w\<rparr>) d' a"
  using spool_rel_moved [OF assms] by simp

lemma spool_rel_io: "spool_rel s d a \<Longrightarrow> dk_script d = [] \<and> line_ok (current_writer s)"
  by (simp add: spool_rel_def dir_ok_def)

text \<open>Closing the part file: renamed, it is the newest complete chunk.\<close>

lemma rename_closes:
  assumes "spool_rel s d a" "bw_buf (inner (current_writer s)) = []"
  shows "\<exists>d'. file_rename (current_part_path s) (current_complete_path s) d = (IoOk (), d') \<and> dir_ok d' \<and>
    complete_chunks d' = as_close a"
proof -
  let ?t = "as_ts a" and ?i = "bw_inode (inner (current_writer s))"
  let ?d = "d\<lparr>dk_names := hm_insert (complete_name ?t) ?i (kv_remove (part_name ?t) (dk_names d))\<rparr>"
  have r: "dir_ok d" "current_part_path s = part_name ?t" "current_complete_path s = complete_name ?t"
    "map_of (dk_names d) (part_name ?t) = Some ?i" "dk_inodes d ?i = as_cur a" "complete_chunks d = as_done a"
    using assms by (simp_all add: spool_rel_def content_of_def)
  have ren: "file_rename (current_part_path s) (current_complete_path s) d = (IoOk (), ?d)"
    using r(1,4) by (simp add: file_rename_def dir_ok_def r(2,3))
  have "j \<noteq> ?i" if "(n, j) \<in> set (dk_names d)" "n \<noteq> part_name ?t" for n j
    using dir_inj [OF r(1,4)] that dir_ok_names [OF r(1)] by metis
  then have "?i \<notin> snd ` set (filter (\<lambda>e. fst e \<noteq> complete_name ?t) (kv_remove (part_name ?t) (dk_names d)))"
    by (auto simp: kv_remove_def) blast
  then have ok: "dir_ok ?d"
    using r(1) dir_ok_names [OF r(1), of "part_name ?t" ?i] r(4)
    by (auto simp: dir_ok_def hm_insert_def kv_remove_def hm_ok_def distinct_filter_fst distinct_map_filter complete_name_parsed)
  have "complete_chunks ?d = as_close a"
  proof (rule complete_chunks_eqI [OF ok])
    have bt: "bt_ok (as_done a)"
      using complete_chunks_bt_ok [OF r(1)] r(6) by simp
    then show "bt_ok (as_close a)"
      by (simp add: as_close_def)
    show "(ts, bs) \<in> set (as_close a) \<longleftrightarrow> (\<exists>i. map_of (dk_names ?d) (complete_name ts) = Some i \<and> bs = dk_inodes ?d i)" for ts bs
      using set_complete_chunks [OF r(1), of ts bs] r(5,6)
      by (cases "ts = ?t") (simp_all add: as_close_def set_bt_insert [OF bt] complete_name_inj)
  qed
  with ren ok show ?thesis
    by blast
qed

text \<open>Opening a part file, new or left over: it is empty, and the complete chunks stay.\<close>

lemma create_part_ok:
  assumes "dir_ok d"
  shows "\<exists>i d'. file_create (part_name t) d = (IoOk i, d') \<and> dir_ok d' \<and>
    map_of (dk_names d') (part_name t) = Some i \<and> dk_inodes d' i = [] \<and> complete_chunks d' = complete_chunks d"
proof (cases "map_of (dk_names d) (part_name t)")
  case (Some i)
  let ?d = "d\<lparr>dk_inodes := (dk_inodes d)(i := [])\<rparr>"
  have "complete_chunks ?d = complete_chunks d"
    by (rule complete_chunks_cong [OF assms _ _ _ Some]) simp_all
  moreover have "dir_ok ?d"
    by (rule dir_ok_cong [OF assms]) simp_all
  ultimately show ?thesis
    using assms Some by (simp add: file_create_def dir_ok_def)
next
  case None
  let ?d = "d\<lparr>dk_names := hm_insert (part_name t) (dk_next d) (dk_names d),
               dk_inodes := (dk_inodes d)(dk_next d := []), dk_next := Suc (dk_next d)\<rparr>"
  have less: "j < dk_next d" if "map_of (dk_names d) n = Some j" for n j
    using assms that by (auto simp: dir_ok_def dest: map_of_SomeD)
  have "dk_next d \<notin> snd ` set (dk_names d)"
    using less dir_ok_names [OF assms] by fastforce
  then have ok: "dir_ok ?d"
    using assms None
    by (auto simp: dir_ok_def hm_insert_def hm_ok_def distinct_filter_fst distinct_map_filter part_name_not_parsed
        less_Suc_eq)
  have "complete_chunks ?d = complete_chunks d"
  proof (rule complete_chunks_eqI [OF ok complete_chunks_bt_ok [OF assms]])
    show "(ts, bs) \<in> set (complete_chunks d) \<longleftrightarrow>
      (\<exists>i. map_of (dk_names ?d) (complete_name ts) = Some i \<and> bs = dk_inodes ?d i)" for ts bs
      unfolding set_complete_chunks [OF assms] by (intro ex_cong1 conj_cong) (auto dest: less)
  qed
  then show ?thesis
    using ok assms None by (simp add: file_create_def dir_ok_def)
qed

lemma open_next_ok:
  assumes "dir_ok d" "bw_buf (inner (current_writer s)) = []" "current_bytes s = 0"
  shows "\<exists>s' d'. open_next_chunk e s d = (True, s', d') \<and>
    spool_rel s' d' \<lparr>as_max = max_chunk_bytes s, as_cap = max_total_bytes s, as_done = complete_chunks d,
      as_ts = se_secs e, as_cur = []\<rparr>"
proof -
  obtain i d' where c: "file_create (part_name (se_secs e)) d = (IoOk i, d')" "dir_ok d'"
    "map_of (dk_names d') (part_name (se_secs e)) = Some i" "dk_inodes d' i = []"
    "complete_chunks d' = complete_chunks d"
    using create_part_ok [OF assms(1)] by blast
  then show ?thesis
    using assms(2,3) by (simp add: open_next_chunk_def case_prod_beta bw_drop_flushed spool_rel_def line_writer_new_def
        line_ok_def content_of_def)
qed

lemma rotate_ok:
  assumes "spool_rel s d a" "readdir_ok e"
  shows "\<exists>s' d'. rotate_chunk e s d = (True, s', d') \<and>
    spool_rel s' d' (a\<lparr>as_done := as_evict (as_cap a) (as_close a), as_ts := se_secs e, as_cur := []\<rparr>)"
proof -
  note io = spool_rel_io [OF assms(1)]
  obtain w d1 where f: "force_flush (se_now e) (current_writer s) d = (True, w, d1)"
    "moved (current_writer s) d [] w d1" "bw_buf (inner w) = []"
    using force_flush_ok io by blast
  define s1 where "s1 = s\<lparr>current_writer := w\<rparr>"
  have r1: "spool_rel s1 d1 a"
    unfolding s1_def by (rule spool_rel_moved_Nil [OF assms(1) f(2)])
  obtain d2 where ren: "file_rename (current_part_path s1) (current_complete_path s1) d1 = (IoOk (), d2)"
    and d2: "dir_ok d2" "complete_chunks d2 = as_close a"
    using rename_closes [OF r1] f(3) by (auto simp: s1_def)
  define s2 where "s2 = s1\<lparr>current_bytes := 0\<rparr>"
  have s2: "max_chunk_bytes s2 = as_max a" "max_total_bytes s2 = as_cap a" "bw_buf (inner (current_writer s2)) = []"
    using r1 f(3) by (simp_all add: spool_rel_def s2_def s1_def)
  have "\<exists>s3 d3. (case max_total_bytes s2 of Some n \<Rightarrow> enforce_cap e n s2 d2 | None \<Rightarrow> (True, s2, d2)) = (True, s3, d3) \<and>
      dir_ok d3 \<and> complete_chunks d3 = as_evict (as_cap a) (as_close a) \<and> (\<exists>x. s3 = s2\<lparr>chunks_evicted := x\<rparr>)"
  proof (cases "as_cap a")
    case None
    then show ?thesis
      using d2 s2(2) by (auto simp: as_evict_def intro: exI [of _ "chunks_evicted s2"])
  next
    case (Some n)
    then show ?thesis
      using enforce_cap_ok [OF d2(1) assms(2) refl, of n s2] d2(2) s2(2) by (auto simp: as_evict_def)
  qed
  then obtain d3 x where cap: "(case max_total_bytes s2 of Some n \<Rightarrow> enforce_cap e n s2 d2 | None \<Rightarrow> (True, s2, d2)) =
      (True, s2\<lparr>chunks_evicted := x\<rparr>, d3)" "dir_ok d3" "complete_chunks d3 = as_evict (as_cap a) (as_close a)"
    by blast
  obtain s' d' where nxt: "open_next_chunk e (s2\<lparr>chunks_evicted := x\<rparr>) d3 = (True, s', d')"
    "spool_rel s' d' \<lparr>as_max = as_max a, as_cap = as_cap a, as_done = as_evict (as_cap a) (as_close a),
      as_ts = se_secs e, as_cur = []\<rparr>"
    using open_next_ok [OF cap(2), of "s2\<lparr>chunks_evicted := x\<rparr>" e] s2 cap(3) by (auto simp: s2_def)
  have "\<lparr>as_max = as_max a, as_cap = as_cap a, as_done = cs, as_ts = t, as_cur = []\<rparr> =
      a\<lparr>as_done := cs, as_ts := t, as_cur := []\<rparr>" for cs t
    by simp
  note nxt = nxt [unfolded this]
  have "rotate_chunk e s d = (True, s', d')"
    by (simp only: rotate_chunk_def f(1) prod.case bool.case Let_def s1_def [symmetric] ren io_result.case
        s2_def [symmetric] cap(1) nxt(1))
  then show ?thesis
    using nxt(2) by blast
qed

lemma spool_write_ok:
  assumes "spool_rel s d a" "readdir_ok e"
  shows "\<exists>s' d'. spool_write e line s d = (True, s', d') \<and> spool_rel s' d' (as_write (se_secs e) line a)"
proof -
  obtain w d1 where w: "line_write line (current_writer s) d = (True, w, d1)" "moved (current_writer s) d line w d1"
    using line_write_ok spool_rel_io [OF assms(1)] by blast
  let ?s = "s\<lparr>current_writer := w, current_bytes := current_bytes s + length line\<rparr>"
  let ?a = "a\<lparr>as_cur := as_cur a @ line\<rparr>"
  have r: "spool_rel ?s d1 ?a"
    by (rule spool_rel_moved [OF assms(1) w(2)])
  have n: "current_bytes ?s = length (as_cur ?a)" "max_chunk_bytes ?s = as_max ?a"
    using r by (simp_all add: spool_rel_def)
  show ?thesis
  proof (cases "length (as_cur ?a) < as_max a")
    case True
    then show ?thesis
      using r n w(1) by (simp add: spool_write_def as_write_def)
  next
    case False
    then show ?thesis
      using rotate_ok [OF r assms(2)] n w(1) by (auto simp: spool_write_def as_write_def Let_def)
  qed
qed

lemma spool_flush_ok:
  assumes "spool_rel s d a"
  shows "\<exists>r s' d'. spool_flush_if_needed e s d = (r, s', d') \<and> spool_rel s' d' a"
  using flush_if_needed_ok [of d "current_writer s" "se_now e"] spool_rel_io [OF assms] spool_rel_moved_Nil [OF assms]
  by (fastforce simp: spool_flush_if_needed_def)

lemma spool_finalize_ok:
  assumes "spool_rel s d a"
  shows "\<exists>d'. spool_finalize e s d = (True, d') \<and> complete_chunks d' = as_close a"
proof -
  obtain w d1 where f: "force_flush (se_now e) (current_writer s) d = (True, w, d1)"
    "moved (current_writer s) d [] w d1" "bw_buf (inner w) = []"
    using force_flush_ok spool_rel_io [OF assms] by blast
  have r: "spool_rel (s\<lparr>current_writer := w\<rparr>) d1 a"
    by (rule spool_rel_moved_Nil [OF assms f(2)])
  then have "file_exists (current_part_path s) d1 = (True, d1)"
    by (simp add: file_exists_def spool_rel_def dir_ok_def)
  moreover obtain d2 where "file_rename (current_part_path s) (current_complete_path s) d1 = (IoOk (), d2)"
    "complete_chunks d2 = as_close a"
    using rename_closes [OF r] f(3) by auto
  ultimately show ?thesis
    using f by (simp add: spool_finalize_def bw_drop_flushed)
qed

lemma spool_new_ok:
  assumes "dir_ok d"
  shows "\<exists>s d'. spool_new e max_chunk max_total d = (IoOk s, d') \<and>
    spool_rel s d' \<lparr>as_max = max_chunk, as_cap = max_total, as_done = complete_chunks d, as_ts = se_secs e, as_cur = []\<rparr>"
proof -
  obtain i d' where c: "file_create (part_name (se_secs e)) d = (IoOk i, d')" "dir_ok d'"
    "map_of (dk_names d') (part_name (se_secs e)) = Some i" "dk_inodes d' i = []"
    "complete_chunks d' = complete_chunks d"
    using create_part_ok [OF assms] by blast
  moreover have "dk_script d = []"
    using assms by (simp add: dir_ok_def)
  ultimately show ?thesis
    by (simp add: spool_new_def case_prod_beta spool_rel_def line_writer_new_def line_ok_def content_of_def)
qed

section \<open>Sinks\<close>

text \<open>
  What the writer thread relies on, whatever it writes to: a line is taken as an abstract write
  says, and a flush changes nothing.
\<close>

fun sink_run ::
  "(SpoolEnv \<Rightarrow> bytes \<Rightarrow> 'w \<Rightarrow> Disk \<Rightarrow> bool \<times> 'w \<times> Disk) \<Rightarrow> (SpoolEnv \<Rightarrow> 'w \<Rightarrow> Disk \<Rightarrow> bool io_result \<times> 'w \<times> Disk) \<Rightarrow>
     (SpoolEnv \<times> Poll) list \<Rightarrow> 'w \<times> Disk \<Rightarrow> 'w \<times> Disk" where
  "sink_run wr fl [] x = x"
| "sink_run wr fl ((e, Line line) # polls) (w, d) =
     (case wr e line w d of
        (_, w1, d1) \<Rightarrow> (case fl e w1 d1 of (_, w2, d2) \<Rightarrow> sink_run wr fl polls (w2, d2)))"
| "sink_run wr fl ((e, EmptyPoll) # polls) (w, d) =
     (case fl e w d of (_, w1, d1) \<Rightarrow> sink_run wr fl polls (w1, d1))"
| "sink_run wr fl ((e, Disconnected) # polls) x = x"

fun poll_lines :: "(SpoolEnv \<times> Poll) list \<Rightarrow> (SpoolEnv \<times> bytes) list" where
  "poll_lines [] = []"
| "poll_lines ((e, Line line) # polls) = (e, line) # poll_lines polls"
| "poll_lines ((e, EmptyPoll) # polls) = poll_lines polls"
| "poll_lines ((e, Disconnected) # polls) = []"

locale line_sink =
  fixes wr :: "SpoolEnv \<Rightarrow> bytes \<Rightarrow> 'w \<Rightarrow> Disk \<Rightarrow> bool \<times> 'w \<times> Disk"
    and fl :: "SpoolEnv \<Rightarrow> 'w \<Rightarrow> Disk \<Rightarrow> bool io_result \<times> 'w \<times> Disk"
    and rel :: "'w \<Rightarrow> Disk \<Rightarrow> 'a \<Rightarrow> bool"
    and abs_write :: "SpoolEnv \<Rightarrow> bytes \<Rightarrow> 'a \<Rightarrow> 'a"
  assumes wr_rel: "rel w d a \<Longrightarrow> readdir_ok e \<Longrightarrow> \<exists>w' d'. wr e line w d = (True, w', d') \<and> rel w' d' (abs_write e line a)"
    and fl_rel: "rel w d a \<Longrightarrow> \<exists>r w' d'. fl e w d = (r, w', d') \<and> rel w' d' a"
begin

lemma run_rel:
  assumes "rel w d a" "\<forall>x \<in> set polls. readdir_ok (fst x)"
  shows "\<exists>w' d'. sink_run wr fl polls (w, d) = (w', d') \<and>
    rel w' d' (fold (\<lambda>(e, line). abs_write e line) (poll_lines polls) a)"
  using assms
proof (induction polls arbitrary: w d a)
  case (Cons x polls)
  obtain e p where x: "x = (e, p)" and e: "readdir_ok e"
    using Cons.prems(2) by (cases x) simp
  show ?case
  proof (cases p)
    case (Line line)
    obtain w1 d1 where w1: "wr e line w d = (True, w1, d1)" "rel w1 d1 (abs_write e line a)"
      using wr_rel [OF Cons.prems(1) e] by blast
    obtain r w2 d2 where w2: "fl e w1 d1 = (r, w2, d2)" "rel w2 d2 (abs_write e line a)"
      using fl_rel [OF w1(2)] by blast
    show ?thesis
      using Cons.IH [OF w2(2)] Cons.prems(2) w1(1) w2(1) by (simp add: x Line)
  next
    case EmptyPoll
    obtain r w1 d1 where w1: "fl e w d = (r, w1, d1)" "rel w1 d1 a"
      using fl_rel [OF Cons.prems(1)] by blast
    show ?thesis
      using Cons.IH [OF w1(2)] Cons.prems(2) w1(1) by (simp add: x EmptyPoll)
  qed (simp add: x Cons.prems(1))
qed simp

end

text \<open>A plain file or standard output: the open file and what has been sent to it.\<close>

definition plain_rel :: "BufferedLineWriter \<Rightarrow> Disk \<Rightarrow> nat \<times> bytes \<Rightarrow> bool" where
  "plain_rel w d a = (dk_script d = [] \<and> line_ok w \<and> bw_inode (inner w) = fst a \<and> content_of w d = snd a)"

definition plain_write :: "bytes \<Rightarrow> nat \<times> bytes \<Rightarrow> nat \<times> bytes" where
  "plain_write line a = (fst a, snd a @ line)"

lemma plain_rel_moved: "plain_rel w d a \<Longrightarrow> moved w d bs w' d' \<Longrightarrow> plain_rel w' d' (plain_write bs a)"
  by (simp add: plain_rel_def plain_write_def moved_facts)

interpretation plain: line_sink "\<lambda>e. line_write" "\<lambda>e. flush_if_needed (se_now e)" plain_rel "\<lambda>e. plain_write"
proof
  fix w d a e line
  assume r: "plain_rel w d a"
  then have ok: "dk_script d = []" "line_ok w"
    by (simp_all add: plain_rel_def)
  show "\<exists>w' d'. line_write line w d = (True, w', d') \<and> plain_rel w' d' (plain_write line a)"
    using line_write_ok [OF ok] plain_rel_moved [OF r] by blast
  show "\<exists>r w' d'. flush_if_needed (se_now e) w d = (r, w', d') \<and> plain_rel w' d' a"
    using flush_if_needed_ok [OF ok, of "se_now e"] plain_rel_moved [OF r, of "[]"] by (fastforce simp: plain_write_def)
qed

interpretation spool: line_sink spool_write spool_flush_if_needed spool_rel "\<lambda>e. as_write (se_secs e)"
  using spool_write_ok spool_flush_ok by unfold_locales

text \<open>The writer thread with one output is that output's sink.\<close>

lemma sink_run_backend:
  "sink_run backend_write backend_flush polls (Plain w, d) =
     (case sink_run (\<lambda>e. line_write) (\<lambda>e. flush_if_needed (se_now e)) polls (w, d) of (w', d') \<Rightarrow> (Plain w', d'))"
  "sink_run backend_write backend_flush polls (Spool s, d) =
     (case sink_run spool_write spool_flush_if_needed polls (s, d) of (s', d') \<Rightarrow> (Spool s', d'))"
proof (induction polls arbitrary: w s d)
  case (Cons x polls)
  obtain e p where x: "x = (e, p)"
    by (cases x)
  case 1
  then show ?case
    using Cons(1) by (cases p) (simp_all add: x case_prod_beta)
  case 2
  then show ?case
    using Cons(2) by (cases p) (simp_all add: x case_prod_beta)
qed simp_all

definition open_polls :: "(SpoolEnv \<times> Poll) list \<Rightarrow> bool" where
  "open_polls polls = (\<forall>x \<in> set polls. snd x \<noteq> Disconnected \<and> readdir_ok (fst x))"

lemma writer_thread_file:
  assumes "open_polls polls"
  shows "run_writer_thread (polls @ [(e, Disconnected)]) \<lparr>file_writer = Some b, stdout_writer = None, events_emitted = n\<rparr> d =
    (case sink_run backend_write backend_flush polls (b, d) of
       (b', d') \<Rightarrow> Some (n + of_nat (length (poll_lines polls)), snd (backend_finalize e b' d')))"
  using assms
proof (induction polls arbitrary: b d n)
  case (Cons x polls)
  obtain e' p where x: "x = (e', p)"
    by (cases x)
  show ?case
    using Cons by (cases p)
      (simp_all add: x open_polls_def write_and_flush_def flush_writers_def case_prod_beta ac_simps)
qed (simp add: finish_writers_def)

lemma writer_thread_stdout:
  assumes "open_polls polls"
  shows "run_writer_thread (polls @ [(e, Disconnected)]) \<lparr>file_writer = None, stdout_writer = Some w, events_emitted = n\<rparr> d =
    (case sink_run (\<lambda>e. line_write) (\<lambda>e. flush_if_needed (se_now e)) polls (w, d) of
       (w', d') \<Rightarrow> Some (n + of_nat (length (poll_lines polls)),
         (case force_flush (se_now e) w' d' of (_, w'', d'') \<Rightarrow> bw_drop (inner w'') d'')))"
  using assms
proof (induction polls arbitrary: w d n)
  case (Cons x polls)
  obtain e' p where x: "x = (e', p)"
    by (cases x)
  show ?case
    using Cons by (cases p)
      (simp_all add: x open_polls_def write_and_flush_def flush_writers_def case_prod_beta ac_simps)
qed (simp add: finish_writers_def)

section \<open>Properties\<close>

definition total_bytes :: "(u64 \<times> bytes) list \<Rightarrow> nat" where
  "total_bytes cs = sum_list (map (\<lambda>c. length (snd c)) cs)"

definition spool_of :: "nat \<Rightarrow> nat option \<Rightarrow> SpoolEnv \<Rightarrow> Disk \<Rightarrow> ASpool" where
  "spool_of mx cap e d =
     \<lparr>as_max = mx, as_cap = cap, as_done = complete_chunks d, as_ts = se_secs e, as_cur = []\<rparr>"

definition as_run :: "(SpoolEnv \<times> bytes) list \<Rightarrow> ASpool \<Rightarrow> ASpool" where
  "as_run ls a = fold (\<lambda>(e, line). as_write (se_secs e) line) ls a"

abbreviation spool_thread :: "RotatingSpoolWriter \<Rightarrow> WriterThread" where
  "spool_thread s \<equiv> \<lparr>file_writer = Some (Spool s), stdout_writer = None, events_emitted = 0\<rparr>"

lemma spool_thread_ok:
  assumes "spool_rel s d a" "open_polls polls"
  shows "\<exists>d'. run_writer_thread (polls @ [(e, Disconnected)]) (spool_thread s) d =
      Some (of_nat (length (poll_lines polls)), d') \<and> complete_chunks d' = as_close (as_run (poll_lines polls) a)"
proof -
  have "\<forall>x \<in> set polls. readdir_ok (fst x)"
    using assms(2) by (simp add: open_polls_def)
  then obtain s1 d1 where "sink_run spool_write spool_flush_if_needed polls (s, d) = (s1, d1)"
    "spool_rel s1 d1 (as_run (poll_lines polls) a)"
    using spool.run_rel [OF assms(1)] unfolding as_run_def by blast
  moreover from spool_finalize_ok [OF this(2)] obtain d' where "spool_finalize e s1 d1 = (True, d')"
    "complete_chunks d' = as_close (as_run (poll_lines polls) a)"
    by blast
  ultimately show ?thesis
    by (simp add: writer_thread_file [OF assms(2)] sink_run_backend)
qed

text \<open>C15: the spool refines its abstract specification.  Opened on any directory whose complete chunks
  carry the program's own names, and fed by the writer thread with any lines at any times of the
  clocks, forwards or back, with any idle polls between, it ends, when the senders are gone and
  no I/O call has failed, with exactly the complete chunks that the map from seconds to contents
  predicts: a line goes to the current chunk, a chunk that reaches the limit is put under the
  second it was opened in, and the oldest chunks go when a cap is exceeded.  The count of
  emitted events is the number of lines.\<close>

theorem spool_refines:
  assumes "dir_ok d" "open_polls polls"
  shows "\<exists>s d1 d'. spool_new e0 mx cap d = (IoOk s, d1) \<and>
    run_writer_thread (polls @ [(e, Disconnected)]) (spool_thread s) d1 = Some (of_nat (length (poll_lines polls)), d') \<and>
    complete_chunks d' = as_close (as_run (poll_lines polls) (spool_of mx cap e0 d))"
  using spool_new_ok [OF assms(1), of e0 mx cap] spool_thread_ok [OF _ assms(2)] by (metis spool_of_def)

text \<open>The rotations fall into different seconds, the later ones later.\<close>

primrec rotations_apart :: "nat \<Rightarrow> (SpoolEnv \<times> bytes) list \<Rightarrow> u64 \<Rightarrow> nat \<Rightarrow> bool" where
  "rotations_apart mx [] t n = True"
| "rotations_apart mx (x # xs) t n =
     (if n + length (snd x) < mx then rotations_apart mx xs t (n + length (snd x))
      else t < se_secs (fst x) \<and> rotations_apart mx xs (se_secs (fst x)) 0)"

lemma bt_insert_last: "\<forall>c \<in> set m. fst c < k \<Longrightarrow> bt_insert k v m = m @ [(k, v)]"
  by (induction m) auto

lemma as_run_lines:
  assumes "as_cap a = None" "\<forall>c \<in> set (as_done a). fst c < as_ts a"
    and "rotations_apart (as_max a) ls (as_ts a) (length (as_cur a))"
  shows "concat (map snd (as_close (as_run ls a))) = concat (map snd (as_done a)) @ as_cur a @ concat (map snd ls)"
  using assms
proof (induction ls arbitrary: a)
  case Nil
  then show ?case
    by (simp add: as_run_def as_close_def bt_insert_last)
next
  case (Cons x ls)
  let ?a = "as_write (se_secs (fst x)) (snd x) a"
  have run: "as_run (x # ls) a = as_run ls ?a"
    by (simp add: as_run_def case_prod_beta)
  show ?case
  proof (cases "length (as_cur a @ snd x) < as_max a")
    case True
    then have a: "?a = a\<lparr>as_cur := as_cur a @ snd x\<rparr>"
      by (simp add: as_write_def)
    show ?thesis
      using Cons.IH [of ?a] Cons.prems True unfolding run a by simp
  next
    case False
    then have a: "?a = a\<lparr>as_done := as_done a @ [(as_ts a, as_cur a @ snd x)], as_ts := se_secs (fst x), as_cur := []\<rparr>"
      using Cons.prems(1,2) by (simp add: as_write_def as_evict_def as_close_def bt_insert_last Let_def)
    have "\<forall>c \<in> set (as_done ?a). fst c < as_ts ?a"
      using Cons.prems False unfolding a by auto
    then show ?thesis
      using Cons.IH [of ?a] Cons.prems False unfolding run a by simp
  qed
qed


text \<open>C22: the cap.  Enforcing it removes complete chunks from the oldest on and nothing else, no more
  than needed, until the rest is within the cap, and counts each removal.\<close>

theorem enforce_cap_exact:
  assumes "dir_ok d" "readdir_ok e"
  shows "\<exists>gone d'. enforce_cap e cap s d = (True, s\<lparr>chunks_evicted := chunks_evicted s + of_nat (length gone)\<rparr>, d') \<and>
    complete_chunks d = gone @ complete_chunks d' \<and> total_bytes (complete_chunks d') \<le> cap \<and>
    (gone = [] \<or> cap < total_bytes (last gone # complete_chunks d')) \<and> same_but_chunks d d'"
proof -
  let ?kept = "evict_oldest (\<lambda>c. length (snd c)) cap (complete_chunks d)"
  obtain d' where e: "enforce_cap e cap s d =
      (True, s\<lparr>chunks_evicted := chunks_evicted s + of_nat (length (complete_chunks d) - length ?kept)\<rparr>, d')"
    and d': "complete_chunks d' = ?kept" "same_but_chunks d d'"
    using enforce_cap_ok [OF assms refl] by blast
  obtain gone where gone: "complete_chunks d = gone @ ?kept"
    using evict_oldest_suffix by blast
  have "cap < total_bytes (last gone # ?kept)" if "gone \<noteq> []"
  proof -
    have "complete_chunks d = butlast gone @ [last gone] @ ?kept"
      using gone that by (metis append.assoc append_butlast_last_id)
    then show ?thesis
      unfolding total_bytes_def by (rule evict_oldest_least)
  qed
  moreover have "length gone = length (complete_chunks d) - length ?kept"
    using arg_cong [OF gone, of length] by simp
  ultimately show ?thesis
    using e d' gone evict_oldest_bound [of "\<lambda>c. length (snd c)" cap "complete_chunks d"]
    by (intro exI [of _ gone] exI [of _ d']) (auto simp: total_bytes_def)
qed

lemma bt_insert_twice: "bt_insert k v (bt_insert k u m) = bt_insert k v m"
  by (induction k u m rule: bt_insert.induct) auto

text \<open>C40: two rotations in one second.  When the clock still shows the second the spool was opened in,
  the second chunk that fills up takes the name of the first and replaces it: its lines are on
  no chunk any more.\<close>

theorem same_second_overwrites:
  assumes "dir_ok d" "readdir_ok e" "mx \<le> length l1" "mx \<le> length l2"
  shows "\<exists>s d0 s1 d1 s2 d2. spool_new e mx None d = (IoOk s, d0) \<and> spool_write e l1 s d0 = (True, s1, d1) \<and>
    spool_write e l2 s1 d1 = (True, s2, d2) \<and> complete_chunks d1 = bt_insert (se_secs e) l1 (complete_chunks d) \<and>
    complete_chunks d2 = bt_insert (se_secs e) l2 (complete_chunks d)"
proof -
  obtain s d0 where s: "spool_new e mx None d = (IoOk s, d0)" "spool_rel s d0 (spool_of mx None e d)"
    using spool_new_ok [OF assms(1), of e mx None] by (auto simp: spool_of_def)
  obtain s1 d1 where s1: "spool_write e l1 s d0 = (True, s1, d1)"
    "spool_rel s1 d1 (as_write (se_secs e) l1 (spool_of mx None e d))"
    using spool_write_ok [OF s(2) assms(2)] by blast
  obtain s2 d2 where s2: "spool_write e l2 s1 d1 = (True, s2, d2)"
    "spool_rel s2 d2 (as_write (se_secs e) l2 (as_write (se_secs e) l1 (spool_of mx None e d)))"
    using spool_write_ok [OF s1(2) assms(2)] by blast
  have chunks: "complete_chunks x = as_done a" if "spool_rel y x a" for y x a
    using that by (simp add: spool_rel_def)
  show ?thesis
    using s(1) s1(1) s2(1) chunks [OF s1(2)] chunks [OF s2(2)] assms(3,4)
    by (simp add: as_write_def spool_of_def as_evict_def as_close_def bt_insert_twice)
qed

text \<open>No write, flush or drop touches a name, whether it fails or not.\<close>

lemma io_call_names: "io_call d = (r, d1) \<Longrightarrow> dk_names d1 = dk_names d"
  by (auto simp: io_call_def split: list.splits)

lemma file_write_names: "file_write i bs d = (r, d1) \<Longrightarrow> dk_names d1 = dk_names d"
  by (auto simp: file_write_def split: prod.splits option.splits dest: io_call_names)

lemma bw_flush_names: "bw_flush b d = (ok, b1, d1) \<Longrightarrow> dk_names d1 = dk_names d"
  by (auto simp: bw_flush_def split: if_splits prod.splits dest: file_write_names)

lemma bw_write_all_names: "bw_write_all line b d = (ok, b1, d1) \<Longrightarrow> dk_names d1 = dk_names d"
  by (auto simp: bw_write_all_def split: if_splits prod.splits bool.splits dest!: file_write_names bw_flush_names)

lemma line_names:
  "line_write line w d = (ok, w1, d1) \<Longrightarrow> dk_names d1 = dk_names d"
  "do_flush now w d = (ok, w1, d1) \<Longrightarrow> dk_names d1 = dk_names d"
  "force_flush now w d = (ok, w1, d1) \<Longrightarrow> dk_names d1 = dk_names d"
  "flush_if_needed now w d = (r, w1, d1) \<Longrightarrow> dk_names d1 = dk_names d"
  by (auto simp: line_write_def do_flush_def force_flush_def flush_if_needed_def
      split: prod.splits bool.splits if_splits dest: bw_write_all_names bw_flush_names)

lemma rename_missing:
  assumes "map_of (dk_names d) old = None"
  shows "\<exists>d1. file_rename old new d = (IoErr, d1) \<and> dk_names d1 = dk_names d"
  using assms by (auto simp: file_rename_def split: prod.split option.split dest: io_call_names)

lemma rotate_stuck:
  assumes "map_of (dk_names d) (current_part_path s) = None"
  shows "\<exists>w d'. rotate_chunk e s d = (False, s\<lparr>current_writer := w\<rparr>, d') \<and> dk_names d' = dk_names d"
proof -
  obtain ok w d1 where f: "force_flush (se_now e) (current_writer s) d = (ok, w, d1)"
    using prod_cases3 by blast
  have n: "dk_names d1 = dk_names d"
    using line_names(3) [OF f] .
  obtain d2 where "file_rename (current_part_path s) (current_complete_path s) d1 = (IoErr, d2)" "dk_names d2 = dk_names d"
    using rename_missing [of d1] assms n by metis
  then show ?thesis
    using f n by (cases ok) (auto simp: rotate_chunk_def)
qed

lemma write_stuck:
  assumes "map_of (dk_names d) (current_part_path s) = None" "spool_write e line s d = (ok, s', d')"
  shows "dk_names d' = dk_names d" "current_part_path s' = current_part_path s"
    "max_chunk_bytes s \<le> current_bytes s + length line \<Longrightarrow> \<not> ok"
proof -
  obtain k w d1 where w: "line_write line (current_writer s) d = (k, w, d1)"
    using prod_cases3 by blast
  let ?s = "s\<lparr>current_writer := w, current_bytes := current_bytes s + length line\<rparr>"
  have n: "dk_names d1 = dk_names d"
    using line_names(1) [OF w] .
  obtain w' d2 where "rotate_chunk e ?s d1 = (False, ?s\<lparr>current_writer := w'\<rparr>, d2)" "dk_names d2 = dk_names d"
    using rotate_stuck [of d1 ?s e] assms(1) n by auto
  then show "dk_names d' = dk_names d" "current_part_path s' = current_part_path s"
    "max_chunk_bytes s \<le> current_bytes s + length line \<Longrightarrow> \<not> ok"
    using assms(2) w n by (auto simp: spool_write_def Let_def split: bool.splits if_splits)
qed

lemma flush_stuck:
  assumes "spool_flush_if_needed e s d = (r, s', d')"
  shows "dk_names d' = dk_names d" "current_part_path s' = current_part_path s"
  using assms by (auto simp: spool_flush_if_needed_def split: prod.splits dest: line_names(4))


lemma plain_run:
  assumes "dk_script d = []" "open_polls polls"
  shows "\<exists>w1 d1 w2 d2. sink_run (\<lambda>e. line_write) (\<lambda>e. flush_if_needed (se_now e)) polls (line_writer_new now i, d) = (w1, d1) \<and>
    force_flush (se_now e) w1 d1 = (True, w2, d2) \<and> bw_drop (inner w2) d2 = d2 \<and>
    dk_inodes d2 i = dk_inodes d i @ concat (map snd (poll_lines polls))"
proof -
  have abs: "fold (\<lambda>(e, line). plain_write line) ls (i, bs) = (i, bs @ concat (map snd ls))" for ls :: "(SpoolEnv \<times> bytes) list" and bs
    by (induction ls arbitrary: bs) (auto simp: plain_write_def)
  have start: "plain_rel (line_writer_new now i) d (i, dk_inodes d i)" and rd: "\<forall>x \<in> set polls. readdir_ok (fst x)"
    using assms by (simp_all add: plain_rel_def line_writer_new_def line_ok_def content_of_def open_polls_def)
  obtain w1 d1 where r: "sink_run (\<lambda>e. line_write) (\<lambda>e. flush_if_needed (se_now e)) polls (line_writer_new now i, d) = (w1, d1)"
    "plain_rel w1 d1 (i, dk_inodes d i @ concat (map snd (poll_lines polls)))"
    using plain.run_rel [OF start rd] unfolding abs by blast
  then have "dk_script d1 = []" "line_ok w1"
    by (simp_all add: plain_rel_def)
  then obtain w2 d2 where f: "force_flush (se_now e) w1 d1 = (True, w2, d2)" "moved w1 d1 [] w2 d2" "bw_buf (inner w2) = []"
    using force_flush_ok by blast
  have "plain_rel w2 d2 (i, dk_inodes d i @ concat (map snd (poll_lines polls)))"
    using plain_rel_moved [OF r(2) f(2)] by (simp add: plain_write_def)
  then have "dk_inodes d2 i = dk_inodes d i @ concat (map snd (poll_lines polls))"
    using f(3) by (auto simp: plain_rel_def content_of_def)
  then show ?thesis
    using r(1) f(1,3) by (simp add: bw_drop_flushed)
qed

text \<open>A plain output file, and standard output, end up with exactly the lines sent, in their order,
  and the count of emitted events is the number of lines, when no I/O call fails.\<close>

theorem plain_output_complete:
  assumes "dk_script d = []" "open_polls polls"
    and "t = \<lparr>file_writer = Some (Plain (line_writer_new now i)), stdout_writer = None, events_emitted = 0\<rparr> \<or>
      t = \<lparr>file_writer = None, stdout_writer = Some (line_writer_new now i), events_emitted = 0\<rparr>"
  shows "\<exists>d'. run_writer_thread (polls @ [(e, Disconnected)]) t d = Some (of_nat (length (poll_lines polls)), d') \<and>
    dk_inodes d' i = dk_inodes d i @ concat (map snd (poll_lines polls))"
  using plain_run [OF assms(1,2), of now i e] assms(3)
  by (auto simp: writer_thread_file [OF assms(2)] writer_thread_stdout [OF assms(2)] sink_run_backend)

text \<open>Chunk names.  Every timestamp is read back from the name of the chunk it was given to; the name
  of the chunk that is being written is not taken for a complete one, so it is never counted
  against the cap or evicted.\<close>

theorem chunk_name_roundtrip:
  "parse_complete_chunk_timestamp (snd (chunk_paths ts)) = Some ts \<and>
   parse_complete_chunk_timestamp (fst (chunk_paths ts)) = None"
  by (simp add: complete_name_parsed part_name_not_parsed)

text \<open>Lines are not on disk at once.  Lines of less than 8 KiB together, sent to a fresh writer
  within 250 ms, are all still in memory after the flush that follows the last of them: the file is
  unchanged, and a crash loses them all.\<close>

theorem lines_stay_buffered:
  assumes "length (concat (map snd ls)) < 8192" "\<forall>x \<in> set ls. se_now (fst x) < now + 250"
  shows "\<exists>w. sink_run (\<lambda>e. line_write) (\<lambda>e. flush_if_needed (se_now e)) (map (\<lambda>(e, line). (e, Line line)) ls)
      (line_writer_new now i, d) = (w, d) \<and> bw_buf (inner w) = concat (map snd ls)"
proof -
  have "\<exists>w'. sink_run (\<lambda>e. line_write) (\<lambda>e. flush_if_needed (se_now e)) (map (\<lambda>(e, line). (e, Line line)) ls) (w, d) = (w', d) \<and>
      bw_buf (inner w') = bw_buf (inner w) @ concat (map snd ls)"
    if "length (bw_buf (inner w) @ concat (map snd ls)) < 8192" "pending_bytes w = length (bw_buf (inner w))"
      "\<forall>x \<in> set ls. se_now (fst x) < last_flush w + 250" for w
    using that
  proof (induction ls arbitrary: w)
    case (Cons x ls)
    obtain e line where x: "x = (e, line)"
      by (cases x)
    let ?w = "w\<lparr>inner := (inner w)\<lparr>bw_buf := bw_buf (inner w) @ line\<rparr>, pending_bytes := pending_bytes w + length line\<rparr>"
    have w: "line_write line w d = (True, ?w, d)"
      using Cons.prems(1) by (simp add: line_write_def bw_write_all_def buf_capacity_def x)
    have "\<not> should_flush (se_now e) ?w"
      using Cons.prems by (auto simp: should_flush_def FLUSH_THRESHOLD_def FLUSH_INTERVAL_def x)
    then have f: "flush_if_needed (se_now e) ?w d = (IoOk False, ?w, d)"
      by (simp add: flush_if_needed_def)
    show ?case
      using Cons.IH [of ?w] Cons.prems w f by (simp add: x)
  qed simp
  from this [of "line_writer_new now i"] assms show ?thesis
    by (simp add: line_writer_new_def)
qed

section \<open>Concrete runs\<close>

definition sample_spool_env :: "nat \<Rightarrow> u64 \<Rightarrow> SpoolEnv" where
  "sample_spool_env now secs = \<lparr>se_now = now, se_secs = secs, se_readdir = rev\<rparr>"

definition sample_disk :: "nat option list \<Rightarrow> Disk" where
  "sample_disk script = \<lparr>dk_names = [], dk_inodes = (\<lambda>_. []), dk_next = 0, dk_script = script\<rparr>"

lemma sample_disk_facts:
  "dir_ok (sample_disk [])" "complete_chunks (sample_disk s) = []" "readdir_ok (sample_spool_env n t)"
  by (simp_all add: dir_ok_def sample_disk_def hm_ok_def complete_chunks_def map_filter_simps readdir_ok_def
      sample_spool_env_def)

definition sample_polls :: "(SpoolEnv \<times> Poll) list" where
  "sample_polls =
     [(sample_spool_env 0 100, Line [1, 2, 3]), (sample_spool_env 5 101, Line [4, 5]), (sample_spool_env 9 102, EmptyPoll),
      (sample_spool_env 400 103, Line [6])]"

lemma sample_polls_facts:
  "open_polls sample_polls" "map snd (poll_lines sample_polls) = [[1, 2, 3], [4, 5], [6]]"
  "rotations_apart 4 (poll_lines sample_polls) 100 0"
  by (simp_all add: open_polls_def sample_polls_def sample_disk_facts(3) del: One_nat_def)
    (simp_all add: sample_spool_env_def)

lemma spool_refines_witness:
  "\<exists>s d1 d'. spool_new (sample_spool_env 0 100) 4 (Some 3) (sample_disk []) = (IoOk s, d1) \<and>
    run_writer_thread (sample_polls @ [(sample_spool_env 500 104, Disconnected)]) (spool_thread s) d1 = Some (3, d') \<and>
    complete_chunks d' = [(101, [6])]"
  using spool_refines [OF sample_disk_facts(1) sample_polls_facts(1), of "sample_spool_env 0 100" 4 "Some 3" "sample_spool_env 500 104"]
  by (simp add: spool_of_def sample_disk_facts(2) sample_polls_def as_run_def)
    (simp add: sample_spool_env_def as_write_def as_close_def as_evict_def)


definition sample_chunks :: Disk where
  "sample_chunks = \<lparr>dk_names = [(complete_name 300, 0), (complete_name 100, 1), (complete_name 200, 2)],
     dk_inodes = (\<lambda>_. [7, 7]), dk_next = 3, dk_script = []\<rparr>"

lemma sample_chunks_facts: "dir_ok sample_chunks" "complete_chunks sample_chunks = [(100, [7, 7]), (200, [7, 7]), (300, [7, 7])]"
proof -
  show "dir_ok sample_chunks"
    by (auto simp: dir_ok_def sample_chunks_def hm_ok_def complete_name_inj complete_name_parsed)
  show "complete_chunks sample_chunks = [(100, [7, 7]), (200, [7, 7]), (300, [7, 7])]"
    by (simp add: complete_chunks_def sample_chunks_def map_filter_simps complete_name_parsed)
qed

lemma same_second_overwrites_witness:
  "\<exists>s d0 s1 d1 s2 d2. spool_new (sample_spool_env 0 100) 2 None (sample_disk []) = (IoOk s, d0) \<and>
    spool_write (sample_spool_env 0 100) [1, 2] s d0 = (True, s1, d1) \<and>
    spool_write (sample_spool_env 0 100) [3, 4] s1 d1 = (True, s2, d2) \<and> complete_chunks d1 = [(100, [1, 2])] \<and>
    complete_chunks d2 = [(100, [3, 4])]"
  using same_second_overwrites [OF sample_disk_facts(1,3), of 2 "[1, 2]" "[3, 4]" 0 100]
  by (simp add: sample_disk_facts(2)) (simp add: sample_spool_env_def)

text \<open>The fifth call is the one that opens the second part file.\<close>

definition stuck_spool :: "RotatingSpoolWriter \<times> Disk" where
  "stuck_spool =
     (case spool_new (sample_spool_env 0 100) 2 None (sample_disk [None, None, None, None, Some 0]) of
        (IoOk s, d) \<Rightarrow> (case spool_write (sample_spool_env 0 101) [1, 2] s d of (_, s1, d1) \<Rightarrow> (s1, d1)))"

lemma stuck_spool_facts:
  "map_of (dk_names (snd stuck_spool)) (current_part_path (fst stuck_spool)) = None"
  "map fst (dk_names (snd stuck_spool)) = [complete_name 100]" "dk_script (snd stuck_spool) = []"
  by code_simp+

lemma enforce_cap_exact_witness:
  "\<exists>gone d'. enforce_cap (sample_spool_env 0 0) 3 (fst stuck_spool) sample_chunks =
      (True, (fst stuck_spool)\<lparr>chunks_evicted := chunks_evicted (fst stuck_spool) + of_nat (length gone)\<rparr>, d') \<and>
    gone @ complete_chunks d' = [(100, [7, 7]), (200, [7, 7]), (300, [7, 7])] \<and> total_bytes (complete_chunks d') \<le> 3"
  using enforce_cap_exact [OF sample_chunks_facts(1) sample_disk_facts(3)] unfolding sample_chunks_facts(2) by metis


lemma plain_output_complete_witness:
  "\<exists>d'. run_writer_thread (sample_polls @ [(sample_spool_env 500 104, Disconnected)])
      \<lparr>file_writer = None, stdout_writer = Some (line_writer_new 0 1), events_emitted = 0\<rparr> (sample_disk []) = Some (3, d') \<and>
    dk_inodes d' 1 = [1, 2, 3, 4, 5, 6]"
  using plain_output_complete [OF _ sample_polls_facts(1) disjI2 [OF refl], where d = "sample_disk []"] sample_polls_facts(2)
  by (simp add: sample_disk_def) (simp add: sample_polls_def)

lemma lines_stay_buffered_witness:
  "\<exists>w. sink_run (\<lambda>e. line_write) (\<lambda>e. flush_if_needed (se_now e)) [(sample_spool_env 249 100, Line [1, 2, 3])]
      (line_writer_new 0 1, sample_disk []) = (w, sample_disk []) \<and> bw_buf (inner w) = [1, 2, 3]"
  using lines_stay_buffered [of "[(sample_spool_env 249 100, [1, 2, 3])]" 0 1 "sample_disk []"]
  by (simp add: sample_spool_env_def del: sink_run.simps)

end
