(* ===== verification/Session.thy ===== *)
theory Session
  imports Startup Worker Spool
begin

text \<open>
  \<open>crates/tls-probe-cli/src/commands/capture.rs\<close>, \<open>run\<close> around the worker: setting up, where the
  output goes, waiting for the end, and shutting down; and the log level of \<open>main.rs\<close>.

  A path is the list of its components.  \<open>Disk\<close> is the directory the output goes to: the path itself
  for a spool, the directory the path is in for a file.  The text of an I/O error is not modelled.
\<close>

section \<open>Where the output goes\<close>

type_synonym path = "string list"

record CaptureArgs =
  ca_duration :: "u64 option"
  ca_output :: "path option"
  ca_output_timestamped :: bool
  ca_max_output_bytes :: "nat option"
  ca_max_total_bytes :: "nat option"
  ca_ebpf :: "path option"
  ca_interface :: string
  ca_cgroup_root :: "path option"
  ca_no_self_test :: bool

definition DEFAULT_EBPF_PATH :: path where
  "DEFAULT_EBPF_PATH = [''target'', ''bpfel-unknown-none'', ''release'', ''tls-probe-ebpf'']"

text \<open>\<open>Path::file_name\<close>, \<open>file_stem\<close> of a file name, and \<open>with_file_name\<close>.\<close>

definition file_name :: "path \<Rightarrow> string option" where
  "file_name p = (if p = [] \<or> last p = ''..'' then None else Some (last p))"

definition file_stem :: "string \<Rightarrow> string" where
  "file_stem name =
     (case extension name of None \<Rightarrow> name | Some ext \<Rightarrow> take (length name - Suc (length ext)) name)"

definition with_file_name :: "string \<Rightarrow> path \<Rightarrow> path" where
  "with_file_name new p = (if file_name p = None then p else butlast p) @ [new]"

definition timestamped_path :: "u64 \<Rightarrow> path \<Rightarrow> path" where
  "timestamped_path ts output_path =
     (let stem = (case file_name output_path of None \<Rightarrow> [] | Some name \<Rightarrow> file_stem name);
          ext = Option.bind (file_name output_path) extension;
          new_name =
            (case ext of
               Some e \<Rightarrow> stem @ ''-'' @ dec (unat ts) @ ''.'' @ e
             | None \<Rightarrow> stem @ ''-'' @ dec (unat ts))
      in with_file_name new_name output_path)"

datatype OutputPlan = NoOutput | SpoolOutput path nat "nat option" | PlainOutput path

definition output_plan :: "CaptureArgs \<Rightarrow> u64 \<Rightarrow> OutputPlan" where
  "output_plan args ts =
     (case ca_output args of
        None \<Rightarrow> NoOutput
      | Some output_path \<Rightarrow>
          (case ca_max_output_bytes args of
             Some max_chunk \<Rightarrow> SpoolOutput output_path max_chunk (ca_max_total_bytes args)
           | None \<Rightarrow> PlainOutput (if ca_output_timestamped args then timestamped_path ts output_path else output_path)))"

definition open_output :: "SpoolEnv \<Rightarrow> OutputPlan \<Rightarrow> Disk \<Rightarrow> WriterBackend option io_result \<times> Disk" where
  "open_output e plan d =
     (case plan of
        NoOutput \<Rightarrow> (IoOk None, d)
      | SpoolOutput p max_chunk max_total \<Rightarrow>
          (case spool_new e max_chunk max_total d of
             (IoErr, d1) \<Rightarrow> (IoErr, d1)
           | (IoOk s, d1) \<Rightarrow> (IoOk (Some (Spool s)), d1))
      | PlainOutput p \<Rightarrow>
          (case file_name p of
             None \<Rightarrow> (IoErr, d)
           | Some name \<Rightarrow>
               (case file_create name d of
                  (IoErr, d1) \<Rightarrow> (IoErr, d1)
                | (IoOk i, d1) \<Rightarrow> (IoOk (Some (Plain (line_writer_new (se_now e) i))), d1))))"

text \<open>The state the writer thread starts in; \<open>stdout\<close> is the open file that standard output is.\<close>

definition writer_start :: "SpoolEnv \<Rightarrow> nat \<Rightarrow> bool \<Rightarrow> WriterBackend option \<Rightarrow> WriterThread" where
  "writer_start e stdout emit_to_stdout backend =
     \<lparr>file_writer = backend,
      stdout_writer = (if emit_to_stdout then Some (line_writer_new (se_now e) stdout) else None),
      events_emitted = 0\<rparr>"

section \<open>Setting up\<close>

text \<open>What the host answers; \<open>ho_object\<close> is the error, if any, of reading and loading an object file.\<close>

record Host =
  ho_release :: "string option"
  ho_has_cap :: "Capability \<Rightarrow> bool option"
  ho_set_ok :: bool
  ho_limits :: "RLimit option"
  ho_object :: "path \<Rightarrow> ProbeError option"
  ho_net :: NetEnv
  ho_aya :: Aya
  ho_self_test :: SelfTestEnv
  ho_conn_map :: "(ConnKey \<times> ConnInfo) option list option"
  ho_spool :: SpoolEnv

datatype SetupError = Context string ProbeError | OutputError

definition with_context :: "string \<Rightarrow> (ProbeError, 'a) run \<Rightarrow> (SetupError, 'a) run" where
  "with_context msg r = (case r of Ret x \<Rightarrow> Ret x | Fail e \<Rightarrow> Fail (Context msg e) | Panic \<Rightarrow> Panic)"

definition attach_stage :: "CaptureArgs \<Rightarrow> Host \<Rightarrow> (SetupError, string list \<times> TlsProbeLoader) run" where
  "attach_stage args h =
     rbind (with_context ''Capability check failed'' (check_capabilities (ho_release h) (ho_has_cap h))) (\<lambda>_.
     rbind (with_context ''Failed to configure memory limits'' (fst (ensure_memlock_rlimit (ho_set_ok h) (ho_limits h)))) (\<lambda>_.
     rbind (with_context ''Failed to load eBPF program''
              (case ho_object h (case ca_ebpf args of None \<Rightarrow> DEFAULT_EBPF_PATH | Some p \<Rightarrow> p) of Some e \<Rightarrow> Fail e | None \<Rightarrow> Ret loader_new)) (\<lambda>loader.
     rbind (with_context ''Failed to detect network interfaces'' (detect_interfaces (ho_net h) (ca_interface args))) (\<lambda>interfaces.
     with_context ''Failed to attach TC probes''
       (case loader_attach (ho_aya h) interfaces loader of
          (r, loader1) \<Rightarrow> run_map (\<lambda>attached. (attached, loader1)) r)))))"

record Setup =
  su_attached :: "string list"
  su_loader :: TlsProbeLoader
  su_backend :: "WriterBackend option"
  su_stdout :: bool

text \<open>\<open>None\<close> if the self-test never returned; its verdict is only logged.\<close>

definition capture_setup :: "CaptureArgs \<Rightarrow> Host \<Rightarrow> Disk \<Rightarrow> ((SetupError, Setup) run \<times> Disk) option" where
  "capture_setup args h d =
     (case attach_stage args h of
        Panic \<Rightarrow> Some (Panic, d)
      | Fail e \<Rightarrow> Some (Fail e, d)
      | Ret (attached, loader) \<Rightarrow>
          Option.bind (if ca_no_self_test args then Some False else run_self_test (ho_self_test h) (ho_conn_map h)) (\<lambda>_.
            case open_output (ho_spool h) (output_plan args (se_secs (ho_spool h))) d of
              (IoErr, d1) \<Rightarrow> Some (Fail OutputError, d1)
            | (IoOk backend, d1) \<Rightarrow>
                Some (Ret \<lparr>su_attached = attached, su_loader = loader, su_backend = backend,
                        su_stdout = (ca_output args = None)\<rparr>, d1)))"

section \<open>Waiting for the end\<close>

datatype EndCause = DurationReached | Interrupted

text \<open>
  The loop at its \<open>n\<close>-th round: \<open>elapsed_ms n\<close> milliseconds have passed since the start, and \<open>running n\<close>
  is the flag, which the signal task clears.
\<close>

partial_function (option) supervise ::
  "u64 option \<Rightarrow> (nat \<Rightarrow> nat) \<Rightarrow> (nat \<Rightarrow> bool) \<Rightarrow> nat \<Rightarrow> EndCause option" where
  [code]: "supervise duration elapsed_ms running n =
     (let continuous = (duration = None \<or> duration = Some 0);
          duration_secs = (case duration of None \<Rightarrow> 0 | Some secs \<Rightarrow> unat secs)
      in if \<not> continuous \<and> elapsed_ms n div 1000 \<ge> duration_secs then Some DurationReached
         else if \<not> running n then Some Interrupted
         else supervise duration elapsed_ms running (n + 1))"

section \<open>The log level\<close>

datatype Level = TRACE | DEBUG | INFO | WARN | ERROR

definition log_level_of :: "string \<Rightarrow> Level" where
  "log_level_of log_level =
     (let l = map to_lower log_level in
      if l = ''trace'' then TRACE
      else if l = ''debug'' then DEBUG
      else if l = ''info'' then INFO
      else if l = ''warn'' then WARN
      else if l = ''error'' then ERROR
      else INFO)"

section \<open>File names\<close>

lemma file_stem_ext: "extension name = Some ext \<Longrightarrow> name = file_stem name @ ''.'' @ ext \<and> file_stem name \<noteq> [] \<and> CHR ''.'' \<notin> set ext"
proof -
  assume ext: "extension name = Some ext"
  let ?after = "takeWhile (\<lambda>c. c \<noteq> CHR ''.'') (rev name)" and ?before = "dropWhile (\<lambda>c. c \<noteq> CHR ''.'') (rev name)"
  have e: "ext = rev ?after" "length ext \<noteq> length name" "Suc (length ext) \<noteq> length name"
    using ext by (auto simp: extension_def Let_def split: if_splits)
  have "?before \<noteq> []"
  proof
    assume "?before = []"
    then have "?after = rev name"
      by (simp add: dropWhile_eq_Nil_conv takeWhile_eq_all_conv)
    with e show False
      by simp
  qed
  then obtain before where b: "?before = CHR ''.'' # before"
    using hd_dropWhile [of "\<lambda>c. c \<noteq> CHR ''.''" "rev name"] by (cases ?before) auto
  have "rev name = ?after @ CHR ''.'' # before"
    using takeWhile_dropWhile_id [of "\<lambda>c. c \<noteq> CHR ''.''" "rev name"] b by simp
  then have n: "name = rev before @ ''.'' @ ext"
    using e(1) by (metis append.assoc append_Cons append_Nil rev.simps(2) rev_append rev_swap)
  then have "before \<noteq> []"
    using e(3) by auto
  moreover have "file_stem name = rev before"
    using ext n by (simp add: file_stem_def)
  moreover have "CHR ''.'' \<notin> set ext"
    unfolding e(1) by (auto dest: set_takeWhileD)
  ultimately show ?thesis
    using n by simp
qed

lemma extension_append: "stem \<noteq> [] \<Longrightarrow> CHR ''.'' \<notin> set ext \<Longrightarrow> extension (stem @ ''.'' @ ext) = Some ext"
proof -
  assume "stem \<noteq> []" "CHR ''.'' \<notin> set ext"
  moreover from this have "takeWhile (\<lambda>c. c \<noteq> CHR ''.'') (rev ext @ CHR ''.'' # rev stem) = rev ext"
    by (subst takeWhile_append2) auto
  ultimately show ?thesis
    by (simp add: extension_def)
qed

text \<open>The timestamped name.  The output file stays in its directory and keeps its extension, and its
  name is the given one with a dash and the time before the last dot, or at the end when it has no
  extension; two different times never give the same file.\<close>

theorem timestamped_output:
  assumes "file_name (dir @ [name]) = Some name"
  shows "(\<forall>ext. extension name = Some ext \<longrightarrow>
      name = file_stem name @ ''.'' @ ext \<and>
      timestamped_path ts (dir @ [name]) = dir @ [file_stem name @ ''-'' @ dec (unat ts) @ ''.'' @ ext] \<and>
      extension (file_stem name @ ''-'' @ dec (unat ts) @ ''.'' @ ext) = Some ext) \<and>
    (extension name = None \<longrightarrow> timestamped_path ts (dir @ [name]) = dir @ [name @ ''-'' @ dec (unat ts)]) \<and>
    (timestamped_path ts (dir @ [name]) = timestamped_path ts' (dir @ [name]) \<longrightarrow> ts = ts')"
proof -
  have inj: "dec (unat ts) = dec (unat ts') \<Longrightarrow> ts = ts'"
    by (metis parse_dec option.inject unsigned_less word_unat_eq_iff)
  have path: "timestamped_path t (dir @ [name]) =
      dir @ [case extension name of Some e \<Rightarrow> file_stem name @ ''-'' @ dec (unat t) @ ''.'' @ e
        | None \<Rightarrow> file_stem name @ ''-'' @ dec (unat t)]" for t
    using assms by (simp add: timestamped_path_def with_file_name_def Let_def)
  show ?thesis
  proof (cases "extension name")
    case None
    then show ?thesis
      using inj by (simp add: path file_stem_def)
  next
    case (Some ext)
    note f = file_stem_ext [OF Some]
    have "extension ((file_stem name @ ''-'' @ dec (unat ts)) @ ''.'' @ ext) = Some ext"
      using f by (intro extension_append) simp_all
    then show ?thesis
      using inj f by (auto simp: path Some)
  qed
qed

lemma timestamped_output_witness:
  "timestamped_path 7 [''var'', ''capture.json''] = [''var'', ''capture-7.json'']"
proof -
  have "extension ''capture.json'' = Some ''json''" "file_name ([''var''] @ [''capture.json'']) = Some ''capture.json''"
    "file_stem ''capture.json'' = ''capture''"
    by code_simp+
  moreover have "dec (unat (7 :: u64)) = ''7''"
    by (simp add: dec.simps)
  ultimately show ?thesis
    using timestamped_output [of "[''var'']" "''capture.json''" 7 7] by simp
qed

section \<open>What a set-up capture is\<close>

lemma loader_attach_facts:
  assumes "loader_attach ay ifaces loader_new = (r, lo)"
  shows "r \<noteq> Panic"
    and "r = Ret attached \<Longrightarrow> attached = concat (map link_ids (lo_attached_interfaces lo)) \<and> lo_attached_interfaces lo \<noteq> [] \<and>
      (\<forall>i \<in> set (lo_attached_interfaces lo). (Ingress, i) \<in> set (lo_live lo) \<and> (Egress, i) \<in> set (lo_live lo))"
proof -
  have lc: "load_classifiers ay ps \<noteq> Panic" for ps
    by (induction ps) (simp_all split: option.split)
  note loader = loader_attach_def load_programs_def loader_new_def attach_all_exact Let_def
  show "r \<noteq> Panic"
    using assms lc [of "[Ingress, Egress]"]
    by (auto simp: loader rbind_eq_Panic simp del: load_classifiers.simps split: run.splits if_splits)
  assume r: "r = Ret attached"
  obtain u where u: "load_classifiers ay [Ingress, Egress] = Ret u"
    using assms r by (cases "load_classifiers ay [Ingress, Egress]") (auto simp: loader)
  have live: "attaches ay i \<Longrightarrow> set (live_of ay i) = {(Ingress, i), (Egress, i)}" for i
    by (auto simp: attaches_def live_of_def)
  show "attached = concat (map link_ids (lo_attached_interfaces lo)) \<and> lo_attached_interfaces lo \<noteq> [] \<and>
      (\<forall>i \<in> set (lo_attached_interfaces lo). (Ingress, i) \<in> set (lo_live lo) \<and> (Egress, i) \<in> set (lo_live lo))"
    using assms r u live
    by (force simp: loader attribution_exact link_ids_empty simp del: load_classifiers.simps concat_eq_Nil_conv split: if_splits)
qed

lemma with_context_simps [simp]:
  "with_context msg r = Panic \<longleftrightarrow> r = Panic"
  "with_context msg r = Ret x \<longleftrightarrow> r = Ret x"
  by (cases r; simp add: with_context_def)+

lemma startup_no_panic:
  "check_capabilities release has_cap \<noteq> Panic" "fst (ensure_memlock_rlimit set_ok limits) \<noteq> Panic"
  "detect_interfaces net mode \<noteq> Panic"
  by (auto simp: check_capabilities_def ensure_memlock_rlimit_def Let_def detect_interfaces_def detect_default_interface_def
      detect_routable_interfaces_def split: option.splits)

lemma attach_stage_facts:
  "attach_stage args h \<noteq> Panic"
  "attach_stage args h = Ret (attached, lo) \<Longrightarrow> check_capabilities (ho_release h) (ho_has_cap h) = Ret () \<and>
     (\<exists>ifaces. detect_interfaces (ho_net h) (ca_interface args) = Ret ifaces \<and>
       loader_attach (ho_aya h) ifaces loader_new = (Ret attached, lo))"
proof -
  show "attach_stage args h \<noteq> Panic"
    unfolding attach_stage_def
    using loader_attach_facts(1) startup_no_panic
    by (auto simp: rbind_eq_Panic run_map_eq_Panic split: option.splits prod.splits)
  assume "attach_stage args h = Ret (attached, lo)"
  then show "check_capabilities (ho_release h) (ho_has_cap h) = Ret () \<and>
     (\<exists>ifaces. detect_interfaces (ho_net h) (ca_interface args) = Ret ifaces \<and>
       loader_attach (ho_aya h) ifaces loader_new = (Ret attached, lo))"
    unfolding attach_stage_def
    by (auto simp: rbind_eq_Ret run_map_eq_Ret split: option.splits prod.splits)
qed

lemma self_test_returns: "clock_ok (sf_now e) \<Longrightarrow> sf_start e \<le> sf_now e 0 \<Longrightarrow> run_self_test e m \<noteq> None"
proof -
  assume c: "clock_ok (sf_now e)" "sf_start e \<le> sf_now e 0"
  have "sf_start e + 2000 \<le> sf_now e (0 + 2000)"
    using clock_after [OF c(1), of 2000] c(2) by simp
  from wait_loop_ends [OF c(1) this] obtain b where "wait_for_accept (sf_accept e) (sf_now e) (sf_start e) 2000 = Some b"
    by (auto simp: wait_for_accept_def)
  then show ?thesis
    by (simp add: run_self_test_def Let_def ex_bool_eq split: option.split)
qed

text \<open>C29: setting up.  It always returns, with an error or with a capture in which the capabilities have been
  checked, at least one interface is attached, with both programs live in the kernel on every
  interface that is reported, and the events go to exactly one place: to the file or spool when
  \<open>--output\<close> is given, else to standard output.\<close>

theorem setup_outcome:
  assumes "clock_ok (sf_now (ho_self_test h))" "sf_start (ho_self_test h) \<le> sf_now (ho_self_test h) 0"
  shows "\<exists>r d'. capture_setup args h d = Some (r, d') \<and> r \<noteq> Panic \<and>
    (\<forall>su. r = Ret su \<longrightarrow>
      check_capabilities (ho_release h) (ho_has_cap h) = Ret () \<and>
      lo_attached_interfaces (su_loader su) \<noteq> [] \<and>
      su_attached su = concat (map link_ids (lo_attached_interfaces (su_loader su))) \<and>
      (\<forall>i \<in> set (lo_attached_interfaces (su_loader su)).
        (Ingress, i) \<in> set (lo_live (su_loader su)) \<and> (Egress, i) \<in> set (lo_live (su_loader su))) \<and>
      (su_backend su = None \<longleftrightarrow> ca_output args = None) \<and> (su_stdout su \<longleftrightarrow> ca_output args = None))"
proof (cases "attach_stage args h")
  case (Ret x)
  obtain attached lo where x: "x = (attached, lo)"
    by (cases x)
  obtain v where v: "(if ca_no_self_test args then Some False else run_self_test (ho_self_test h) (ho_conn_map h)) = Some v"
  proof -
    have "(if ca_no_self_test args then Some False else run_self_test (ho_self_test h) (ho_conn_map h)) \<noteq> None"
      using self_test_returns [OF assms] by (simp add: ex_bool_eq)
    then show ?thesis
      using that by blast
  qed
  obtain backend d1 where o: "open_output (ho_spool h) (output_plan args (se_secs (ho_spool h))) d = (backend, d1)"
    by (rule prod.exhaust)
  have kind: "b = None \<longleftrightarrow> ca_output args = None" if "backend = IoOk b" for b
    using o that by (auto simp: open_output_def output_plan_def split: OutputPlan.splits option.splits prod.splits io_result.splits)
  have facts: "check_capabilities (ho_release h) (ho_has_cap h) = Ret ()" "attached = concat (map link_ids (lo_attached_interfaces lo))"
    "lo_attached_interfaces lo \<noteq> []"
    "\<forall>i \<in> set (lo_attached_interfaces lo). (Ingress, i) \<in> set (lo_live lo) \<and> (Egress, i) \<in> set (lo_live lo)"
    using attach_stage_facts(2) [OF Ret [unfolded x]] loader_attach_facts(2) [OF _ refl] by blast+
  show ?thesis
  proof (cases backend)
    case (IoOk b)
    then show ?thesis
      using facts kind [OF IoOk] by (simp add: capture_setup_def Ret x v o)
  qed (simp add: capture_setup_def Ret x v o)
next
  case (Fail e)
  then show ?thesis
    by (auto simp: capture_setup_def)
qed (simp add: attach_stage_facts)

section \<open>How a capture ends\<close>

lemma supervise_stops:
  assumes "n \<le> k" "\<not> running k \<or> (duration = Some secs \<and> secs \<noteq> 0 \<and> elapsed_ms k div 1000 \<ge> unat secs)"
  shows "supervise duration elapsed_ms running n \<noteq> None"
  using assms(1)
proof (induction "k - n" arbitrary: n)
  case 0
  then show ?case
    using assms(2) by (subst supervise.simps) (auto simp: Let_def)
next
  case (Suc d)
  then have "supervise duration elapsed_ms running (n + 1) \<noteq> None"
    by (intro Suc.hyps(1)) simp_all
  then show ?case
    by (subst supervise.simps) (auto simp: Let_def)
qed

definition stop_cause :: "u64 option \<Rightarrow> (nat \<Rightarrow> nat) \<Rightarrow> (nat \<Rightarrow> bool) \<Rightarrow> nat \<Rightarrow> EndCause \<Rightarrow> bool" where
  "stop_cause duration elapsed_ms running k c =
     (case c of
        Interrupted \<Rightarrow> \<not> running k
      | DurationReached \<Rightarrow> \<exists>secs. duration = Some secs \<and> secs \<noteq> 0 \<and> elapsed_ms k div 1000 \<ge> unat secs)"

lemma supervise_result:
  assumes "supervise duration elapsed_ms running n = Some c"
  shows "\<exists>k \<ge> n. (\<forall>i. n \<le> i \<and> i < k \<longrightarrow> running i) \<and> stop_cause duration elapsed_ms running k c"
proof (rule supervise.raw_induct [where P = "\<lambda>duration elapsed_ms running n c.
    \<exists>k \<ge> n. (\<forall>i. n \<le> i \<and> i < k \<longrightarrow> running i) \<and> stop_cause duration elapsed_ms running k c", OF _ assms])
  fix f and duration :: "u64 option" and elapsed_ms running n c
  assume IH: "\<And>duration elapsed_ms running n c. f duration elapsed_ms running n = Some c \<Longrightarrow>
      \<exists>k \<ge> n. (\<forall>i. n \<le> i \<and> i < k \<longrightarrow> running i) \<and> stop_cause duration elapsed_ms running k c"
    and eq: "(let continuous = (duration = None \<or> duration = Some 0);
          duration_secs = (case duration of None \<Rightarrow> 0 | Some secs \<Rightarrow> unat secs)
      in if \<not> continuous \<and> elapsed_ms n div 1000 \<ge> duration_secs then Some DurationReached
         else if \<not> running n then Some Interrupted
         else f duration elapsed_ms running (n + 1)) = Some c"
  have "stop_cause duration elapsed_ms running n c \<or> (running n \<and> f duration elapsed_ms running (n + 1) = Some c)"
    using eq by (auto simp: Let_def stop_cause_def split: if_splits option.splits)
  then show "\<exists>k \<ge> n. (\<forall>i. n \<le> i \<and> i < k \<longrightarrow> running i) \<and> stop_cause duration elapsed_ms running k c"
  proof
    assume "running n \<and> f duration elapsed_ms running (n + 1) = Some c"
    then obtain k where k: "n + 1 \<le> k" "\<forall>i. n + 1 \<le> i \<and> i < k \<longrightarrow> running i" "stop_cause duration elapsed_ms running k c"
      "running n"
      using IH by blast
    then have "running i" if "n \<le> i" "i < k" for i
      using that by (cases "i = n") auto
    with k show ?thesis
      by (intro exI [of _ k]) auto
  qed auto
qed

text \<open>C30: a capture ends exactly when it should.  The loop returns exactly when the signal clears the flag at
  some round, or a duration other than zero was asked for and the clock gets that far; what it
  reports is what happened, with the flag set in every round before.  In particular a capture
  without a duration runs for ever if no signal comes, whatever has become of the tasks that
  capture.\<close>

theorem capture_ends:
  "(supervise duration elapsed_ms running 0 \<noteq> None \<longleftrightarrow>
      (\<exists>k. \<not> running k \<or> (\<exists>secs. duration = Some secs \<and> secs \<noteq> 0 \<and> elapsed_ms k div 1000 \<ge> unat secs))) \<and>
   (supervise duration elapsed_ms running 0 = Some Interrupted \<longrightarrow> (\<exists>k. \<not> running k \<and> (\<forall>i < k. running i))) \<and>
   (supervise duration elapsed_ms running 0 = Some DurationReached \<longrightarrow>
      (\<exists>k secs. duration = Some secs \<and> secs \<noteq> 0 \<and> elapsed_ms k div 1000 \<ge> unat secs \<and> (\<forall>i < k. running i)))"
proof (intro conjI iffI impI)
  assume "supervise duration elapsed_ms running 0 \<noteq> None"
  then obtain c where "supervise duration elapsed_ms running 0 = Some c"
    by blast
  from supervise_result [OF this]
  show "\<exists>k. \<not> running k \<or> (\<exists>secs. duration = Some secs \<and> secs \<noteq> 0 \<and> elapsed_ms k div 1000 \<ge> unat secs)"
    by (cases c) (auto simp: stop_cause_def)
next
  assume "\<exists>k. \<not> running k \<or> (\<exists>secs. duration = Some secs \<and> secs \<noteq> 0 \<and> elapsed_ms k div 1000 \<ge> unat secs)"
  then show "supervise duration elapsed_ms running 0 \<noteq> None"
    using supervise_stops [of 0] by blast
next
  assume "supervise duration elapsed_ms running 0 = Some Interrupted"
  from supervise_result [OF this] show "\<exists>k. \<not> running k \<and> (\<forall>i < k. running i)"
    by (auto simp: stop_cause_def)
next
  assume "supervise duration elapsed_ms running 0 = Some DurationReached"
  from supervise_result [OF this]
  show "\<exists>k secs. duration = Some secs \<and> secs \<noteq> 0 \<and> elapsed_ms k div 1000 \<ge> unat secs \<and> (\<forall>i < k. running i)"
    by (auto simp: stop_cause_def)
qed

lemma capture_ends_witness:
  "supervise (Some 2) (\<lambda>n. 100 * (n + 1)) (\<lambda>_. True) 0 \<noteq> None \<and> supervise None (\<lambda>n. 100 * (n + 1)) (\<lambda>_. True) 0 = None"
proof -
  have "\<exists>k secs. Some (2 :: u64) = Some secs \<and> secs \<noteq> 0 \<and> 100 * (k + 1) div 1000 \<ge> unat secs"
    by (intro exI [of _ 19] exI [of _ 2]) simp
  then show ?thesis
    using capture_ends [of "Some 2" "\<lambda>n. 100 * (n + 1)" "\<lambda>_. True"] capture_ends [of None "\<lambda>n. 100 * (n + 1)" "\<lambda>_. True"]
    by (simp del: div_mult_self1 div_mult_self2)
qed

section \<open>Nothing is lost on the way out\<close>



text \<open>A host on which everything works, and a capture of one interface to standard output.\<close>

definition sample_host :: Host where
  "sample_host =
     \<lparr>ho_release = Some (release_of 5 15 ''.0''), ho_has_cap = \<lambda>_. Some True, ho_set_ok = True,
      ho_limits = Some \<lparr>rlim_cur = 8388608, rlim_max = 33554432\<rparr>, ho_object = \<lambda>_. None, ho_net = tunnel_env,
      ho_aya = \<lparr>ay_load = \<lambda>_. None, ay_attach = \<lambda>_ _. None, ay_attach_probe = \<lambda>_ _. None\<rparr>,
      ho_self_test = loop_env, ho_conn_map = None, ho_spool = sample_spool_env 0 100\<rparr>"

definition sample_args :: CaptureArgs where
  "sample_args =
     \<lparr>ca_duration = None, ca_output = None, ca_output_timestamped = False, ca_max_output_bytes = None,
      ca_max_total_bytes = None, ca_ebpf = None, ca_interface = ''eth0'', ca_cgroup_root = None,
      ca_no_self_test = False\<rparr>"

lemma setup_outcome_witness:
  "\<exists>su d'. capture_setup sample_args sample_host (sample_disk []) = Some (Ret su, d') \<and>
     lo_attached_interfaces (su_loader su) \<noteq> [] \<and> su_stdout su"
proof -
  have "check_capabilities (ho_release sample_host) (ho_has_cap sample_host) = Ret ()"
    by (simp add: check_capabilities_def sample_host_def)
  moreover have "fst (ensure_memlock_rlimit (ho_set_ok sample_host) (ho_limits sample_host)) = Ret ()"
    by (simp add: ensure_memlock_rlimit_def sample_host_def Let_def)
  moreover have "detect_interfaces (ho_net sample_host) (ca_interface sample_args) = Ret [''eth0'']"
    by (simp add: detect_interfaces_def sample_args_def trim_def is_whitespace_def)
  moreover have "\<exists>attached lo. loader_attach (ho_aya sample_host) [''eth0''] loader_new = (Ret attached, lo)"
    by (simp add: loader_attach_def loader_new_def load_programs_def attach_all_exact attaches_def sample_host_def Let_def
        link_ids_def)
  ultimately obtain x where "attach_stage sample_args sample_host = Ret x"
    by (auto simp: attach_stage_def with_context_def sample_host_def)
  then obtain su d' where "capture_setup sample_args sample_host (sample_disk []) = Some (Ret su, d')"
    by (cases x) (simp add: capture_setup_def sample_args_def sample_host_def run_self_test_def output_plan_def open_output_def)
  moreover have "clock_ok (sf_now (ho_self_test sample_host))" "sf_start (ho_self_test sample_host) \<le> sf_now (ho_self_test sample_host) 0"
    by (simp_all add: clock_ok_def sample_host_def loop_env_def)
  ultimately show ?thesis
    using setup_outcome [of sample_host sample_args "sample_disk []"] by (auto simp: sample_args_def)
qed

end
