(* ===== verification/Entry.thy ===== *)
theory Entry
  imports Session
begin

text \<open>
  The entry points: \<open>main.rs\<close> and \<open>logging.rs\<close> of \<open>crates/tls-probe-cli\<close>, and the build task
  \<open>xtask/src/main.rs\<close>.  What runs outside (the tracing library, cargo) is a function on a world
  \<open>'w\<close> that the code threads through; a command line comes parsed, as clap hands it over.
\<close>

section \<open>Logging\<close>

record Subscriber =
  sub_max_level :: Level
  sub_with_target :: bool
  sub_to_stderr :: bool

definition logging_init :: "(Subscriber \<Rightarrow> 'w \<Rightarrow> bool \<times> 'w) \<Rightarrow> Level \<Rightarrow> 'w \<Rightarrow> bool \<times> 'w" where
  "logging_init set_global_default level w =
     set_global_default \<lparr>sub_max_level = level, sub_with_target = False, sub_to_stderr = True\<rparr> w"

section \<open>The command line\<close>

record ListenersArgs =
  la_json :: bool
  la_json_array :: bool
  la_proc_root :: string

datatype Commands = CaptureCmd CaptureArgs | ListenersCmd ListenersArgs

record Cli =
  cli_log_level :: string
  cli_command :: Commands

text \<open>Whether the program ends without an error; the two commands are \<open>Session\<close> and \<open>Listeners\<close>.\<close>

definition main_run ::
  "(Subscriber \<Rightarrow> 'w \<Rightarrow> bool \<times> 'w) \<Rightarrow> (CaptureArgs \<Rightarrow> 'w \<Rightarrow> bool \<times> 'w) \<Rightarrow> (ListenersArgs \<Rightarrow> 'w \<Rightarrow> bool \<times> 'w) \<Rightarrow>
     Cli \<Rightarrow> 'w \<Rightarrow> bool \<times> 'w" where
  "main_run set_global_default capture listeners cli w =
     (case logging_init set_global_default (log_level_of (cli_log_level cli)) w of
        (False, w1) \<Rightarrow> (False, w1)
      | (True, w1) \<Rightarrow>
          (case cli_command cli of
             CaptureCmd args \<Rightarrow> capture args w1
           | ListenersCmd args \<Rightarrow> listeners args w1))"

section \<open>The build task\<close>

record Cmd =
  cmd_program :: string
  cmd_dir :: "string option"
  cmd_args :: "string list"
  cmd_env :: "(string \<times> string) list"

datatype XCommands = BuildEbpf string "string option" | Build bool

definition ebpf_cmd :: "string \<Rightarrow> string \<Rightarrow> Cmd" where
  "ebpf_cmd profile target_arch =
     \<lparr>cmd_program = ''cargo'', cmd_dir = Some ''crates/tls-probe-ebpf'',
      cmd_args = ''build'' # (if profile = ''release'' then [''--release''] else []),
      cmd_env = [(''RUSTC_BOOTSTRAP'', ''1''),
        (''CARGO_TARGET_BPFEL_UNKNOWN_NONE_RUSTFLAGS'',
         ''--cfg bpf_target_arch='' @ [CHR 0x22] @ target_arch @ [CHR 0x22])]\<rparr>"

text \<open>\<open>cmd.status()\<close> has no result when the command cannot be started; then the first message, and
  after a failure the second, is the error.\<close>

definition run_cmd :: "(Cmd \<Rightarrow> 'w \<Rightarrow> bool option \<times> 'w) \<Rightarrow> string \<Rightarrow> string \<Rightarrow> Cmd \<Rightarrow> 'w \<Rightarrow> (string + unit) \<times> 'w" where
  "run_cmd status not_started failed cmd w =
     (case status cmd w of
        (None, w1) \<Rightarrow> (Inl not_started, w1)
      | (Some False, w1) \<Rightarrow> (Inl failed, w1)
      | (Some True, w1) \<Rightarrow> (Inr (), w1))"

definition build_ebpf :: "(Cmd \<Rightarrow> 'w \<Rightarrow> bool option \<times> 'w) \<Rightarrow> string \<Rightarrow> string \<Rightarrow> 'w \<Rightarrow> (string + unit) \<times> 'w" where
  "build_ebpf status profile target_arch w =
     run_cmd status ''Failed to run cargo build for eBPF'' ''eBPF build failed'' (ebpf_cmd profile target_arch) w"

definition all_cmd :: "bool \<Rightarrow> Cmd" where
  "all_cmd release =
     \<lparr>cmd_program = ''cargo'', cmd_dir = None, cmd_args = ''build'' # (if release then [''--release''] else []), cmd_env = []\<rparr>"

definition build_all :: "(Cmd \<Rightarrow> 'w \<Rightarrow> bool option \<times> 'w) \<Rightarrow> string \<Rightarrow> bool \<Rightarrow> 'w \<Rightarrow> (string + unit) \<times> 'w" where
  "build_all status host_arch release w =
     (case build_ebpf status (if release then ''release'' else ''dev'') host_arch w of
        (Inl e, w1) \<Rightarrow> (Inl e, w1)
      | (Inr _, w1) \<Rightarrow> run_cmd status ''Failed to run cargo build'' ''Build failed'' (all_cmd release) w1)"

fun xtask_main :: "(Cmd \<Rightarrow> 'w \<Rightarrow> bool option \<times> 'w) \<Rightarrow> string \<Rightarrow> XCommands \<Rightarrow> 'w \<Rightarrow> (string + unit) \<times> 'w" where
  "xtask_main status host_arch (BuildEbpf profile target_arch) w =
     build_ebpf status profile (case target_arch of None \<Rightarrow> host_arch | Some arch \<Rightarrow> arch) w"
| "xtask_main status host_arch (Build release) w = build_all status host_arch release w"

section \<open>Properties\<close>

text \<open>Nothing runs before diagnostics go to the standard error stream, so standard output is the events' alone.\<close>

lemma main_logs_to_stderr:
  assumes "main_run set_global capture listeners cli w = (ok, w')"
  shows "\<exists>w1. set_global \<lparr>sub_max_level = log_level_of (cli_log_level cli), sub_with_target = False, sub_to_stderr = True\<rparr> w = (False, w1) \<and> \<not> ok \<and> w' = w1 \<or>
    set_global \<lparr>sub_max_level = log_level_of (cli_log_level cli), sub_with_target = False, sub_to_stderr = True\<rparr> w = (True, w1) \<and>
    (case cli_command cli of CaptureCmd args \<Rightarrow> capture args w1 | ListenersCmd args \<Rightarrow> listeners args w1) = (ok, w')"
  using assms by (auto simp: main_run_def logging_init_def split: prod.splits bool.splits)

text \<open>The user-space build starts only when the eBPF build has succeeded, with the same profile and once.\<close>

lemma build_all_order:
  "build_all (\<lambda>c log. (res c, log @ [c])) host_arch release [] = (r, log) \<Longrightarrow>
     (let e = ebpf_cmd (if release then ''release'' else ''dev'') host_arch in
      log = (if res e = Some True then [e, all_cmd release] else [e]) \<and>
      (isl r \<longleftrightarrow> \<not> (res e = Some True \<and> res (all_cmd release) = Some True)) \<and>
      (''--release'' \<in> set (cmd_args e) \<longleftrightarrow> ''--release'' \<in> set (cmd_args (all_cmd release))))"
  by (auto simp: build_all_def build_ebpf_def run_cmd_def ebpf_cmd_def all_cmd_def Let_def split: option.splits bool.splits)

end
