(* ===== verification/Classifier.thy ===== *)
theory Classifier
  imports Attribution
begin

text \<open>
  \<open>crates/tls-probe-ebpf/src/tls.rs\<close>: the traffic classifier that turns a packet into a capture.

  A socket buffer is its length, its linear bytes (direct packet access) and the helper
  \<open>bpf_skb_load_bytes\<close>, a parameter: \<open>sk_load off n\<close> are the \<open>n\<close> bytes at \<open>off\<close>, or nothing if
  the helper fails.  \<open>skb_of\<close> states what the helper documents: it reads the packet's bytes,
  paged or not.  Every early return of the source is a branch that leaves the kernel state as
  it was.
\<close>

record SkBuff =
  sk_len :: nat
  sk_linear :: bytes
  sk_load :: "nat \<Rightarrow> nat \<Rightarrow> bytes option"

record HookEnv =
  he_ktime :: u64
  he_ring_ok :: bool
  he_reasm_insert :: "(ReasmKey, ReasmState) bpf_insert"

definition ETH_P_IP :: u16 where "ETH_P_IP = 0x0800"
definition ETH_P_IPV6 :: u16 where "ETH_P_IPV6 = 0x86DD"
definition IPPROTO_TCP :: u8 where "IPPROTO_TCP = 6"
definition TLS_CONTENT_HANDSHAKE :: u8 where "TLS_CONTENT_HANDSHAKE = 0x16"
definition TLS_CONTENT_ALERT :: u8 where "TLS_CONTENT_ALERT = 0x15"
definition ETH_HDR_LEN :: nat where "ETH_HDR_LEN = 14"
definition IPV6_HDR_LEN :: nat where "IPV6_HDR_LEN = 40"
definition MIN_IP_HDR_LEN :: nat where "MIN_IP_HDR_LEN = 20"
definition MIN_TCP_HDR_LEN :: nat where "MIN_TCP_HDR_LEN = 20"
definition EBPF_TLS_RECORD_HDR_LEN :: nat where "EBPF_TLS_RECORD_HDR_LEN = 5"
definition TC_ACT_PIPE :: int where "TC_ACT_PIPE = 3"

lemmas hdr_consts = ETH_P_IP_def ETH_P_IPV6_def IPPROTO_TCP_def TLS_CONTENT_HANDSHAKE_def
  TLS_CONTENT_ALERT_def ETH_HDR_LEN_def IPV6_HDR_LEN_def MIN_IP_HDR_LEN_def MIN_TCP_HDR_LEN_def
  EBPF_TLS_RECORD_HDR_LEN_def

section \<open>Packet access\<close>

definition load_u8 :: "SkBuff \<Rightarrow> nat \<Rightarrow> u8 option" where
  "load_u8 s off = map_option (\<lambda>b. b ! 0) (sk_load s off 1)"

definition ptr_at :: "SkBuff \<Rightarrow> nat \<Rightarrow> nat \<Rightarrow> bytes option" where
  "ptr_at s off size_of =
     (if off + size_of > length (sk_linear s) then None
      else Some (take size_of (drop off (sk_linear s))))"

definition read_u8 :: "SkBuff \<Rightarrow> nat \<Rightarrow> u8 option" where
  "read_u8 s off = map_option (\<lambda>b. b ! 0) (ptr_at s off 1)"

definition read_u16_be :: "SkBuff \<Rightarrow> nat \<Rightarrow> u16 option" where
  "read_u16_be s off = map_option (\<lambda>b. be16 (b ! 0) (b ! 1)) (ptr_at s off 2)"

section \<open>Headers\<close>

record PacketView =
  pv_ipv6 :: bool
  pv_tcp_start :: nat
  pv_tls_start :: nat
  pv_src_addr :: bytes
  pv_dst_addr :: bytes
  pv_src_port :: u16
  pv_dst_port :: u16

definition ip_header :: "SkBuff \<Rightarrow> (bool \<times> nat \<times> nat \<times> nat) option" where
  "ip_header s =
     (case read_u16_be s 12 of
        None \<Rightarrow> None
      | Some eth_proto \<Rightarrow>
          if eth_proto = ETH_P_IP then
            (case read_u8 s 23 of
               None \<Rightarrow> None
             | Some ip_proto \<Rightarrow>
                 if ip_proto \<noteq> IPPROTO_TCP then None
                 else
                   (case read_u8 s 14 of
                      None \<Rightarrow> None
                    | Some version_ihl \<Rightarrow>
                        (let ip_hdr_len = unat (version_ihl AND 0x0F) * 4 in
                         if ip_hdr_len < MIN_IP_HDR_LEN then None
                         else Some (False, ip_hdr_len, 26, 30))))
          else if eth_proto = ETH_P_IPV6 then
            (case read_u8 s 20 of
               None \<Rightarrow> None
             | Some ip_proto \<Rightarrow>
                 if ip_proto \<noteq> IPPROTO_TCP then None else Some (True, IPV6_HDR_LEN, 22, 38))
          else None)"

definition addresses :: "SkBuff \<Rightarrow> bool \<Rightarrow> nat \<Rightarrow> nat \<Rightarrow> (bytes \<times> bytes) option" where
  "addresses s ipv6 src_offset dst_offset =
     (if ipv6 then
        (case (sk_load s src_offset 16, sk_load s dst_offset 16) of
           (Some a, Some b) \<Rightarrow> Some (a, b) | _ \<Rightarrow> None)
      else
        (case (sk_load s src_offset 4, sk_load s dst_offset 4) of
           (Some a, Some b) \<Rightarrow> Some (a @ replicate 12 0, b @ replicate 12 0) | _ \<Rightarrow> None))"

definition packet_view :: "SkBuff \<Rightarrow> PacketView option" where
  "packet_view s =
     (let pkt_len = sk_len s in
      if pkt_len < ETH_HDR_LEN + MIN_IP_HDR_LEN + MIN_TCP_HDR_LEN + EBPF_TLS_RECORD_HDR_LEN + 1 then None
      else
        (case ip_header s of
           None \<Rightarrow> None
         | Some (ipv6, ip_hdr_len, src_offset, dst_offset) \<Rightarrow>
             (let tcp_start = ETH_HDR_LEN + ip_hdr_len in
              if tcp_start + 13 > pkt_len then None
              else
                (case load_u8 s (tcp_start + 12) of
                   None \<Rightarrow> None
                 | Some tcp_off_byte \<Rightarrow>
                     (let tcp_data_off = unat (drop_bit 4 tcp_off_byte) * 4;
                          tls_start = tcp_start + tcp_data_off
                      in
                      if tcp_data_off < MIN_TCP_HDR_LEN \<or> tcp_data_off > 60 then None
                      else if tls_start + EBPF_TLS_RECORD_HDR_LEN + 1 > pkt_len then None
                      else
                        (case addresses s ipv6 src_offset dst_offset of
                           None \<Rightarrow> None
                         | Some (src, dst) \<Rightarrow>
                             (case sk_load s tcp_start 4 of
                                None \<Rightarrow> None
                              | Some ports \<Rightarrow>
                                  Some \<lparr>pv_ipv6 = ipv6, pv_tcp_start = tcp_start, pv_tls_start = tls_start,
                                        pv_src_addr = src, pv_dst_addr = dst,
                                        pv_src_port = be16 (ports ! 0) (ports ! 1),
                                        pv_dst_port = be16 (ports ! 2) (ports ! 3)\<rparr>))))))) "

section \<open>Keys\<close>

definition check_key :: "bool \<Rightarrow> PacketView \<Rightarrow> ConnKey" where
  "check_key is_egress v =
     (if is_egress
      then \<lparr>ck_src_addr = pv_src_addr v, ck_dst_addr = pv_dst_addr v,
            ck_src_port = pv_src_port v, ck_dst_port = pv_dst_port v\<rparr>
      else \<lparr>ck_src_addr = pv_dst_addr v, ck_dst_addr = pv_src_addr v,
            ck_src_port = pv_dst_port v, ck_dst_port = pv_src_port v\<rparr>)"

definition reasm_key :: "bool \<Rightarrow> PacketView \<Rightarrow> ReasmKey" where
  "reasm_key is_egress v =
     \<lparr>rk_conn = check_key is_egress v, rk_dir = (if is_egress then 0 else 1)\<rparr>"

section \<open>The record filter\<close>

definition record_accepted :: "bool \<Rightarrow> bytes \<Rightarrow> bool" where
  "record_accepted is_continuation rec =
     (let record_version = be16 (rec ! 1) (rec ! 2); hs_type = rec ! 5 in
      \<not> (rec ! 0 \<noteq> TLS_CONTENT_HANDSHAKE \<and> rec ! 0 \<noteq> TLS_CONTENT_ALERT \<and> \<not> is_continuation) \<and>
      \<not> (\<not> is_continuation \<and> \<not> (0x0300 \<le> record_version \<and> record_version \<le> 0x0303)) \<and>
      \<not> (\<not> is_continuation \<and> rec ! 0 = TLS_CONTENT_HANDSHAKE \<and>
          hs_type \<noteq> TLS_HANDSHAKE_CLIENT_HELLO \<and> hs_type \<noteq> TLS_HANDSHAKE_SERVER_HELLO \<and>
          hs_type \<noteq> TLS_HANDSHAKE_CERTIFICATE \<and> hs_type \<noteq> TLS_HANDSHAKE_CERTIFICATE_REQUEST))"

section \<open>The capture\<close>

definition capture_payload :: "SkBuff \<Rightarrow> nat \<Rightarrow> nat \<Rightarrow> RawTlsCapture \<Rightarrow> RawTlsCapture" where
  "capture_payload s tls_start payload_avail ev =
     (let copy_len = min payload_avail RAW_PAYLOAD_SIZE in
      case (if copy_len \<ge> 1 then sk_load s tls_start copy_len else None) of
        None \<Rightarrow> ev\<lparr>payload_len := 0\<rparr>
      | Some b \<Rightarrow> ev\<lparr>payload := b @ drop copy_len (payload ev), payload_len := of_nat copy_len\<rparr>)"

definition fill_event ::
  "HookEnv \<Rightarrow> SkBuff \<Rightarrow> bool \<Rightarrow> bool \<Rightarrow> PacketView \<Rightarrow> bytes \<Rightarrow> Kernel \<Rightarrow> RawTlsCapture \<Rightarrow> RawTlsCapture" where
  "fill_event he s is_egress is_continuation v rec k ev0 =
     (let seq = (if pv_tcp_start v + 8 > sk_len s then None else sk_load s (pv_tcp_start v + 4) 4);
          key = check_key is_egress v;
          ev1 = ev0\<lparr>timestamp_ns := he_ktime he,
            handshake_type := (if is_continuation \<or> rec ! 0 = TLS_CONTENT_ALERT then 0 else rec ! 5),
            record_version := (if is_continuation then 0 else be16 (rec ! 1) (rec ! 2)),
            is_ipv6 := (if pv_ipv6 v then 1 else 0),
            flags := (if is_egress then 0 else FLAG_INGRESS) OR
                     (if rec ! 0 = TLS_CONTENT_ALERT then FLAG_ALERT else 0),
            content_type := rec ! 0,
            src_addr := ck_src_addr key, dst_addr := ck_dst_addr key,
            src_port := ck_src_port key, dst_port := ck_dst_port key,
            tcp_seq := (case seq of
                          None \<Rightarrow> 0
                        | Some b \<Rightarrow> of_nat (unat (be16 (b ! 0) (b ! 1)) * 65536 + unat (be16 (b ! 2) (b ! 3))))\<rparr>;
          ev2 = capture_payload s (pv_tls_start v) (sk_len s - pv_tls_start v) ev1
      in case conn_map k key of
           None \<Rightarrow> ev2\<lparr>pid := 0, comm := replicate 16 0, cgroup_id := 0\<rparr>
         | Some info \<Rightarrow> ev2\<lparr>pid := ci_pid info, comm := ci_comm info, cgroup_id := ci_cgroup_id info\<rparr>)"

text \<open>The flag a packet's record gets, and what becomes of the flow's reassembly state.\<close>

definition saturating_sub32 :: "u32 \<Rightarrow> u32 \<Rightarrow> u32" where
  "saturating_sub32 a b = (if a \<le> b then 0 else a - b)"

definition track_continuation ::
  "HookEnv \<Rightarrow> ReasmKey \<Rightarrow> nat \<Rightarrow> ReasmState \<Rightarrow> (ReasmKey, ReasmState) bpf_map \<Rightarrow> (ReasmKey, ReasmState) bpf_map" where
  "track_continuation he rk payload_avail st m =
     (let new_remaining = saturating_sub32 (rs_remaining st) (of_nat payload_avail) in
      if new_remaining = 0 \<or> rs_segments_left st = 0 then bpf_remove rk m
      else he_reasm_insert he rk
             \<lparr>rs_remaining = new_remaining,
              rs_segments_left = (if rs_segments_left st \<le> 1 then 0 else rs_segments_left st - 1)\<rparr> m)"

definition track_record ::
  "HookEnv \<Rightarrow> bool \<Rightarrow> ReasmKey \<Rightarrow> bytes \<Rightarrow> nat \<Rightarrow> (ReasmKey, ReasmState) bpf_map \<Rightarrow>
     u8 \<times> (ReasmKey, ReasmState) bpf_map" where
  "track_record he is_continuation rk rec payload_avail m =
     (if is_continuation then
        (case m rk of
           None \<Rightarrow> (0, m)
         | Some st \<Rightarrow> (FLAG_CONTINUATION, track_continuation he rk payload_avail st m))
      else
        (let total_record_bytes = unat (be16 (rec ! 3) (rec ! 4)) + EBPF_TLS_RECORD_HDR_LEN in
         if total_record_bytes > payload_avail
         then (FLAG_FRAGMENT,
               he_reasm_insert he rk
                 \<lparr>rs_remaining = of_nat (total_record_bytes - payload_avail),
                  rs_segments_left = MAX_REASM_SEGMENTS - 1\<rparr> m)
         else (0, m)))"

definition emit :: "HookEnv \<Rightarrow> RawTlsCapture \<Rightarrow> Kernel \<Rightarrow> Kernel" where
  "emit he ev k =
     (if he_ring_ok he then k\<lparr>tls_events := tls_events k @ [emitted_bytes ev]\<rparr>
      else k\<lparr>ringbuf_drops := map_option (\<lambda>n. n + 1) (ringbuf_drops k)\<rparr>)"

text \<open>\<open>Err(())\<close>, when the scratch buffer is missing, is \<open>False\<close>.\<close>

definition try_capture_tls :: "HookEnv \<Rightarrow> SkBuff \<Rightarrow> bool \<Rightarrow> Kernel \<Rightarrow> bool \<times> Kernel" where
  "try_capture_tls he s is_egress k =
     (case packet_view s of
        None \<Rightarrow> (True, k)
      | Some v \<Rightarrow>
          (let rk = reasm_key is_egress v; is_continuation = (reasm_map k rk \<noteq> None) in
           case sk_load s (pv_tls_start v) 6 of
             None \<Rightarrow> (True, k)
           | Some rec \<Rightarrow>
               if \<not> record_accepted is_continuation rec then (True, k)
               else
                 (case scratch k of
                    None \<Rightarrow> (False, k)
                  | Some ev0 \<Rightarrow>
                      (let ev1 = fill_event he s is_egress is_continuation v rec k ev0;
                           (fl, m) = track_record he is_continuation rk rec (sk_len s - pv_tls_start v) (reasm_map k);
                           ev = ev1\<lparr>flags := flags ev1 OR fl\<rparr>
                       in (True, emit he ev (k\<lparr>reasm_map := m, scratch := Some ev\<rparr>))))))"

definition tls_ingress :: "HookEnv \<Rightarrow> SkBuff \<Rightarrow> Kernel \<Rightarrow> int \<times> Kernel" where
  "tls_ingress he s k = (case try_capture_tls he s False k of (_, k') \<Rightarrow> (TC_ACT_PIPE, k'))"

definition tls_egress :: "HookEnv \<Rightarrow> SkBuff \<Rightarrow> Kernel \<Rightarrow> int \<times> Kernel" where
  "tls_egress he s k = (case try_capture_tls he s True k of (_, k') \<Rightarrow> (TC_ACT_PIPE, k'))"

section \<open>One packet, one outcome\<close>

lemma capture_payload_len: "unat (payload_len (capture_payload s t n ev)) \<le> RAW_PAYLOAD_SIZE"
proof -
  have "unat (of_nat (min n RAW_PAYLOAD_SIZE) :: u16) \<le> RAW_PAYLOAD_SIZE"
    by (simp add: RAW_PAYLOAD_SIZE_def unat_of_nat16)
  then show ?thesis
    by (simp add: capture_payload_def Let_def split: option.split)
qed

lemma capture_payload_keeps:
  "flags (capture_payload s t n ev) = flags ev" "content_type (capture_payload s t n ev) = content_type ev"
  "record_version (capture_payload s t n ev) = record_version ev"
  "handshake_type (capture_payload s t n ev) = handshake_type ev"
  "conn_key_of (capture_payload s t n ev) = conn_key_of ev"
  by (simp_all add: capture_payload_def Let_def conn_key_of_def split: option.split)

lemma fill_event_facts:
  assumes "ev = fill_event he s is_egress cont v rec k ev0"
  shows "content_type ev = rec ! 0" "\<not> cont \<Longrightarrow> record_version ev = be16 (rec ! 1) (rec ! 2)"
    "\<not> cont \<Longrightarrow> rec ! 0 \<noteq> TLS_CONTENT_ALERT \<Longrightarrow> handshake_type ev = rec ! 5"
    "unat (payload_len ev) \<le> RAW_PAYLOAD_SIZE"
  using assms capture_payload_len
  by (simp_all add: fill_event_def Let_def capture_payload_keeps split: option.splits)

definition wanted :: "RawTlsCapture \<Rightarrow> bool" where
  "wanted ev =
     (content_type ev \<in> {TLS_CONTENT_HANDSHAKE, TLS_CONTENT_ALERT} \<and>
      0x0300 \<le> record_version ev \<and> record_version ev \<le> 0x0303 \<and>
      (content_type ev = TLS_CONTENT_HANDSHAKE \<longrightarrow>
         handshake_type ev \<in> {TLS_HANDSHAKE_CLIENT_HELLO, TLS_HANDSHAKE_SERVER_HELLO,
           TLS_HANDSHAKE_CERTIFICATE, TLS_HANDSHAKE_CERTIFICATE_REQUEST}))"

lemma track_record_flag:
  "cont \<Longrightarrow> m rk \<noteq> None \<Longrightarrow> fst (track_record he cont rk rec n m) = FLAG_CONTINUATION"
  by (auto simp: track_record_def)

lemma has_flag_or_self: "f \<noteq> 0 \<Longrightarrow> has_flag f (ev\<lparr>flags := a OR f\<rparr>)"
  by (simp add: has_flag_def bit.conj_disj_distrib2 or_eq_0_iff)

text \<open>A run of the hook that changes anything has filled the scratch buffer and emitted it.\<close>

lemma hook_run:
  assumes "try_capture_tls he s is_egress k = (ok, k')" "k' \<noteq> k"
  obtains v rec cont ev0 ev1 fl m where "packet_view s = Some v" "sk_load s (pv_tls_start v) 6 = Some rec"
    "cont = (reasm_map k (reasm_key is_egress v) \<noteq> None)" "record_accepted cont rec" "scratch k = Some ev0"
    "ev1 = fill_event he s is_egress cont v rec k ev0"
    "track_record he cont (reasm_key is_egress v) rec (sk_len s - pv_tls_start v) (reasm_map k) = (fl, m)"
    "k' = emit he (ev1\<lparr>flags := flags ev1 OR fl\<rparr>) (k\<lparr>reasm_map := m, scratch := Some (ev1\<lparr>flags := flags ev1 OR fl\<rparr>)\<rparr>)"
proof -
  obtain v rec ev0 where v: "packet_view s = Some v" "sk_load s (pv_tls_start v) 6 = Some rec"
    "record_accepted (reasm_map k (reasm_key is_egress v) \<noteq> None) rec" "scratch k = Some ev0"
    using assms by (auto simp: try_capture_tls_def Let_def split: option.splits if_splits)
  define cont where "cont = (reasm_map k (reasm_key is_egress v) \<noteq> None)"
  define ev1 where "ev1 = fill_event he s is_egress cont v rec k ev0"
  obtain fl m where tr: "track_record he cont (reasm_key is_egress v) rec (sk_len s - pv_tls_start v) (reasm_map k) = (fl, m)"
    by fastforce
  define ev where "ev = ev1\<lparr>flags := flags ev1 OR fl\<rparr>"
  have acc: "record_accepted cont rec"
    using v(3) by (simp only: cont_def)
  have "try_capture_tls he s is_egress k = (True, emit he ev (k\<lparr>reasm_map := m, scratch := Some ev\<rparr>))"
    by (simp only: try_capture_tls_def v(1,2,4) option.case Let_def cont_def [symmetric] acc
        not_True_eq_False if_False ev1_def [symmetric] tr prod.case ev_def [symmetric])
  with assms(1) have "k' = emit he ev (k\<lparr>reasm_map := m, scratch := Some ev\<rparr>)"
    by simp
  then show thesis
    using that [OF v(1,2) cont_def acc v(4) ev1_def tr] by (simp only: ev_def)
qed

lemma hook_event_kind:
  assumes "cont = (m rk \<noteq> None)" "record_accepted cont rec" "ev1 = fill_event he s e cont v rec k ev0"
    and "track_record he cont rk rec n m = (fl, m')"
  shows "has_flag FLAG_CONTINUATION (ev1\<lparr>flags := flags ev1 OR fl\<rparr>) \<or> wanted (ev1\<lparr>flags := flags ev1 OR fl\<rparr>)"
proof (cases cont)
  case True
  then have "fl = FLAG_CONTINUATION"
    using track_record_flag [OF True, of m rk he rec n] assms(1,4) by simp
  moreover have "FLAG_CONTINUATION \<noteq> 0"
    by (simp add: flag_defs)
  ultimately show ?thesis
    by (simp add: has_flag_or_self)
next
  case False
  then show ?thesis
    using assms(2) fill_event_facts(1-3) [OF assms(3)]
    by (auto simp: record_accepted_def wanted_def Let_def hdr_consts)
qed

text \<open>C21: a packet either leaves the kernel state untouched or produces exactly one capture, which is
  put on the ring buffer or counted as dropped, never both and never neither.  A capture carries
  at most 4096 payload bytes, and unless it continues a record already being tracked it is a
  handshake or alert record of version SSL 3.0 to TLS 1.2 and, if a handshake, one of the four
  wanted messages.\<close>

theorem classifier_outcome:
  assumes "try_capture_tls he s is_egress k = (ok, k')"
  shows "k' = k \<or>
    (\<exists>ev. scratch k' = Some ev \<and> unat (payload_len ev) \<le> RAW_PAYLOAD_SIZE \<and>
       conn_map k' = conn_map k \<and> connect_stash k' = connect_stash k \<and>
       (if he_ring_ok he
        then tls_events k' = tls_events k @ [emitted_bytes ev] \<and> ringbuf_drops k' = ringbuf_drops k
        else tls_events k' = tls_events k \<and> ringbuf_drops k' = map_option (\<lambda>n. n + 1) (ringbuf_drops k)) \<and>
       (has_flag FLAG_CONTINUATION ev \<or> wanted ev))"
proof (cases "k' = k")
  case False
  obtain v rec cont ev0 ev1 fl m where "packet_view s = Some v" "sk_load s (pv_tls_start v) 6 = Some rec"
    and cont: "cont = (reasm_map k (reasm_key is_egress v) \<noteq> None)" and acc: "record_accepted cont rec" and "scratch k = Some ev0"
    and ev1: "ev1 = fill_event he s is_egress cont v rec k ev0"
    and tr: "track_record he cont (reasm_key is_egress v) rec (sk_len s - pv_tls_start v) (reasm_map k) = (fl, m)"
    and run: "k' = emit he (ev1\<lparr>flags := flags ev1 OR fl\<rparr>) (k\<lparr>reasm_map := m, scratch := Some (ev1\<lparr>flags := flags ev1 OR fl\<rparr>)\<rparr>)"
    by (rule hook_run [OF assms False])
  define ev where "ev = ev1\<lparr>flags := flags ev1 OR fl\<rparr>"
  have k': "k' = emit he ev (k\<lparr>reasm_map := m, scratch := Some ev\<rparr>)"
    using run by (simp only: ev_def)
  note facts = fill_event_facts [OF ev1]
  have "has_flag FLAG_CONTINUATION ev \<or> wanted ev"
    using hook_event_kind [OF cont acc ev1 tr] by (simp only: ev_def)
  moreover have "unat (payload_len ev) \<le> RAW_PAYLOAD_SIZE"
    using facts(4) by (simp add: ev_def)
  ultimately show ?thesis
    by (auto simp: k' emit_def)
qed simp

section \<open>How long a record is tracked\<close>

text \<open>Packets of one flow and direction, with their payload sizes, while its record is tracked.\<close>

primrec track_run ::
  "HookEnv \<Rightarrow> ReasmKey \<Rightarrow> nat list \<Rightarrow> (ReasmKey, ReasmState) bpf_map \<Rightarrow> (ReasmKey, ReasmState) bpf_map" where
  "track_run he rk [] m = m"
| "track_run he rk (n # ns) m =
     (case m rk of
        None \<Rightarrow> m
      | Some st \<Rightarrow> track_run he rk ns (track_continuation he rk n st m))"

definition insert_stores :: "('k, 'v) bpf_insert \<Rightarrow> bool" where
  "insert_stores ins = (\<forall>k v m. ins k v m k = Some v)"

text \<open>C17: tracking ends: an entry that allows \<open>s\<close> more segments is gone after at most \<open>s + 1\<close>
  continuation packets, whatever their sizes and however large the record claims to be; so a
  record, whose entry starts with 3, holds its flow for at most four continuations.\<close>

theorem tracking_bounded:
  assumes "insert_stores (he_reasm_insert he)" "m rk = Some st"
    and "unat (rs_segments_left st) < length ns"
  shows "track_run he rk ns m rk = None"
  using assms(2,3)
proof (induction ns arbitrary: m st)
  case Nil
  then show ?case by simp
next
  case (Cons n ns)
  let ?m = "track_continuation he rk n st m"
  show ?case
  proof (cases "?m rk")
    case None
    then show ?thesis
      using Cons.prems(1) by (cases ns) simp_all
  next
    case (Some st')
    then have ne: "rs_segments_left st \<noteq> 0"
      and st': "rs_segments_left st' = (if rs_segments_left st \<le> 1 then 0 else rs_segments_left st - 1)"
      using assms(1) by (auto simp: track_continuation_def Let_def bpf_remove_def insert_stores_def split: if_splits)
    have "unat (rs_segments_left st') < unat (rs_segments_left st)"
    proof (cases "rs_segments_left st \<le> 1")
      case True
      then show ?thesis
        using ne by (simp add: st' unat_gt_0)
    next
      case False
      then have "1 \<le> rs_segments_left st"
        by simp
      then have "unat (rs_segments_left st - 1) = unat (rs_segments_left st) - 1"
        by (simp add: unat_sub)
      then show ?thesis
        using False ne by (simp add: st' unat_gt_0)
    qed
    then have "track_run he rk ns ?m rk = None"
      using Cons.prems(2) Cons.IH [of ?m st'] Some by simp
    then show ?thesis
      using Cons.prems(1) by simp
  qed
qed

definition sample_hook :: HookEnv where
  "sample_hook = \<lparr>he_ktime = 5, he_ring_ok = True, he_reasm_insert = (\<lambda>k v m. m(k \<mapsto> v))\<rparr>"

definition sample_rk :: ReasmKey where
  "sample_rk = \<lparr>rk_conn = v4_key [10, 0, 0, 1] [10, 0, 0, 2] 40000 443, rk_dir = 0\<rparr>"

lemma tracking_bounded_witness:
  "track_run sample_hook sample_rk [10, 10, 10, 10]
     [sample_rk \<mapsto> \<lparr>rs_remaining = 9000, rs_segments_left = MAX_REASM_SEGMENTS - 1\<rparr>] sample_rk = None"
  by (rule tracking_bounded [where st = "\<lparr>rs_remaining = 9000, rs_segments_left = MAX_REASM_SEGMENTS - 1\<rparr>"])
    (simp_all add: insert_stores_def sample_hook_def MAX_REASM_SEGMENTS_def)

text \<open>After three continuations the entry is still there, so a fourth is captured: five segments in all.\<close>

lemma fourth_continuation_tracked:
  "track_run sample_hook sample_rk [10, 10, 10]
     [sample_rk \<mapsto> \<lparr>rs_remaining = 9000, rs_segments_left = MAX_REASM_SEGMENTS - 1\<rparr>] sample_rk \<noteq> None"
  by (simp add: sample_hook_def track_continuation_def saturating_sub32_def MAX_REASM_SEGMENTS_def bpf_remove_def
      word_le_nat_alt)

section \<open>Frames\<close>

definition skb_of :: "bytes \<Rightarrow> nat \<Rightarrow> SkBuff" where
  "skb_of pkt lin =
     \<lparr>sk_len = length pkt, sk_linear = take lin pkt,
      sk_load = (\<lambda>off n. if 0 < n \<and> off + n \<le> length pkt then Some (take n (drop off pkt)) else None)\<rparr>"

definition be32_bytes :: "u32 \<Rightarrow> bytes" where
  "be32_bytes w = be16_bytes (ucast (drop_bit 16 w)) @ be16_bytes (ucast w)"

text \<open>
  An Ethernet frame with an IPv4 packet and a TCP segment without options.  \<open>mac\<close>, \<open>ipa\<close>,
  \<open>ipb\<close>, \<open>ack\<close> and \<open>tcpb\<close> are the header bytes the classifier does not look at.
\<close>

record Frame4 =
  f_mac :: bytes
  f_ipa :: bytes
  f_ipb :: bytes
  f_src :: bytes
  f_dst :: bytes
  f_sport :: u16
  f_dport :: u16
  f_seq :: u32
  f_ack :: bytes
  f_tcpb :: bytes
  f_tls :: bytes

definition frame_ok :: "Frame4 \<Rightarrow> bool" where
  "frame_ok f =
     (length (f_mac f) = 12 \<and> length (f_ipa f) = 8 \<and> length (f_ipb f) = 2 \<and> length (f_src f) = 4 \<and>
      length (f_dst f) = 4 \<and> length (f_ack f) = 4 \<and> length (f_tcpb f) = 7)"

definition enc_frame :: "Frame4 \<Rightarrow> bytes" where
  "enc_frame f =
     f_mac f @ [0x08, 0x00] @ [0x45] @ f_ipa f @ [6] @ f_ipb f @ f_src f @ f_dst f @
     be16_bytes (f_sport f) @ be16_bytes (f_dport f) @ be32_bytes (f_seq f) @ f_ack f @ [0x50] @
     f_tcpb f @ f_tls f"

lemma unat_ucast16: "unat (ucast w :: u16) = unat w mod 65536" for w :: u32
  by (simp add: unsigned_ucast_eq take_bit_eq_mod)

lemma unat_hi16: "unat (ucast (drop_bit 16 w) :: u16) = unat w div 65536" for w :: u32
proof -
  have "unat w < 2 ^ 32"
    using unsigned_less [of w, where ?'a = nat] by simp
  then have "unat w div 65536 < 65536"
    by simp
  moreover have "unat (drop_bit 16 w) = unat w div 65536"
    using \<open>unat w < 2 ^ 32\<close>
    by (simp only: unsigned_drop_bit_eq, simp add: drop_bit_eq_div take_bit_eq_mod)
  ultimately show ?thesis
    by (simp only: unat_ucast16) simp
qed

lemma be32_of_bytes:
  "of_nat (unat (ucast (drop_bit 16 w) :: u16) * 65536 + unat (ucast w :: u16)) = w" for w :: u32
  unfolding unat_hi16 by (simp only: unat_ucast16 div_mult_mod_eq) simp

lemma length_be32_bytes [simp]: "length (be32_bytes w) = 4"
  by (simp add: be32_bytes_def)

definition frame_view :: "Frame4 \<Rightarrow> PacketView" where
  "frame_view f =
     \<lparr>pv_ipv6 = False, pv_tcp_start = 34, pv_tls_start = 54,
      pv_src_addr = f_src f @ replicate 12 0, pv_dst_addr = f_dst f @ replicate 12 0,
      pv_src_port = f_sport f, pv_dst_port = f_dport f\<rparr>"

lemma frame_reads:
  assumes "frame_ok f" "p = enc_frame f"
  shows "length p = 54 + length (f_tls f)"
    "take 2 (drop 12 p) = [0x08, 0x00]" "take 1 (drop 23 p) = [6]" "take 1 (drop 14 p) = [0x45]"
    "take 1 (drop 46 p) = [0x50]" "take 4 (drop 26 p) = f_src f" "take 4 (drop 30 p) = f_dst f"
    "take 4 (drop 34 p) = be16_bytes (f_sport f) @ be16_bytes (f_dport f)"
    "take 4 (drop 38 p) = be32_bytes (f_seq f)" "drop 54 p = f_tls f"
  using assms by (simp_all add: frame_ok_def enc_frame_def drop_Cons' take_Cons')

lemma frame_packet_view:
  assumes f: "frame_ok f" and tls: "6 \<le> length (f_tls f)" and lin: "24 \<le> lin"
  shows "packet_view (skb_of (enc_frame f) lin) = Some (frame_view f)"
proof -
  let ?p = "enc_frame f" and ?s = "skb_of (enc_frame f) lin"
  note reads = frame_reads [OF f refl]
  have dt: "take n (drop k (take lin ?p)) = take n (drop k ?p)" if "k + n \<le> 24" for k n
    using that lin by (simp add: drop_take min_def)
  have r16: "read_u16_be ?s 12 = Some 0x0800"
    using lin reads(1,2) dt [of 12 2] by (simp add: read_u16_be_def ptr_at_def skb_of_def be16_def)
  have r8: "read_u8 ?s 23 = Some 6" "read_u8 ?s 14 = Some 0x45"
    using lin reads(1,3,4) dt [of 23 1] dt [of 14 1] by (simp_all add: read_u8_def ptr_at_def skb_of_def)
  have ip: "ip_header ?s = Some (False, 20, 26, 30)"
    by (simp add: ip_header_def r16 r8 hdr_consts)
  have off: "load_u8 ?s 46 = Some 0x50"
    using reads(1,5) by (simp add: load_u8_def skb_of_def)
  have addrs: "addresses ?s False 26 30 = Some (f_src f @ replicate 12 0, f_dst f @ replicate 12 0)"
    using reads(1,6,7) by (simp add: addresses_def skb_of_def)
  have ports: "sk_load ?s 34 4 = Some (be16_bytes (f_sport f) @ be16_bytes (f_dport f))"
    using reads(1,8) by (simp add: skb_of_def)
  have len: "sk_len ?s = 54 + length (f_tls f)"
    using reads(1) by (simp add: skb_of_def)
  show ?thesis
    using tls by (simp add: packet_view_def ip off addrs ports len hdr_consts Let_def frame_view_def
        be16_bytes_def be16_of_bytes)
qed

text \<open>The connection and the flow of a frame, seen from the local end.\<close>

definition local_key :: "bool \<Rightarrow> Frame4 \<Rightarrow> ConnKey" where
  "local_key is_egress f =
     (if is_egress then v4_key (f_src f) (f_dst f) (f_sport f) (f_dport f)
      else v4_key (f_dst f) (f_src f) (f_dport f) (f_sport f))"

definition local_flow :: "bool \<Rightarrow> Frame4 \<Rightarrow> ReasmKey" where
  "local_flow is_egress f = \<lparr>rk_conn = local_key is_egress f, rk_dir = (if is_egress then 0 else 1)\<rparr>"

lemma frame_keys:
  "check_key is_egress (frame_view f) = local_key is_egress f"
  "reasm_key is_egress (frame_view f) = local_flow is_egress f"
  by (simp_all add: check_key_def reasm_key_def local_key_def local_flow_def frame_view_def v4_key_def)

text \<open>The capture of such a frame: what the frame and the connection table say, nothing else.\<close>

definition no_conn :: ConnInfo where
  "no_conn = \<lparr>ci_pid = 0, ci_tgid = 0, ci_comm = replicate 16 0, ci_cgroup_id = 0\<rparr>"

definition base_flags :: "bool \<Rightarrow> bytes \<Rightarrow> u8" where
  "base_flags is_egress tls =
     (if is_egress then 0 else FLAG_INGRESS) OR (if tls ! 0 = TLS_CONTENT_ALERT then FLAG_ALERT else 0)"

definition record_length :: "bytes \<Rightarrow> nat" where
  "record_length tls = unat (be16 (tls ! 3) (tls ! 4)) + 5"

definition frame_flags :: "bool \<Rightarrow> bytes \<Rightarrow> u8" where
  "frame_flags is_egress tls =
     base_flags is_egress tls OR (if length tls < record_length tls then FLAG_FRAGMENT else 0)"

definition frame_event :: "bool \<Rightarrow> u8 \<Rightarrow> u64 \<Rightarrow> bool \<Rightarrow> Frame4 \<Rightarrow> ConnInfo \<Rightarrow> RawTlsCapture" where
  "frame_event cont fl now is_egress f info =
     (let key = local_key is_egress f; tls = f_tls f; seen = take RAW_PAYLOAD_SIZE tls in
      \<lparr>timestamp_ns = now, cgroup_id = ci_cgroup_id info,
       src_addr = ck_src_addr key, dst_addr = ck_dst_addr key,
       src_port = ck_src_port key, dst_port = ck_dst_port key, is_ipv6 = 0,
       handshake_type = (if cont \<or> tls ! 0 = TLS_CONTENT_ALERT then 0 else tls ! 5),
       record_version = (if cont then 0 else be16 (tls ! 1) (tls ! 2)), payload_len = of_nat (length seen),
       tcp_seq = f_seq f, flags = fl, content_type = tls ! 0,
       pid = ci_pid info, comm = ci_comm info,
       payload = seen @ replicate (RAW_PAYLOAD_SIZE - length seen) 0\<rparr>)"

definition frame_capture :: "u64 \<Rightarrow> bool \<Rightarrow> Frame4 \<Rightarrow> ConnInfo \<Rightarrow> RawTlsCapture" where
  "frame_capture now is_egress f info = frame_event False (frame_flags is_egress (f_tls f)) now is_egress f info"

text \<open>The capture of a frame that goes on with a record in progress.\<close>

definition more_capture :: "u64 \<Rightarrow> bool \<Rightarrow> Frame4 \<Rightarrow> ConnInfo \<Rightarrow> RawTlsCapture" where
  "more_capture now is_egress f info =
     frame_event True (base_flags is_egress (f_tls f) OR FLAG_CONTINUATION) now is_egress f info"

lemma be32_bytes_nth:
  "of_nat (unat (be16 (be32_bytes w ! 0) (be32_bytes w ! Suc 0)) * 65536 +
           unat (be16 (be32_bytes w ! 2) (be32_bytes w ! 3))) = w"
proof -
  have "be16 (be32_bytes w ! 0) (be32_bytes w ! Suc 0) = ucast (drop_bit 16 w)"
    "be16 (be32_bytes w ! 2) (be32_bytes w ! 3) = ucast w"
    by (simp_all add: be32_bytes_def be16_bytes_def be16_of_bytes)
  then show ?thesis
    by (simp only: be32_of_bytes)
qed

lemma frame_fill:
  assumes f: "frame_ok f" and ev0: "capture_wf ev0"
    and conn: "conn_map k (local_key is_egress f) = c" "length (ci_comm (case c of None \<Rightarrow> no_conn | Some i \<Rightarrow> i)) = 16"
    and tls: "6 \<le> length (f_tls f)"
    and ev: "ev = fill_event he (skb_of (enc_frame f) lin) is_egress cont (frame_view f) (take 6 (f_tls f)) k ev0"
  shows "ev\<lparr>flags := fl,
            payload := payload_slice ev @ replicate (RAW_PAYLOAD_SIZE - length (payload_slice ev)) 0\<rparr> =
         frame_event cont fl (he_ktime he) is_egress f (case c of None \<Rightarrow> no_conn | Some i \<Rightarrow> i)"
    and "capture_wf ev"
    and "flags ev = base_flags is_egress (f_tls f)"
proof -
  let ?s = "skb_of (enc_frame f) lin" and ?n = "min (length (f_tls f)) RAW_PAYLOAD_SIZE"
  note reads = frame_reads [OF f refl]
  have len: "sk_len ?s = 54 + length (f_tls f)"
    using reads(1) by (simp add: skb_of_def)
  have seq: "sk_load ?s 38 4 = Some (be32_bytes (f_seq f))"
    using reads(1,9) by (simp add: skb_of_def)
  have pl: "sk_load ?s 54 ?n = Some (take ?n (f_tls f))"
    using reads(1,10) tls by (auto simp add: skb_of_def RAW_PAYLOAD_SIZE_def)
  have n1: "1 \<le> ?n" and un: "unat (of_nat ?n :: u16) = ?n"
    using tls by (simp_all add: RAW_PAYLOAD_SIZE_def unat_of_nat16)
  have addr: "length (ck_src_addr (local_key e f)) = 16"
    "length (ck_dst_addr (local_key e f)) = 16" for e
    using f by (simp_all add: local_key_def v4_key_def frame_ok_def)
  have sel: "\<not> pv_ipv6 (frame_view f)" "pv_tcp_start (frame_view f) = 34" "pv_tls_start (frame_view f) = 54"
    by (simp_all add: frame_view_def)
  have cp: "capture_payload ?s 54 (length (f_tls f)) e =
      e\<lparr>payload := take ?n (f_tls f) @ drop ?n (payload e), payload_len := of_nat ?n\<rparr>" for e
    using n1 pl by (simp add: capture_payload_def Let_def)
  define info where "info = (case c of None \<Rightarrow> no_conn | Some i \<Rightarrow> i)"
  define tl where "tl = take ?n (f_tls f)"
  have tl: "tl = take RAW_PAYLOAD_SIZE (f_tls f)" "length tl = ?n"
    by (simp_all add: tl_def min_def)
  have nth: "take 6 (f_tls f) ! i = f_tls f ! i" if "i < 6" for i
    using that by simp
  have seq': "(if 34 + 8 > sk_len ?s then None else sk_load ?s (34 + 4) 4) = Some (be32_bytes (f_seq f))"
    using len seq by (simp add: sel)
  have avail: "sk_len ?s - 54 = length (f_tls f)"
    using len by simp
  have six: "(0::nat) < 6" "(1::nat) < 6" "(2::nat) < 6" "(5::nat) < 6"
    by simp_all
  have ev_eq: "ev = ev0\<lparr>timestamp_ns := he_ktime he,
      handshake_type := (if cont \<or> f_tls f ! 0 = TLS_CONTENT_ALERT then 0 else f_tls f ! 5),
      record_version := (if cont then 0 else be16 (f_tls f ! 1) (f_tls f ! 2)), is_ipv6 := 0,
      flags := base_flags is_egress (f_tls f),
      content_type := f_tls f ! 0,
      src_addr := ck_src_addr (local_key is_egress f), dst_addr := ck_dst_addr (local_key is_egress f),
      src_port := ck_src_port (local_key is_egress f), dst_port := ck_dst_port (local_key is_egress f),
      tcp_seq := f_seq f, payload := tl @ drop ?n (payload ev0), payload_len := of_nat ?n,
      pid := ci_pid info, comm := ci_comm info, cgroup_id := ci_cgroup_id info\<rparr>"
    unfolding ev info_def fill_event_def Let_def seq' option.case nth [OF six(1)] nth [OF six(2)] nth [OF six(3)] nth [OF six(4)]
      if_False sel(2,3) avail cp One_nat_def [symmetric] frame_keys conn(1) base_flags_def [symmetric]
    using sel(1) by (cases c) 
      (simp_all only: option.case no_conn_def ConnInfo.simps if_False tl_def be32_bytes_nth One_nat_def, simp_all)
  have fields: "timestamp_ns ev = he_ktime he" "cgroup_id ev = ci_cgroup_id info" "pid ev = ci_pid info" "comm ev = ci_comm info"
    "src_addr ev = ck_src_addr (local_key is_egress f)" "src_port ev = ck_src_port (local_key is_egress f)"
    "dst_addr ev = ck_dst_addr (local_key is_egress f)" "dst_port ev = ck_dst_port (local_key is_egress f)"
    "is_ipv6 ev = 0" "handshake_type ev = (if cont \<or> f_tls f ! 0 = TLS_CONTENT_ALERT then 0 else f_tls f ! 5)"
    "record_version ev = (if cont then 0 else be16 (f_tls f ! 1) (f_tls f ! 2))" "content_type ev = f_tls f ! 0" "tcp_seq ev = f_seq f"
    "payload_len ev = of_nat (length tl)" "payload ev = tl @ drop ?n (payload ev0)"
    "flags ev = base_flags is_egress (f_tls f)"
    by (simp_all add: ev_eq tl(2))
  show "flags ev = base_flags is_egress (f_tls f)"
    by (rule fields(16))
  have "?n \<le> RAW_PAYLOAD_SIZE"
    by simp
  then show "capture_wf ev"
    using ev0 addr conn(2) tl(2) by (simp add: capture_wf_def fields ADDR_SIZE_def info_def)
  have slice: "payload_slice ev = tl"
    using un tl(2) by (simp add: payload_slice_def fields)
  show "ev\<lparr>flags := fl,
            payload := payload_slice ev @ replicate (RAW_PAYLOAD_SIZE - length (payload_slice ev)) 0\<rparr> =
         frame_event cont fl (he_ktime he) is_egress f (case c of None \<Rightarrow> no_conn | Some i \<Rightarrow> i)"
    unfolding info_def [symmetric] slice frame_event_def Let_def tl(1) [symmetric]
    by (intro RawTlsCapture.equality) (simp_all add: fields)
qed

text \<open>One frame through the hook: \<open>fl\<close> and \<open>m\<close> are the record's flag and what becomes of its flow.\<close>

lemma frame_step:
  assumes f: "frame_ok f" and tls: "6 \<le> length (f_tls f)" and lin: "24 \<le> lin"
    and acc: "record_accepted (reasm_map k (local_flow is_egress f) \<noteq> None) (f_tls f)"
    and ev0: "scratch k = Some ev0" "capture_wf ev0" and ring: "he_ring_ok he"
    and conn: "conn_map k (local_key is_egress f) = c"
      "length (ci_comm (case c of None \<Rightarrow> no_conn | Some i \<Rightarrow> i)) = 16"
    and tr: "track_record he (reasm_map k (local_flow is_egress f) \<noteq> None) (local_flow is_egress f) (take 6 (f_tls f))
        (length (f_tls f)) (reasm_map k) = (fl, m)"
    and run: "try_capture_tls he (skb_of (enc_frame f) lin) is_egress k = (ok, k')"
  shows "map drain_item (tls_events k') = map drain_item (tls_events k) @
      [Some (frame_event (reasm_map k (local_flow is_egress f) \<noteq> None) (base_flags is_egress (f_tls f) OR fl)
        (he_ktime he) is_egress f (case c of None \<Rightarrow> no_conn | Some i \<Rightarrow> i))]"
    and "reasm_map k' = m" "conn_map k' = conn_map k" "\<exists>ev. scratch k' = Some ev \<and> capture_wf ev"
proof -
  let ?s = "skb_of (enc_frame f) lin" and ?rec = "take 6 (f_tls f)" and ?cont = "reasm_map k (local_flow is_egress f) \<noteq> None"
  note reads = frame_reads [OF f refl]
  define cont where "cont = ?cont"
  define ev where "ev = fill_event he ?s is_egress cont (frame_view f) ?rec k ev0"
  note fill = frame_fill [OF f ev0(2) conn tls ev_def]
  have view: "packet_view ?s = Some (frame_view f)"
    using f tls lin by (rule frame_packet_view)
  have rec: "sk_load ?s (pv_tls_start (frame_view f)) 6 = Some ?rec"
    using reads(1,10) tls by (simp add: skb_of_def frame_view_def)
  have avail: "sk_len ?s - pv_tls_start (frame_view f) = length (f_tls f)"
    using reads(1) by (simp add: skb_of_def frame_view_def)
  define ev' where "ev' = ev\<lparr>flags := flags ev OR fl\<rparr>"
  have acc': "record_accepted cont ?rec"
    using acc tls by (simp add: record_accepted_def cont_def)
  have "try_capture_tls he ?s is_egress k = (True, emit he ev' (k\<lparr>reasm_map := m, scratch := Some ev'\<rparr>))"
    by (simp only: try_capture_tls_def view rec option.case Let_def frame_keys ev0(1) cont_def [symmetric] acc'
        not_True_eq_False if_False ev_def [symmetric] avail tr [folded cont_def] prod.case ev'_def [symmetric] simp_thms)
  with run ring have k': "k' = k\<lparr>reasm_map := m, scratch := Some ev', tls_events := tls_events k @ [emitted_bytes ev']\<rparr>"
    by (auto simp: emit_def)
  have flags: "ev' = ev\<lparr>flags := base_flags is_egress (f_tls f) OR fl\<rparr>"
    by (simp only: ev'_def fill(3))
  have ev': "payload_slice ev' = payload_slice ev" "capture_wf ev'"
    using fill(2) by (simp_all add: flags payload_slice_def capture_wf_def)
  then have "drain_item (emitted_bytes ev') =
      Some (frame_event cont (base_flags is_egress (f_tls f) OR fl) (he_ktime he) is_egress f (case c of None \<Rightarrow> no_conn | Some i \<Rightarrow> i))"
    using fill(1) by (simp add: drain_emitted flags)
  then show "map drain_item (tls_events k') = map drain_item (tls_events k) @
      [Some (frame_event ?cont (base_flags is_egress (f_tls f) OR fl)
        (he_ktime he) is_egress f (case c of None \<Rightarrow> no_conn | Some i \<Rightarrow> i))]"
    by (simp add: k' cont_def)
  show "reasm_map k' = m" "conn_map k' = conn_map k" "\<exists>ev. scratch k' = Some ev \<and> capture_wf ev"
    using ev'(2) by (simp_all add: k')
qed

text \<open>The record at the head of a frame, on a flow with none in progress.\<close>

lemma frame_head:
  assumes f: "frame_ok f" and tls: "6 \<le> length (f_tls f)" and lin: "24 \<le> lin"
    and acc: "record_accepted False (f_tls f)"
    and fresh: "reasm_map k (local_flow is_egress f) = None"
    and ev0: "scratch k = Some ev0" "capture_wf ev0" and ring: "he_ring_ok he"
    and conn: "conn_map k (local_key is_egress f) = c"
      "length (ci_comm (case c of None \<Rightarrow> no_conn | Some i \<Rightarrow> i)) = 16"
    and run: "try_capture_tls he (skb_of (enc_frame f) lin) is_egress k = (ok, k')"
  shows "map drain_item (tls_events k') = map drain_item (tls_events k) @
      [Some (frame_capture (he_ktime he) is_egress f (case c of None \<Rightarrow> no_conn | Some i \<Rightarrow> i))]"
    and "reasm_map k' =
      (if length (f_tls f) < record_length (f_tls f)
       then he_reasm_insert he (local_flow is_egress f)
         \<lparr>rs_remaining = of_nat (record_length (f_tls f) - length (f_tls f)), rs_segments_left = MAX_REASM_SEGMENTS - 1\<rparr>
         (reasm_map k)
       else reasm_map k)"
    and "conn_map k' = conn_map k" "\<exists>ev. scratch k' = Some ev \<and> capture_wf ev"
proof -
  have tr: "track_record he False (local_flow is_egress f) (take 6 (f_tls f)) (length (f_tls f)) (reasm_map k) =
      (if length (f_tls f) < record_length (f_tls f) then FLAG_FRAGMENT else 0,
       if length (f_tls f) < record_length (f_tls f)
       then he_reasm_insert he (local_flow is_egress f)
         \<lparr>rs_remaining = of_nat (record_length (f_tls f) - length (f_tls f)), rs_segments_left = MAX_REASM_SEGMENTS - 1\<rparr>
         (reasm_map k)
       else reasm_map k)"
    using tls by (simp add: track_record_def record_length_def hdr_consts Let_def del: of_nat_diff)
  note step = frame_step [where is_egress = is_egress and k = k, OF f tls lin _ ev0 ring conn _ run, unfolded fresh, simplified, OF acc tr]
  show "map drain_item (tls_events k') = map drain_item (tls_events k) @
      [Some (frame_capture (he_ktime he) is_egress f (case c of None \<Rightarrow> no_conn | Some i \<Rightarrow> i))]"
    using step(1) by (simp add: frame_capture_def frame_flags_def)
  show "reasm_map k' =
      (if length (f_tls f) < record_length (f_tls f)
       then he_reasm_insert he (local_flow is_egress f)
         \<lparr>rs_remaining = of_nat (record_length (f_tls f) - length (f_tls f)), rs_segments_left = MAX_REASM_SEGMENTS - 1\<rparr>
         (reasm_map k)
       else reasm_map k)"
    by (rule step(2))
  show "conn_map k' = conn_map k" "\<exists>ev. scratch k' = Some ev \<and> capture_wf ev"
    by (rule step(3), rule step(4))
qed

text \<open>A frame on a flow whose record is in progress.\<close>

lemma frame_more:
  assumes f: "frame_ok f" and tls: "6 \<le> length (f_tls f)" and lin: "24 \<le> lin"
    and live: "reasm_map k (local_flow is_egress f) = Some st"
    and ev0: "scratch k = Some ev0" "capture_wf ev0" and ring: "he_ring_ok he"
    and conn: "conn_map k (local_key is_egress f) = c"
      "length (ci_comm (case c of None \<Rightarrow> no_conn | Some i \<Rightarrow> i)) = 16"
    and run: "try_capture_tls he (skb_of (enc_frame f) lin) is_egress k = (ok, k')"
  shows "map drain_item (tls_events k') = map drain_item (tls_events k) @
      [Some (more_capture (he_ktime he) is_egress f (case c of None \<Rightarrow> no_conn | Some i \<Rightarrow> i))]"
    and "reasm_map k' = track_continuation he (local_flow is_egress f) (length (f_tls f)) st (reasm_map k)"
    and "conn_map k' = conn_map k" "\<exists>ev. scratch k' = Some ev \<and> capture_wf ev"
proof -
  have tr: "track_record he True (local_flow is_egress f) (take 6 (f_tls f)) (length (f_tls f)) (reasm_map k) =
      (FLAG_CONTINUATION, track_continuation he (local_flow is_egress f) (length (f_tls f)) st (reasm_map k))"
    by (simp add: track_record_def live)
  have acc: "record_accepted True (f_tls f)"
    by (simp add: record_accepted_def)
  note step = frame_step [where is_egress = is_egress and k = k, OF f tls lin _ ev0 ring conn _ run, unfolded live, simplified, OF acc tr]
  show "map drain_item (tls_events k') = map drain_item (tls_events k) @
      [Some (more_capture (he_ktime he) is_egress f (case c of None \<Rightarrow> no_conn | Some i \<Rightarrow> i))]"
    using step(1) by (simp add: more_capture_def)
  show "reasm_map k' = track_continuation he (local_flow is_egress f) (length (f_tls f)) st (reasm_map k)"
    "conn_map k' = conn_map k" "\<exists>ev. scratch k' = Some ev \<and> capture_wf ev"
    by (rule step(2), rule step(3), rule step(4))
qed


definition sample_frame :: Frame4 where
  "sample_frame =
     \<lparr>f_mac = replicate 12 1, f_ipa = replicate 8 0, f_ipb = [0, 0], f_src = [10, 0, 0, 1], f_dst = [10, 0, 0, 2],
      f_sport = 40000, f_dport = 443, f_seq = 0xDEADBEEF, f_ack = replicate 4 0, f_tcpb = replicate 7 0,
      f_tls = [0x16, 3, 1, 0, 9, 1, 0, 0]\<rparr>"

definition sample_kernel :: Kernel where
  "sample_kernel =
     \<lparr>tls_events = [], conn_map = Map.empty, connect_stash = Map.empty, reasm_map = Map.empty,
      scratch = Some default_capture, ringbuf_drops = Some 0\<rparr>"

lemma sample_frame_ok:
  "frame_ok sample_frame" "6 \<le> length (f_tls sample_frame)" "record_accepted False (f_tls sample_frame)"
  by (simp_all add: frame_ok_def sample_frame_def record_accepted_def hdr_consts hs_type_defs be16_def)


lemma classifier_outcome_witness:
  "\<exists>k'. try_capture_tls sample_hook (skb_of (enc_frame sample_frame) 24) False sample_kernel = (True, k') \<and>
     k' \<noteq> sample_kernel \<and> length (tls_events k') = 1 \<and> ringbuf_drops k' = Some 0"
proof -
  let ?s = "skb_of (enc_frame sample_frame) 24"
  obtain ok k' where run: "try_capture_tls sample_hook ?s False sample_kernel = (ok, k')"
    by fastforce
  have load: "sk_load ?s 54 6 = Some (take 6 (f_tls sample_frame))"
    using frame_reads(1,10) [OF sample_frame_ok(1) refl] sample_frame_ok(2) by (simp add: skb_of_def)
  have acc: "record_accepted False (take 6 (f_tls sample_frame))"
    using sample_frame_ok(3) by (simp add: record_accepted_def)
  have "ok \<and> tls_events k' \<noteq> []"
    using run frame_packet_view [OF sample_frame_ok(1,2) order_refl] load acc
    by (auto simp: try_capture_tls_def sample_kernel_def sample_hook_def frame_view_def emit_def Let_def split: prod.splits)
  then have "ok" "k' \<noteq> sample_kernel"
    by (auto simp: sample_kernel_def)
  then show ?thesis
    using classifier_outcome [OF run] run by (auto simp: sample_kernel_def sample_hook_def)
qed

end
