(* ===== verification/Segments.thy ===== *)
theory Segments
  imports Classifier Worker
begin

text \<open>
  A record that is cut into TCP segments, on its way through both halves of the program: the
  classifier's captures of the segments (\<open>crates/tls-probe-ebpf/src/tls.rs\<close>), and the worker that
  reassembles them (\<open>commands/capture.rs\<close>, \<open>reasm.rs\<close>).  Only the composition is stated here; every
  operation is defined in the theory of its component.
\<close>

section \<open>In the kernel\<close>

text \<open>The hook on frames that come one after the other, each with its own clock and allocations.\<close>

definition feed_frames :: "bool \<Rightarrow> nat \<Rightarrow> (HookEnv \<times> Frame4) list \<Rightarrow> Kernel \<Rightarrow> Kernel" where
  "feed_frames is_egress lin hfs k =
     fold (\<lambda>(he, f) k. snd (try_capture_tls he (skb_of (enc_frame f) lin) is_egress k)) hfs k"

definition hook_ok :: "HookEnv \<Rightarrow> bool" where
  "hook_ok he = (he_ring_ok he \<and> (\<forall>rk st m. he_reasm_insert he rk st m rk = Some st))"

text \<open>Frames of one connection in one direction.\<close>

definition same_flow :: "Frame4 \<Rightarrow> Frame4 \<Rightarrow> bool" where
  "same_flow f g = (f_src g = f_src f \<and> f_dst g = f_dst f \<and> f_sport g = f_sport f \<and> f_dport g = f_dport f)"

lemma same_flow_keys:
  "same_flow f g \<Longrightarrow> local_key e g = local_key e f" "same_flow f g \<Longrightarrow> local_flow e g = local_flow e f"
  by (simp_all add: same_flow_def local_flow_def local_key_def)

lemma saturating_rest:
  assumes "l \<le> n" "n < 2 ^ 32"
  shows "saturating_sub32 (of_nat n) (of_nat l) = of_nat (n - l)"
proof -
  have "(of_nat n \<le> (of_nat l :: u32)) \<longleftrightarrow> n \<le> l"
    using assms by (simp add: word_le_nat_alt unat_of_nat)
  then show ?thesis
    using assms by (auto simp: saturating_sub32_def of_nat_diff)
qed

lemma small_nonzero: "0 < n \<Longrightarrow> n < 2 ^ 32 \<Longrightarrow> (of_nat n :: u32) \<noteq> 0"
  by (simp add: word_unat_eq_iff unat_of_nat)

text \<open>While the record goes on, each frame is captured as a continuation.\<close>

lemma more_frames:
  assumes "\<forall>(he, g) \<in> set hfs. hook_ok he \<and> frame_ok g \<and> same_flow f g \<and> 6 \<le> length (f_tls g)" "24 \<le> lin"
    and "hfs \<noteq> []" "reasm_map k (local_flow e f) = Some st"
    and "rs_remaining st = of_nat (\<Sum>(he, g) \<leftarrow> hfs. length (f_tls g))" "(\<Sum>(he, g) \<leftarrow> hfs. length (f_tls g)) < 2 ^ 32"
    and "length hfs \<le> Suc (unat (rs_segments_left st))"
    and "scratch k = Some ev0" "capture_wf ev0" "conn_map k (local_key e f) = Some info" "length (ci_comm info) = 16"
  shows "map drain_item (tls_events (feed_frames e lin hfs k)) = map drain_item (tls_events k) @
    map (\<lambda>(he, g). Some (more_capture (he_ktime he) e g info)) hfs"
  using assms
proof (induction hfs arbitrary: k st ev0)
  case (Cons x hfs)
  obtain he g where x: "x = (he, g)"
    by (cases x)
  have g: "hook_ok he" "frame_ok g" "same_flow f g" "6 \<le> length (f_tls g)" "he_ring_ok he"
    using Cons.prems(1) by (simp_all add: x hook_ok_def)
  have keys: "reasm_map k (local_flow e g) = Some st" "conn_map k (local_key e g) = Some info"
    "local_flow e g = local_flow e f"
    using Cons.prems(4,10) same_flow_keys [OF g(3), of e] by simp_all
  obtain ok k1 where run: "try_capture_tls he (skb_of (enc_frame g) lin) e k = (ok, k1)"
    by fastforce
  note step = frame_more [OF g(2,4) Cons.prems(2) keys(1) Cons.prems(8,9) g(5) keys(2) _ run, simplified, OF Cons.prems(11), unfolded keys(3)]
  show ?case
  proof (cases "hfs = []")
    case True
    then show ?thesis
      using step(1) by (simp add: feed_frames_def x run)
  next
    case False
    let ?n = "\<Sum>(he, g) \<leftarrow> hfs. length (f_tls g)"
    obtain he' g' ys where y: "hfs = (he', g') # ys"
      using False by (cases hfs) auto
    have "6 \<le> length (f_tls g')"
      using Cons.prems(1) by (simp add: y)
    then have pos: "0 < ?n"
      by (simp only: y list.map sum_list.Cons prod.case)
    have lt: "length (f_tls g) + ?n < 2 ^ 32"
      using Cons.prems(6) by (simp add: x)
    have "saturating_sub32 (rs_remaining st) (of_nat (length (f_tls g))) = of_nat ?n"
      using saturating_rest [of "length (f_tls g)" "length (f_tls g) + ?n"] Cons.prems(5) lt by (simp add: x del: of_nat_add)
    moreover have "(of_nat ?n :: u32) \<noteq> 0"
      using pos lt by (intro small_nonzero) linarith+
    moreover have left: "Suc (length hfs) \<le> Suc (unat (rs_segments_left st))" "rs_segments_left st \<noteq> 0"
      using Cons.prems(7) False by (auto simp: x)
    moreover define st1 where
      "st1 = \<lparr>rs_remaining = of_nat ?n, rs_segments_left = (if rs_segments_left st \<le> 1 then 0 else rs_segments_left st - 1)\<rparr>"
    ultimately have live: "reasm_map k1 (local_flow e f) = Some st1"
      using step(2) g(1) by (simp add: track_continuation_def hook_ok_def)
    have st1: "rs_remaining st1 = of_nat ?n" "length hfs \<le> Suc (unat (rs_segments_left st1))"
      using left by (auto simp: st1_def word_le_nat_alt unat_minus_one)
    obtain ev1 where ev1: "scratch k1 = Some ev1" "capture_wf ev1"
      using step(4) by blast
    have "map drain_item (tls_events (feed_frames e lin hfs k1)) = map drain_item (tls_events k1) @
        map (\<lambda>(he, g). Some (more_capture (he_ktime he) e g info)) hfs"
      using Cons.prems(1,10) step(3) lt
      by (intro Cons.IH [OF _ Cons.prems(2) False live st1(1) _ st1(2) ev1 _ Cons.prems(11)]) simp_all
    then show ?thesis
      using step(1) by (simp add: feed_frames_def x run)
  qed
qed simp

text \<open>What a capture of a frame says.\<close>

lemma frame_event_facts:
  assumes "frame_ok f" "length (f_tls f) \<le> 4096" "c = frame_event cont fl now e f info"
  shows "payload_slice c = f_tls f" "tcp_seq c = f_seq f" "flags c = fl" "content_type c = f_tls f ! 0"
    "handshake_type c = (if cont \<or> f_tls f ! 0 = TLS_CONTENT_ALERT then 0 else f_tls f ! 5)"
    "src_addr_str c = dotted (if e then f_src f else f_dst f)" "dst_addr_str c = dotted (if e then f_dst f else f_src f)"
    "src_port c = (if e then f_sport f else f_dport f)" "dst_port c = (if e then f_dport f else f_sport f)"
    "pid c = ci_pid info" "comm c = ci_comm info" "timestamp_ns c = now"
    "src_addr c = ck_src_addr (local_key e f)" "dst_addr c = ck_dst_addr (local_key e f)"
proof -
  note fields = assms(3) frame_event_def Let_def RAW_PAYLOAD_SIZE_def local_key_def v4_key_def
  show "payload_slice c = f_tls f"
    using assms(2) by (simp add: payload_slice_def fields unat_of_nat16)
  have "length (f_src f) = 4" "length (f_dst f) = 4"
    using assms(1) by (simp_all add: frame_ok_def)
  then show "src_addr_str c = dotted (if e then f_src f else f_dst f)" "dst_addr_str c = dotted (if e then f_dst f else f_src f)"
    by (simp_all add: fields src_addr_str_def dst_addr_str_def format_addr_def cap_is_ipv6_def dotted_def)
qed (simp_all add: assms(3) frame_event_def Let_def local_key_def v4_key_def)

definition wire_flow :: "bool \<Rightarrow> Frame4 \<Rightarrow> FlowKey" where
  "wire_flow e f = (let key = local_key e f in
     FlowKey (ck_src_addr key) (ck_dst_addr key) (ck_src_port key) (ck_dst_port key) (\<not> e))"

lemma frame_event_flow:
  assumes "has_flag FLAG_INGRESS (frame_event cont fl now e f info) = (\<not> e)"
  shows "flow_key_of (frame_event cont fl now e f info) = wire_flow e f"
  using assms by (simp add: flow_key_of_def wire_flow_def frame_event_def Let_def)

lemma frame_event_has_flag: "has_flag b (frame_event cont fl now e f info) = (fl AND b \<noteq> 0)"
  by (simp add: has_flag_def frame_event_def Let_def)

lemma head_flags:
  "has_flag FLAG_INGRESS (frame_capture now e f info) = (\<not> e)"
  "has_flag FLAG_FRAGMENT (frame_capture now e f info) = (length (f_tls f) < record_length (f_tls f))"
  "has_flag FLAG_CONTINUATION (frame_capture now e f info) = False"
  by (simp_all add: frame_capture_def frame_event_has_flag frame_flags_def base_flags_def flag_defs)

lemma more_flags:
  "has_flag FLAG_INGRESS (more_capture now e f info) = (\<not> e)" "\<not> has_flag FLAG_FRAGMENT (more_capture now e f info)"
  "has_flag FLAG_CONTINUATION (more_capture now e f info)"
  by (simp_all add: more_capture_def frame_event_has_flag base_flags_def flag_defs)

lemma partial_by_flags: "partial_capture c = (has_flag FLAG_FRAGMENT c \<or> has_flag FLAG_CONTINUATION c)"
  by (simp add: partial_capture_def has_flag_def bit.conj_disj_distrib or_eq_0_iff)

section \<open>A record cut into frames\<close>

text \<open>
  \<open>ps\<close> are the parts of a record behind the one in frame \<open>f\<close>; the frames of \<open>rest\<close> carry them, in any order.
\<close>

definition cut_record :: "Frame4 \<Rightarrow> bytes list \<Rightarrow> (HookEnv \<times> Frame4) list \<Rightarrow> bool" where
  "cut_record f ps rest =
     (frame_ok f \<and> 9 \<le> length (f_tls f) \<and> length (f_tls f) \<le> 4096 \<and> ps \<noteq> [] \<and> length ps \<le> 2 \<and>
      no_wrap (f_seq f) (f_tls f # ps) \<and> record_length (f_tls f) = length (concat (f_tls f # ps)) \<and>
      (\<forall>(he, g) \<in> set rest. hook_ok he \<and> frame_ok g \<and> same_flow f g \<and> 6 \<le> length (f_tls g) \<and> length (f_tls g) \<le> 4096) \<and>
      mset (map (\<lambda>(he, g). (f_seq g, f_tls g)) rest) = mset (seg_list (f_seq f + of_nat (length (f_tls f))) ps))"

definition cut_captures :: "HookEnv \<Rightarrow> Frame4 \<Rightarrow> (HookEnv \<times> Frame4) list \<Rightarrow> bool \<Rightarrow> ConnInfo \<Rightarrow> RawTlsCapture list" where
  "cut_captures he f rest e info =
     frame_capture (he_ktime he) e f info # map (\<lambda>(h, g). more_capture (he_ktime h) e g info) rest"

lemma sum_seg_list: "(\<Sum>x \<leftarrow> seg_list q ps. length (snd x)) = length (concat ps)"
  by (induction q ps rule: seg_list.induct) simp_all

lemma cut_record_sum:
  assumes "cut_record f ps rest"
  shows "(\<Sum>(he, g) \<leftarrow> rest. length (f_tls g)) = length (concat ps)" "length rest = length ps"
proof -
  let ?segs = "map (\<lambda>(he, g). (f_seq g, f_tls g)) rest" and ?tl = "seg_list (f_seq f + of_nat (length (f_tls f))) ps"
  have perm: "mset ?segs = mset ?tl"
    using assms by (simp add: cut_record_def)
  from arg_cong [OF this, of "image_mset (\<lambda>x. length (snd x))"]
  have "mset (map (\<lambda>x. length (snd x)) ?segs) = mset (map (\<lambda>x. length (snd x)) ?tl)"
    by (simp only: mset_map)
  from arg_cong [OF this, of sum_mset] have "(\<Sum>x \<leftarrow> ?segs. length (snd x)) = (\<Sum>x \<leftarrow> ?tl. length (snd x))"
    by (simp only: sum_mset_sum_list)
  then show "(\<Sum>(he, g) \<leftarrow> rest. length (f_tls g)) = length (concat ps)"
    by (simp only: sum_seg_list) (simp add: comp_def case_prod_unfold)
  show "length rest = length ps"
    using perm mset_eq_length [OF perm] by simp
qed

text \<open>The kernel hands one capture per frame to user space.\<close>

lemma cut_captured:
  assumes cut: "cut_record f ps rest" and he: "hook_ok he" and lin: "24 \<le> lin" and acc: "record_accepted False (f_tls f)"
    and k: "reasm_map k (local_flow e f) = None" "scratch k = Some ev0" "capture_wf ev0"
      "conn_map k (local_key e f) = Some info" "length (ci_comm info) = 16"
  shows "map drain_item (tls_events (feed_frames e lin ((he, f) # rest) k)) =
    map drain_item (tls_events k) @ map Some (cut_captures he f rest e info)"
proof -
  have f: "frame_ok f" "6 \<le> length (f_tls f)" and ps: "ps \<noteq> []" "length ps \<le> 2"
    and len: "record_length (f_tls f) = length (f_tls f) + length (concat ps)"
    and frames: "\<forall>(he, g) \<in> set rest. hook_ok he \<and> frame_ok g \<and> same_flow f g \<and> 6 \<le> length (f_tls g)"
    using cut by (auto simp: cut_record_def)
  have rest: "rest \<noteq> []" "length rest \<le> 2"
    using ps cut_record_sum(2) [OF cut] by auto
  have pos: "0 < length (concat ps)"
    using cut ps(1) by (auto simp: cut_record_def no_wrap_def neq_Nil_conv)
  have "record_length (f_tls f) < 2 ^ 32"
    using unsigned_less [of "be16 (f_tls f ! 3) (f_tls f ! 4)", where ?'a = nat] by (simp add: record_length_def)
  then have small: "(\<Sum>(he, g) \<leftarrow> rest. length (f_tls g)) < 2 ^ 32"
    using len by (simp add: cut_record_sum(1) [OF cut])
  obtain ok k1 where run: "try_capture_tls he (skb_of (enc_frame f) lin) e k = (ok, k1)"
    by fastforce
  note hd = frame_head [OF f lin acc k(1-3) _ k(4) _ run, simplified, OF _ k(5)]
  have ring: "he_ring_ok he" and ins: "he_reasm_insert he (local_flow e f) st m (local_flow e f) = Some st" for st m
    using he by (simp_all add: hook_ok_def)
  obtain ev1 where ev1: "scratch k1 = Some ev1" "capture_wf ev1"
    using hd(4) [OF ring] by blast
  let ?st = "\<lparr>rs_remaining = of_nat (length (concat ps)), rs_segments_left = MAX_REASM_SEGMENTS - 1\<rparr>"
  have live: "reasm_map k1 (local_flow e f) = Some ?st"
    using hd(2) [OF ring] len pos by (simp add: ins)
  have conn: "conn_map k1 (local_key e f) = Some info"
    using hd(3) [OF ring] k(4) by simp
  have "map drain_item (tls_events (feed_frames e lin rest k1)) = map drain_item (tls_events k1) @
      map (\<lambda>(he, g). Some (more_capture (he_ktime he) e g info)) rest"
    using rest small by (intro more_frames [OF frames lin rest(1) live _ _ _ ev1 conn k(5)])
      (simp_all add: cut_record_sum(1) [OF cut] MAX_REASM_SEGMENTS_def)
  moreover have "feed_frames e lin ((he, f) # rest) k = feed_frames e lin rest k1"
    by (simp add: feed_frames_def run)
  ultimately show ?thesis
    using hd(1) [OF ring] by (simp add: cut_captures_def case_prod_unfold comp_def)
qed

text \<open>These captures are the segments of the record, for the reassembler.\<close>

lemma cut_segments:
  assumes cut: "cut_record f ps rest" and hc_def: "hc = frame_capture (he_ktime he) e f info"
    and caps_def: "caps = cut_captures he f rest e info"
  shows "record_split (f_seq f) (f_tls f # ps) hc" "flow_key_of hc = wire_flow e f"
    "\<forall>c \<in> set caps. t0 \<le> now \<and> now < t0 + dt \<longrightarrow> arrives (f_seq f) (f_tls f # ps) hc t0 dt (now, c)"
    "distinct (map seg_of caps)" "seg_of ` set caps = set (seg_list (f_seq f) (f_tls f # ps))"
proof -
  let ?segs = "seg_list (f_seq f) (f_tls f # ps)"
  have f: "frame_ok f" "9 \<le> length (f_tls f)" "length (f_tls f) \<le> 4096" "ps \<noteq> []" "length ps \<le> 2"
    "no_wrap (f_seq f) (f_tls f # ps)" "record_length (f_tls f) = length (concat (f_tls f # ps))"
    and rest: "\<forall>(he, g) \<in> set rest. frame_ok g \<and> same_flow f g \<and> length (f_tls g) \<le> 4096"
    and perm: "mset (map (\<lambda>(he, g). (f_seq g, f_tls g)) rest) = mset (tl ?segs)"
    using cut by (auto simp: cut_record_def)
  have seg: "seg_of hc = (f_seq f, f_tls f)"
    using frame_event_facts(1,2) [OF f(1,3) frame_capture_def] by (simp add: seg_of_def hc_def)
  have more: "seg_of (more_capture now e g info) = (f_seq g, f_tls g)" if "(h, g) \<in> set rest" for h g now
    using that rest frame_event_facts(1,2) [OF _ _ more_capture_def, of g] by (auto simp: seg_of_def)
  then have segs: "map seg_of caps = (f_seq f, f_tls f) # map (\<lambda>(he, g). (f_seq g, f_tls g)) rest"
    by (auto simp: caps_def cut_captures_def seg [unfolded hc_def])
  have "0 < length (concat ps)"
    using f(4,6) by (auto simp: no_wrap_def neq_Nil_conv)
  then have frag: "has_flag FLAG_FRAGMENT hc"
    using f(7) by (simp add: hc_def head_flags)
  then show "record_split (f_seq f) (f_tls f # ps) hc"
    using f seg by (simp add: record_split_def record_total_def record_length_def)
  show flow: "flow_key_of hc = wire_flow e f"
    unfolding hc_def frame_capture_def
    by (rule frame_event_flow) (simp add: head_flags(1) [unfolded frame_capture_def])
  have flows: "flow_key_of (more_capture now e g info) = wire_flow e f" if "(h, g) \<in> set rest" for h g now
    using that rest frame_event_flow [OF more_flags(1) [unfolded more_capture_def]] same_flow_keys(1)
    by (auto simp: more_capture_def wire_flow_def)
  have "mset (map seg_of caps) = mset ?segs"
    using perm by (simp add: segs)
  moreover have "distinct ?segs"
    using bt_ok_distinct [OF bt_ok_seg_list [OF f(6)]] distinct_map by blast
  ultimately show "distinct (map seg_of caps)" "seg_of ` set caps = set ?segs"
    using mset_eq_imp_distinct_iff mset_eq_setD by (blast, metis list.set_map)
  have "seg_of (more_capture (he_ktime h) e g info) \<in> set (tl ?segs)" if "(h, g) \<in> set rest" for h g
    using more [OF that] that mset_eq_setD [OF perm] by force
  then show "\<forall>c \<in> set caps. t0 \<le> now \<and> now < t0 + dt \<longrightarrow> arrives (f_seq f) (f_tls f # ps) hc t0 dt (now, c)"
    using flow flows more_flags(2,3) unfolding caps_def cut_captures_def by (fastforce simp: arrives_def hc_def)
qed

section \<open>In the worker\<close>

lemma length_reasm_feed: "reasm_feed cs r = (outs, r') \<Longrightarrow> length outs = length cs"
  by (induction cs r arbitrary: outs r' rule: reasm_feed.induct) (auto split: prod.splits)

lemma reasm_feed_snoc:
  assumes "reasm_feed (cs @ [(now, c)]) r = (outs @ [out], r2)"
  shows "\<exists>r1. reasm_feed cs r = (outs, r1) \<and> reasm_insert now c r1 = (out, r2)"
  using assms
proof (induction cs arbitrary: r outs)
  case (Cons a cs)
  obtain n b where a: "a = (n, b)"
    by (cases a)
  obtain o1 r1 where i: "reasm_insert n b r = (o1, r1)"
    by fastforce
  then show ?case
    using Cons.prems Cons.IH [of r1 "tl outs"]
    by (cases outs) (auto simp: a dest: length_reasm_feed split: prod.splits)
qed (auto split: prod.splits)

text \<open>Captures that only fill the buffer, with no sweep due on the way.\<close>

lemma worker_buffers:
  assumes "reasm_feed (map (\<lambda>(en, c). (en_instant en, c)) is) (w_reasm w) = (replicate (length is) None, r)"
    and "\<forall>i \<in> set is. partial_capture (snd i)"
    and "\<forall>j. 1 \<le> j \<and> j \<le> length is \<longrightarrow> (w_counter w + of_nat j) mod 500 \<noteq> 0"
  shows "worker_run d (is @ js) w =
    worker_run d js (w\<lparr>w_reasm := r, w_counter := w_counter w + of_nat (length is)\<rparr>)"
  using assms
proof (induction "is" arbitrary: w)
  case (Cons i "is")
  obtain en c where i: "i = (en, c)"
    by (cases i)
  obtain o1 r1 where ins: "reasm_insert (en_instant en) c (w_reasm w) = (o1, r1)"
    by fastforce
  with Cons.prems(1) have o1: "o1 = None" and rest: "reasm_feed (map (\<lambda>(en, c). (en_instant en, c)) is) r1 = (replicate (length is) None, r)"
    by (auto simp: i split: prod.splits)
  let ?w = "w\<lparr>w_reasm := r1, w_counter := w_counter w + 1\<rparr>"
  have "(w_counter w + 1) mod 500 \<noteq> 0"
    using Cons.prems(3) [rule_format, of 1] by simp
  then have "worker_step d en c w = Ret (True, ?w)"
    using Cons.prems(2) ins o1 by (simp add: worker_step_def handle_capture_def i sweep_tick_def Let_def)
  moreover have "worker_run d (is @ js) ?w = worker_run d js (?w\<lparr>w_reasm := r, w_counter := w_counter ?w + of_nat (length is)\<rparr>)"
  proof (rule Cons.IH)
    show "\<forall>j. 1 \<le> j \<and> j \<le> length is \<longrightarrow> (w_counter ?w + of_nat j) mod 500 \<noteq> 0"
      using Cons.prems(3) [rule_format, of "Suc j" for j] by (auto simp: add.assoc)
  qed (use Cons.prems(2) rest in simp_all)
  ultimately show ?case
    by (simp add: i add.assoc)
qed auto

text \<open>A record that arrives in pieces, the last of which completes it.\<close>

lemma arrives_partial: "record_split q ps hc \<Longrightarrow> arrives q ps hc t0 dt (now, c) \<Longrightarrow> partial_capture c"
  by (auto simp: record_split_def arrives_def partial_by_flags)

lemma worker_assembles:
  assumes sp: "record_split q ps hc" and "bt_ok (flows (w_reasm w))" "map_of (flows (w_reasm w)) (flow_key_of hc) = None"
    and room: "length (flows (w_reasm w)) + 1 < max_flows (w_reasm w)"
    and cs: "\<forall>(en, c) \<in> set (is @ [(en1, c1)]). arrives q ps hc t0 (timeout (w_reasm w)) (en_instant en, c)"
      "distinct (map (\<lambda>(en, c). seg_of c) (is @ [(en1, c1)]))" "(\<lambda>(en, c). seg_of c) ` set (is @ [(en1, c1)]) = set (seg_list q ps)"
    and quiet: "\<forall>j. 1 \<le> j \<and> j \<le> length is \<longrightarrow> (w_counter w + of_nat j) mod 500 \<noteq> 0"
    and sent: "process_assembled d en1 (whole_record ps hc) (w\<lparr>w_counter := w_counter w + of_nat (length is)\<rparr>) = Ret (ToSweep, w1)"
      "(w_counter w1 + 1) mod 500 \<noteq> 0"
  shows "worker_run d (is @ [(en1, c1)]) w = Ret (w1\<lparr>w_counter := w_counter w1 + 1\<rparr>)"
proof -
  let ?f = "\<lambda>(en, c). (en_instant en, c)" and ?r = "w_reasm w"
  have seg: "(seg_of \<circ> snd) \<circ> ?f = (\<lambda>(en, c). seg_of c)"
    by auto
  have "partial_state ?r q ps hc t0 {} ?r"
    using assms(2,3) by (simp add: partial_state_def kv_remove_absent)
  moreover have "(seg_of \<circ> snd) ` set (map ?f (is @ [(en1, c1)])) = set (seg_list q ps)"
    unfolding set_map image_comp seg by (rule cs(3))
  moreover have "distinct (map (seg_of \<circ> snd) (map ?f (is @ [(en1, c1)])))"
    unfolding map_map seg by (rule cs(2))
  moreover have "\<forall>a \<in> set (map ?f (is @ [(en1, c1)])). arrives q ps hc t0 (timeout ?r) a"
    using cs(1) by auto
  ultimately have "reasm_feed (map ?f is @ [(en_instant en1, c1)]) ?r = (replicate (length is) None @ [Some (whole_record ps hc)], ?r)"
    using feed_partial [OF sp room, of "map ?f (is @ [(en1, c1)])" t0 "{}" ?r] by simp
  then obtain r1 where r1: "reasm_feed (map ?f is) ?r = (replicate (length is) None, r1)"
    "reasm_insert (en_instant en1) c1 r1 = (Some (whole_record ps hc), ?r)"
    using reasm_feed_snoc by blast
  have part: "\<forall>i \<in> set (is @ [(en1, c1)]). partial_capture (snd i)"
    using arrives_partial [OF sp] cs(1) by fastforce
  have "handle_capture d en1 c1 (w\<lparr>w_reasm := r1, w_counter := w_counter w + of_nat (length is)\<rparr>) =
      Ret (ToSweep, w1)"
    using part r1(2) sent(1) by (simp add: handle_capture_def)
  then show ?thesis
    using worker_buffers [OF r1(1) _ quiet, of d "[(en1, c1)]"] part sent(2) by (simp add: worker_step_def sweep_tick_def Let_def)
qed

text \<open>The answer to a ClientHello that was put together.\<close>

lemma assembled_hello_sent:
  assumes "cap_is_client_hello hc" "content_type hc = 0x16" "w_accepts w = None" "iter_ok (en_iter en)"
    and parse: "parse_tls_payload (concat ps) True = Ret (ClientHelloA rv h)"
  shows "\<exists>w' ev. process_assembled d en (whole_record ps hc) w = Ret (ToSweep, w') \<and> w_counter w' = w_counter w \<and>
    w_lines w' = w_lines w @ [json_line d ev] \<and> event_of hc ev \<and>
    enriched ((build_analysis (d_sha d) (en_utc en) hc (ClientHelloA rv h))
      \<lparr>ev_reassembled := Some True, ev_truncated := Some False\<rparr>) ev"
proof -
  let ?b = "build_analysis (d_sha d) (en_utc en) hc (ClientHelloA rv h)"
  let ?ev = "?b\<lparr>ev_reassembled := Some True, ev_truncated := Some False\<rparr>"
  let ?w = "w\<lparr>w_corr := snd (on_client_hello (en_iter en) (en_now_ns en) (conn_key_of hc) (ClientHelloA rv h) (w_corr w))\<rparr>"
  have an: "analyze_capture_with_payload (d_sha d) (en_utc en) hc (concat ps) = Ret ?b"
    using assms(1,2) parse by (simp add: analyze_capture_with_payload_def)
  then have ev: "event_of hc ?ev"
    using analyze_ensures [of "d_sha d" "en_utc en" hc "concat ps"] by (simp add: ensures_def)
  obtain ctl w' where f: "finish_event d en hc ?ev ?w = (ctl, w')"
    by fastforce
  have "process_assembled d en (whole_record ps hc) w = Ret (ctl, w')"
    using assms(1) by (simp add: process_assembled_def whole_record_def an note_client_hello_def parse f)
  moreover have "w_counter w' = w_counter w"
    using finish_event_effect(1) [OF f, of "conn_key_of hc" 0] by (simp add: quiet_def)
  ultimately show ?thesis
    using finish_event_effect(4) [OF f _ ev] assms(3) by auto
qed

text \<open>The captures of a cut record, through the worker's loop: the last one completes the record.\<close>

lemma cut_assembled:
  assumes cut: "cut_record f ps rest" and hc_def: "hc = frame_capture (he_ktime he) e f info"
    and caps_def: "caps = cut_captures he f rest e info"
    and worker: "bt_ok (flows (w_reasm w))" "map_of (flows (w_reasm w)) (wire_flow e f) = None"
      "length (flows (w_reasm w)) + 1 < max_flows (w_reasm w)"
      "\<forall>j. 1 \<le> j \<and> j \<le> Suc (length rest) \<longrightarrow> (w_counter w + of_nat j) mod 500 \<noteq> 0"
    and envs: "length ens = Suc (length rest)"
      "\<forall>en \<in> set ens. t0 \<le> en_instant en \<and> en_instant en < t0 + timeout (w_reasm w)"
  obtains en where "en \<in> set ens"
    "\<And>w1. process_assembled d en (whole_record (f_tls f # ps) hc) (w\<lparr>w_counter := w_counter w + of_nat (length rest)\<rparr>) = Ret (ToSweep, w1) \<Longrightarrow>
       w_counter w1 = w_counter w + of_nat (length rest) \<Longrightarrow> worker_run d (zip ens caps) w = Ret (w1\<lparr>w_counter := w_counter w1 + 1\<rparr>)"
proof -
  let ?q = "f_seq f" and ?ps = "f_tls f # ps"
  note segs = cut_segments [OF cut hc_def caps_def]
  have n: "length caps = length ens" "zip ens caps \<noteq> []"
    using envs(1) by (auto simp: caps_def cut_captures_def)
  obtain en1 c1 where last: "zip ens caps = butlast (zip ens caps) @ [(en1, c1)]" and en1: "en1 \<in> set ens"
    using append_butlast_last_id [OF n(2)] last_in_set [OF n(2)] by (metis set_zip_leftD surj_pair)
  define pre where "pre = butlast (zip ens caps)"
  have zip: "zip ens caps = pre @ [(en1, c1)]" and pre: "length pre = length rest"
    using last n(1) envs(1) by (simp_all add: pre_def)
  have arr: "\<forall>(en, c) \<in> set (zip ens caps). arrives ?q ?ps hc t0 (timeout (w_reasm w)) (en_instant en, c)"
  proof clarify
    fix en c
    assume "(en, c) \<in> set (zip ens caps)"
    then have "en \<in> set ens" "c \<in> set caps"
      by (rule set_zip_leftD, rule set_zip_rightD)
    then show "arrives ?q ?ps hc t0 (timeout (w_reasm w)) (en_instant en, c)"
      using envs(2) by (intro segs(3) [rule_format]) simp_all
  qed
  have "(\<lambda>(en, c). seg_of c) = seg_of \<circ> (snd :: Env \<times> RawTlsCapture \<Rightarrow> RawTlsCapture)"
    by auto
  then have "map (\<lambda>(en, c). seg_of c) (zip ens caps) = map seg_of caps"
    using n(1) by (metis list.map_comp map_snd_zip)
  then have keys: "distinct (map (\<lambda>(en, c). seg_of c) (zip ens caps))"
    "(\<lambda>(en, c). seg_of c) ` set (zip ens caps) = set (seg_list ?q ?ps)"
    using segs(4,5) by (simp, metis list.set_map)
  have calm: "\<forall>j. 1 \<le> j \<and> j \<le> length pre \<longrightarrow> (w_counter w + of_nat j) mod 500 \<noteq> 0"
    "(w_counter w + of_nat (length rest) + 1) mod 500 \<noteq> 0"
    using worker(4) worker(4) [rule_format, of "Suc (length rest)"] by (simp_all add: pre ac_simps)
  have flow: "map_of (flows (w_reasm w)) (flow_key_of hc) = None"
    using worker(2) by (simp add: segs(2))
  show thesis
    using worker_assembles [OF segs(1) worker(1) flow worker(3) arr [unfolded zip] keys [unfolded zip] calm(1), of d] calm(2)
    by (intro that [OF en1]) (simp add: zip pre)
qed

section \<open>A tail that is too short\<close>

lemma short_frame_ignored:
  assumes "frame_ok f" "length (f_tls f) < 6"
  shows "try_capture_tls he (skb_of (enc_frame f) lin) e k = (True, k)"
  using assms(2) frame_reads(1) [OF assms(1) refl]
  by (simp add: try_capture_tls_def packet_view_def skb_of_def hdr_consts)

text \<open>A head whose record is not complete only fills the buffer.\<close>

lemma head_waits:
  assumes sp: "record_split q (p # p' # ps) hc" and r: "bt_ok (flows r)" "map_of (flows r) (flow_key_of hc) = None"
    and room: "length (flows r) + 1 < max_flows r"
  shows "\<exists>r'. reasm_insert now hc r = (None, r') \<and> map_of (flows r') (flow_key_of hc) \<noteq> None"
proof -
  let ?ps = "p # p' # ps"
  have st: "partial_state r q ?ps hc now {} r"
    using r by (simp add: partial_state_def kv_remove_absent)
  obtain r' where r': "partial_state r q ?ps hc now {(q, p)} r'" "insert_head now hc r = check_completion (flow_key_of hc) r'"
    using head_arrival [OF sp st room, of now] by auto
  have "(q, p) \<notin> set (tl (seg_list q ?ps))"
    using bt_ok_seg_list [of q ?ps] sp by (auto simp: record_split_def)
  then have "{(q, p)} \<noteq> set (seg_list q ?ps)"
    by auto
  then have "check_completion (flow_key_of hc) r' = (None, r')"
    using check_partial [OF sp r'(1)] by simp
  moreover have "reasm_insert now hc r = insert_head now hc r"
    using sp by (simp add: reasm_flag_cases record_split_def)
  ultimately show ?thesis
    using r' by (auto simp: partial_state_def split: option.splits)
qed


text \<open>A record of fourteen bytes, cut after nine.\<close>

definition short_head :: Frame4 where
  "short_head = sample_frame\<lparr>f_tls := [0x16, 3, 1, 0, 9, 1, 0, 0, 5], f_seq := 100\<rparr>"

definition short_tail :: Frame4 where
  "short_tail = sample_frame\<lparr>f_tls := [3, 3, 0, 0, 0], f_seq := 109\<rparr>"

definition known_kernel :: Kernel where
  "known_kernel = sample_kernel\<lparr>conn_map := (\<lambda>_. Some no_conn)\<rparr>"


end
