(* ===== verification/Listeners.thy ===== *)
theory Listeners
  imports Procfs Capture_Record "HOL-Library.Product_Lexorder" "HOL-Library.List_Lexorder"
begin

text \<open>
  \<open>crates/tls-probe-cli/src/commands/listeners.rs\<close>: the sockets in state LISTEN, read from procfs.

  \<open>/proc/net/tcp\<close> and \<open>/proc/net/tcp6\<close> are arguments, a file being absent, unreadable or a text.  The
  byte order of the host, which \<open>u32::from_le\<close> depends on, is an argument too.  \<open>serde_json\<close>, in its
  two forms, is a parameter; a line on standard output is an element of the result.
\<close>

section \<open>Addresses\<close>

definition STATE_LISTEN :: u8 where
  "STATE_LISTEN = 0x0A"

datatype IpAddr = V4 bytes | V6 bytes

text \<open>The derived order: every IPv4 address before every IPv6 address, then by octets.\<close>

fun ip_key :: "IpAddr \<Rightarrow> nat \<times> nat list" where
  "ip_key (V4 b) = (0, map unat b)"
| "ip_key (V6 b) = (1, map unat b)"

lemma ip_key_inject [simp]: "ip_key a = ip_key b \<longleftrightarrow> a = b"
proof -
  have "inj (unat :: u8 \<Rightarrow> nat)"
    by (simp add: inj_def unsigned_word_eqI)
  then show ?thesis
    by (cases a; cases b) (simp_all add: inj_map_eq_map)
qed

instantiation IpAddr :: linorder
begin

definition less_eq_IpAddr :: "IpAddr \<Rightarrow> IpAddr \<Rightarrow> bool" where
  "less_eq_IpAddr a b = (ip_key a \<le> ip_key b)"

definition less_IpAddr :: "IpAddr \<Rightarrow> IpAddr \<Rightarrow> bool" where
  "less_IpAddr a b = (ip_key a < ip_key b)"

instance
proof
  fix a b c :: IpAddr
  show "(a < b) = (a \<le> b \<and> \<not> b \<le> a)"
    unfolding less_eq_IpAddr_def less_IpAddr_def by (rule less_le_not_le)
  show "a \<le> a"
    by (simp add: less_eq_IpAddr_def)
  show "a \<le> b \<Longrightarrow> b \<le> c \<Longrightarrow> a \<le> c"
    unfolding less_eq_IpAddr_def by (rule order_trans)
  show "a \<le> b \<Longrightarrow> b \<le> a \<Longrightarrow> a = b"
    unfolding less_eq_IpAddr_def by (metis order_antisym ip_key_inject)
  show "a \<le> b \<or> b \<le> a"
    unfolding less_eq_IpAddr_def by (rule linear)
qed

end

record ListenEntry =
  le_addr :: IpAddr
  le_port :: u16

definition parse_hex_port :: "string \<Rightarrow> u16 option" where
  "parse_hex_port s = map_option of_nat (from_str_radix 16 16 s)"

text \<open>\<open>u32::to_be_bytes\<close> of a value below \<open>2 ^ 32\<close>.\<close>

definition u32_be_bytes :: "nat \<Rightarrow> bytes" where
  "u32_be_bytes v = rev (le_bytes 4 v)"

definition parse_ipv4_hex :: "string \<Rightarrow> IpAddr option" where
  "parse_ipv4_hex s =
     (let h = trim_start_matches CHR ''0'' s;
          full = (if h = [] then ''0'' else h)
      in map_option (\<lambda>value. V4 (u32_be_bytes value)) (from_str_radix 32 16 full))"

text \<open>The words of the loop; \<open>u32::from_le\<close> swaps the bytes on a big-endian host only.\<close>

primrec ipv6_words :: "bool \<Rightarrow> nat \<Rightarrow> string \<Rightarrow> bytes option" where
  "ipv6_words little 0 h = Some []"
| "ipv6_words little (Suc n) h =
     (case from_str_radix 32 16 (take 8 h) of
        None \<Rightarrow> None
      | Some val \<Rightarrow>
          map_option (\<lambda>rest. (if little then u32_be_bytes val else le_bytes 4 val) @ rest)
            (ipv6_words little n (drop 8 h)))"

definition parse_ipv6_hex :: "bool \<Rightarrow> string \<Rightarrow> IpAddr option" where
  "parse_ipv6_hex little h = (if length h \<noteq> 32 then None else map_option V6 (ipv6_words little 4 h))"

section \<open>Lines and files\<close>

definition parse_listen_line :: "string \<Rightarrow> (string \<Rightarrow> IpAddr option) \<Rightarrow> ListenEntry option" where
  "parse_listen_line line parse_addr =
     (let parts = split_whitespace line in
      if length parts < 4 then None
      else
        (case from_str_radix 8 16 (parts ! 3) of
           None \<Rightarrow> None
         | Some state \<Rightarrow>
             if of_nat state \<noteq> STATE_LISTEN then None
             else
               (case split_on CHR '':'' (parts ! 1) of
                  ip_hex # port_hex # _ \<Rightarrow>
                    Option.bind (parse_hex_port port_hex) (\<lambda>port.
                    map_option (\<lambda>addr. \<lparr>le_addr = addr, le_port = port\<rparr>) (parse_addr ip_hex))
                | _ \<Rightarrow> None)))"

definition read_listeners_proc :: "(string \<Rightarrow> ListenEntry option) \<Rightarrow> string \<Rightarrow> ListenEntry list" where
  "read_listeners_proc parse_line content = List.map_filter parse_line (drop 1 (str_lines content))"

text \<open>A file that may be absent, and one that is there but cannot be read; \<open>None\<close> is the error.\<close>

datatype ProcFile = Absent | Unreadable | Text string

fun listeners_of :: "(string \<Rightarrow> ListenEntry option) \<Rightarrow> ProcFile \<Rightarrow> ListenEntry list option" where
  "listeners_of parse_line Absent = Some []"
| "listeners_of parse_line Unreadable = None"
| "listeners_of parse_line (Text content) = Some (read_listeners_proc parse_line content)"

definition list_listeners :: "bool \<Rightarrow> ProcFile \<Rightarrow> ProcFile \<Rightarrow> ListenEntry list option" where
  "list_listeners little tcp tcp6 =
     Option.bind (listeners_of (\<lambda>l. parse_listen_line l parse_ipv4_hex) tcp) (\<lambda>entries.
     map_option (\<lambda>entries6. sort_key (\<lambda>e. (le_addr e, le_port e)) (entries @ entries6))
       (listeners_of (\<lambda>l. parse_listen_line l (parse_ipv6_hex little)) tcp6))"

section \<open>Output\<close>

definition ip_str :: "IpAddr \<Rightarrow> string" where
  "ip_str a = (case a of V4 b \<Rightarrow> format_addr b False | V6 b \<Rightarrow> format_addr b True)"

text \<open>What is printed before the command ends, and whether it ends without an error.\<close>

primrec print_json :: "(ListenEntry \<Rightarrow> string option) \<Rightarrow> ListenEntry list \<Rightarrow> string list \<times> bool" where
  "print_json to_json [] = ([], True)"
| "print_json to_json (e # es) =
     (case to_json e of
        None \<Rightarrow> ([], False)
      | Some l \<Rightarrow> (case print_json to_json es of (ls, ok) \<Rightarrow> (l # ls, ok)))"

definition run_listeners ::
  "(ListenEntry \<Rightarrow> string option) \<Rightarrow> (ListenEntry list \<Rightarrow> string option) \<Rightarrow> bool \<Rightarrow> bool \<Rightarrow> bool \<Rightarrow>
     ProcFile \<Rightarrow> ProcFile \<Rightarrow> string list \<times> bool" where
  "run_listeners to_json to_json_pretty little json json_array tcp tcp6 =
     (case list_listeners little tcp tcp6 of
        None \<Rightarrow> ([], False)
      | Some entries \<Rightarrow>
          if json_array then
            (case to_json_pretty entries of None \<Rightarrow> ([], False) | Some l \<Rightarrow> ([l], True))
          else if json then print_json to_json entries
          else
            ([''TCP listeners (LISTEN):''] @
             map (\<lambda>e. ''  '' @ ip_str (le_addr e) @ '':'' @ dec (unat (le_port e))) entries @
             [''Total: '' @ dec (length entries)], True))"

section \<open>What the kernel prints\<close>

text \<open>
  The documented format of the two files on a little-endian host: a header, then one row per socket
  whose second word is the local address, as the hexadecimal value of its 32-bit words in memory,
  a colon and the port, and whose fourth word is the state.
\<close>

record ProcRow =
  pr_sl :: string
  pr_addr :: bytes
  pr_port :: u16
  pr_remote :: string
  pr_state :: u8
  pr_rest :: "string list"

definition proc_addr4 :: "bytes \<Rightarrow> string" where
  "proc_addr4 a = kernel_hex 8 (le_val a)"

definition words_of :: "bytes \<Rightarrow> bytes list" where
  "words_of a = [take 4 a, take 4 (drop 4 a), take 4 (drop 8 a), take 4 (drop 12 a)]"

definition proc_addr6 :: "bytes \<Rightarrow> string" where
  "proc_addr6 a = concat (map (\<lambda>w. kernel_hex 8 (le_val w)) (words_of a))"

definition proc_line :: "(bytes \<Rightarrow> string) \<Rightarrow> ProcRow \<Rightarrow> string" where
  "proc_line addr r =
     join '' '' ([pr_sl r, addr (pr_addr r) @ '':'' @ kernel_hex 4 (unat (pr_port r)), pr_remote r,
       kernel_hex 2 (unat (pr_state r))] @ pr_rest r)"

definition proc_file :: "(bytes \<Rightarrow> string) \<Rightarrow> string \<Rightarrow> ProcRow list \<Rightarrow> string" where
  "proc_file addr header rows = proc_text (header # map (proc_line addr) rows)"

definition row_ok :: "nat \<Rightarrow> ProcRow \<Rightarrow> bool" where
  "row_ok n r = (length (pr_addr r) = n \<and> (\<forall>w \<in> set (pr_sl r # pr_remote r # pr_rest r). word_ok w))"

lemma row_words_ok:
  assumes "row_ok n r" "\<forall>c \<in> set (addr (pr_addr r)). \<not> is_whitespace c \<and> c \<noteq> CHR '':''"
  shows "\<forall>w \<in> set ([pr_sl r, addr (pr_addr r) @ '':'' @ kernel_hex 4 (unat (pr_port r)), pr_remote r,
    kernel_hex 2 (unat (pr_state r))] @ pr_rest r). word_ok w"
proof -
  have "\<not> is_whitespace CHR '':''"
    by (simp add: is_whitespace_def)
  then show ?thesis
    using assms kernel_hex_word [of 2] kernel_hex_facts(2) [of _ 4 "unat (pr_port r)"]
    by (auto simp: row_ok_def word_ok_def)
qed

lemma parse_proc_line:
  assumes "row_ok n r" "\<forall>c \<in> set (addr (pr_addr r)). \<not> is_whitespace c \<and> c \<noteq> CHR '':''"
  shows "parse_listen_line (proc_line addr r) pa =
    (if pr_state r = STATE_LISTEN then map_option (\<lambda>a. \<lparr>le_addr = a, le_port = pr_port r\<rparr>) (pa (addr (pr_addr r))) else None)"
proof -
  let ?local = "addr (pr_addr r) @ '':'' @ kernel_hex 4 (unat (pr_port r))"
  let ?words = "[pr_sl r, ?local, pr_remote r, kernel_hex 2 (unat (pr_state r))] @ pr_rest r"
  have words: "split_whitespace (proc_line addr r) = ?words"
    unfolding proc_line_def by (rule row_words) (rule row_words_ok [of n r addr, OF assms])
  have state: "from_str_radix 8 16 (kernel_hex 2 (unat (pr_state r))) = Some (unat (pr_state r))"
    using unat_u8_less [of "pr_state r"] by (intro kernel_hex_parsed) simp_all
  have "split_on CHR '':'' ?local = split_on CHR '':'' (addr (pr_addr r)) @ split_on CHR '':'' (kernel_hex 4 (unat (pr_port r)))"
    using split_on_append [of "CHR '':''" "addr (pr_addr r)" "kernel_hex 4 (unat (pr_port r))"] by simp
  moreover have "CHR '':'' \<notin> set (addr (pr_addr r))" "CHR '':'' \<notin> set (kernel_hex 4 (unat (pr_port r)))"
    using assms(2) kernel_hex_facts(2) [of "CHR '':''" 4 "unat (pr_port r)"] by auto
  ultimately have local: "split_on CHR '':'' ?local = [addr (pr_addr r), kernel_hex 4 (unat (pr_port r))]"
    by (simp add: split_on_none)
  have port: "from_str_radix 16 16 (kernel_hex 4 (unat (pr_port r))) = Some (unat (pr_port r))"
    using unat_u16_less [of "pr_port r"] by (intro kernel_hex_parsed) simp_all
  have "parse_listen_line (proc_line addr r) pa =
      (if pr_state r \<noteq> STATE_LISTEN then None
       else Option.bind (parse_hex_port (kernel_hex 4 (unat (pr_port r)))) (\<lambda>port.
         map_option (\<lambda>a. \<lparr>le_addr = a, le_port = port\<rparr>) (pa (addr (pr_addr r)))))"
    unfolding parse_listen_line_def words Let_def by (simp add: state) (simp only: local [simplified] list.case simp_thms)
  then show ?thesis
    by (simp add: parse_hex_port_def port)
qed

lemma parse_proc_addr4:
  assumes "length a = 4"
  shows "parse_ipv4_hex (proc_addr4 a) = Some (V4 (rev a))"
proof -
  let ?h = "dropWhile (\<lambda>x. x = CHR ''0'') (proc_addr4 a)"
  have v: "le_val a < 2 ^ 32"
    using le_val_less [of a] assms by simp
  have val: "digits_val 16 0 ?h = Some (le_val a)"
    using v by (simp add: digits_val_zeros proc_addr4_def kernel_hex_val)
  have full: "from_str_radix 32 16 (if ?h = [] then ''0'' else ?h) = Some (le_val a)"
  proof (cases ?h)
    case Nil
    with val v show ?thesis
      by (simp add: from_str_radix_def digit_val_def)
  next
    case (Cons c cs)
    then have "c \<in> set (proc_addr4 a)"
      by (metis list.set_intros(1) set_dropWhileD)
    then have "c \<noteq> CHR ''+''"
      using kernel_hex_facts(2) unfolding proc_addr4_def by blast
    with Cons val v show ?thesis
      by (simp add: from_str_radix_def)
  qed
  have "le_bytes 4 (le_val a) = a"
    using le_bytes_le_val [of a] assms by simp
  with full show ?thesis
    by (simp add: parse_ipv4_hex_def trim_start_matches_def Let_def u32_be_bytes_def)
qed

lemma parse_proc_addr6:
  assumes "length a = 16"
  shows "parse_ipv6_hex True (proc_addr6 a) = Some (V6 (concat (map rev (words_of a))))"
proof -
  have w: "ipv6_words True (length ws) (concat (map (\<lambda>w. kernel_hex 8 (le_val w)) ws)) = Some (concat (map rev ws))"
    if "\<forall>w \<in> set ws. length w = 4" for ws
    using that
  proof (induction ws)
    case (Cons w ws)
    have "le_val w < 2 ^ 32" "le_bytes 4 (le_val w) = w"
      using le_val_less [of w] le_bytes_le_val [of w] Cons.prems by simp_all
    moreover from this have "from_str_radix 32 16 (kernel_hex 8 (le_val w)) = Some (le_val w)"
      by (intro kernel_hex_parsed) simp_all
    ultimately show ?case
      using Cons by (simp add: kernel_hex_facts(1) u32_be_bytes_def)
  qed simp
  have "\<forall>w \<in> set (words_of a). length w = 4" "length (words_of a) = 4"
    using assms by (simp_all add: words_of_def)
  moreover from this have "length (proc_addr6 a) = 32"
    by (simp add: proc_addr6_def words_of_def kernel_hex_facts(1))
  ultimately show ?thesis
    using w [of "words_of a"] by (simp add: parse_ipv6_hex_def proc_addr6_def)
qed

definition listening :: "(bytes \<Rightarrow> IpAddr) \<Rightarrow> ProcRow list \<Rightarrow> ListenEntry list" where
  "listening ip rows =
     map (\<lambda>r. \<lparr>le_addr = ip (pr_addr r), le_port = pr_port r\<rparr>) (filter (\<lambda>r. pr_state r = STATE_LISTEN) rows)"

lemma read_proc_file:
  assumes "header_ok header" "\<forall>r \<in> set rows. row_ok n r"
    and "\<And>a c. c \<in> set (addr a) \<Longrightarrow> \<not> is_whitespace c \<and> c \<noteq> CHR '':''"
    and "\<And>a. length a = n \<Longrightarrow> pa (addr a) = Some (ip a)"
  shows "read_listeners_proc (\<lambda>l. parse_listen_line l pa) (proc_file addr header rows) = listening ip rows"
proof -
  have "header_ok (proc_line addr r)" if "r \<in> set rows" for r
    unfolding proc_line_def using assms(2,3) that by (intro words_header_ok row_words_ok [of n r addr]) blast+
  then have "str_lines (proc_file addr header rows) = header # map (proc_line addr) rows"
    unfolding proc_file_def using assms(1) by (intro proc_text_lines) auto
  moreover have "List.map_filter (\<lambda>l. parse_listen_line l pa) (map (proc_line addr) rows) = listening ip rows"
    using assms(2)
  proof (induction rows)
    case (Cons r rows)
    have "parse_listen_line (proc_line addr r) pa =
        (if pr_state r = STATE_LISTEN then Some \<lparr>le_addr = ip (pr_addr r), le_port = pr_port r\<rparr> else None)"
      using parse_proc_line [of n r addr pa] Cons.prems assms(3,4) by (simp add: row_ok_def)
    then show ?case
      using Cons by (simp add: map_filter_simps listening_def)
  qed (simp add: map_filter_simps listening_def)
  ultimately show ?thesis
    by (simp add: read_listeners_proc_def)
qed


definition sample_row :: "bytes \<Rightarrow> ProcRow" where
  "sample_row a = \<lparr>pr_sl = ''0:'', pr_addr = a, pr_port = 631, pr_remote = ''00000000:0000'', pr_state = 0x0A, pr_rest = [''1'']\<rparr>"


end
