(* ===== verification/Kernel_Runs.thy ===== *)
theory Kernel_Runs
  imports Classifier Machines
begin

text \<open>
  The kernel half as a whole: the programs of \<open>crates/tls-probe-ebpf/src/main.rs\<close> over their shared
  maps, run one after the other in any order.  The field \<open>tls_events\<close> is the sequence of all items
  ever put on the ring buffer; user space takes them from its front.  An event carries what the
  program that runs sees of its environment; \<open>legal_event\<close> states the documented behaviour of the
  helpers: a read returns as many bytes as it was asked for, a command name has sixteen bytes, and
  insertions into LRU maps satisfy \<open>lru_insert_ok\<close>.
\<close>

section \<open>Events\<close>

datatype KernelEvent =
    ConnectV4 "(u64, ConnStash) bpf_insert" TaskEnv "u64 option"
  | ConnectV6 "(u64, ConnStash) bpf_insert" TaskEnv "u64 option"
  | ConnectRetV4 "(ConnKey, ConnInfo) bpf_insert" TaskEnv "32 word"
  | ConnectRetV6 "(ConnKey, ConnInfo) bpf_insert" TaskEnv "32 word"
  | Accept "(ConnKey, ConnInfo) bpf_insert" TaskEnv u64
  | Ingress HookEnv SkBuff
  | Egress HookEnv SkBuff

fun kernel_do :: "KernelEvent \<Rightarrow> Kernel \<Rightarrow> Kernel" where
  "kernel_do (ConnectV4 ins te arg0) k = tcp_v4_connect ins te arg0 k"
| "kernel_do (ConnectV6 ins te arg0) k = tcp_v6_connect ins te arg0 k"
| "kernel_do (ConnectRetV4 ins te ret) k = tcp_v4_connect_ret ins te ret k"
| "kernel_do (ConnectRetV6 ins te ret) k = tcp_v6_connect_ret ins te ret k"
| "kernel_do (Accept ins te sk) k = inet_csk_accept ins te sk k"
| "kernel_do (Ingress he s) k = snd (tls_ingress he s k)"
| "kernel_do (Egress he s) k = snd (tls_egress he s k)"

definition task_ok :: "TaskEnv \<Rightarrow> bool" where
  "task_ok te =
     ((\<forall>c. te_comm te = Some c \<longrightarrow> length c = COMM_SIZE) \<and>
      (\<forall>p n b. te_read_kernel te p n = Some b \<longrightarrow> length b = n))"

definition skb_ok :: "SkBuff \<Rightarrow> bool" where
  "skb_ok s = (\<forall>off n b. sk_load s off n = Some b \<longrightarrow> length b = n)"

fun legal_event :: "KernelEvent \<Rightarrow> bool" where
  "legal_event (ConnectV4 ins te arg0) = (lru_insert_ok ins \<and> task_ok te)"
| "legal_event (ConnectV6 ins te arg0) = (lru_insert_ok ins \<and> task_ok te)"
| "legal_event (ConnectRetV4 ins te ret) = (lru_insert_ok ins \<and> task_ok te)"
| "legal_event (ConnectRetV6 ins te ret) = (lru_insert_ok ins \<and> task_ok te)"
| "legal_event (Accept ins te sk) = (lru_insert_ok ins \<and> task_ok te)"
| "legal_event (Ingress he s) = (lru_insert_ok (he_reasm_insert he) \<and> skb_ok s)"
| "legal_event (Egress he s) = (lru_insert_ok (he_reasm_insert he) \<and> skb_ok s)"

lemma lru_insert_lookup:
  assumes "lru_insert_ok ins" "ins k v m k' = Some v'"
  shows "k' = k \<and> v' = v \<or> m k' = Some v'"
proof -
  have "ins k v m = m \<or> (\<exists>D. ins k v m = (m |` D)(k \<mapsto> v))"
    using assms(1) unfolding lru_insert_ok_def by blast
  then show ?thesis
    using assms(2) by (elim disjE exE) (auto simp: restrict_map_def split: if_splits)
qed

lemma bpf_remove_lookup: "bpf_remove k m k' = Some v \<Longrightarrow> m k' = Some v"
  by (auto simp: bpf_remove_def split: if_splits)

lemma skb_of_ok: "skb_ok (skb_of pkt lin)"
  by (auto simp: skb_ok_def skb_of_def split: if_splits)

section \<open>Well-formed kernel states\<close>

definition key_wf :: "ConnKey \<Rightarrow> bool" where
  "key_wf key = (length (ck_src_addr key) = ADDR_SIZE \<and> length (ck_dst_addr key) = ADDR_SIZE)"

definition info_wf :: "ConnInfo \<Rightarrow> bool" where
  "info_wf info = (length (ci_comm info) = COMM_SIZE)"

text \<open>An item of the ring buffer that user space reads as the capture of a wanted record or its continuation.\<close>

definition item_wf :: "bytes \<Rightarrow> bool" where
  "item_wf x = (\<exists>c. drain_item x = Some c \<and> capture_wf c \<and> unat (payload_len c) \<le> RAW_PAYLOAD_SIZE \<and>
     (has_flag FLAG_CONTINUATION c \<or> wanted c))"

definition reasm_wf :: "(ReasmKey, ReasmState) bpf_map \<Rightarrow> bool" where
  "reasm_wf m = (\<forall>rk st. m rk = Some st \<longrightarrow>
     key_wf (rk_conn rk) \<and> rk_dir rk \<in> {0, 1} \<and> rs_segments_left st < MAX_REASM_SEGMENTS)"

definition kernel_wf :: "Kernel \<Rightarrow> bool" where
  "kernel_wf k =
     ((\<exists>ev. scratch k = Some ev \<and> capture_wf ev) \<and>
      (\<forall>key info. conn_map k key = Some info \<longrightarrow> key_wf key \<and> info_wf info) \<and>
      (\<forall>p st. connect_stash k p = Some st \<longrightarrow> info_wf (st_info st)) \<and>
      reasm_wf (reasm_map k) \<and> (\<forall>x \<in> set (tls_events k). item_wf x))"

lemma kernel_start_wf: "kernel_wf kernel_start"
  by (simp add: kernel_wf_def kernel_start_def default_capture_wf reasm_wf_def)

subsection \<open>The probes\<close>

lemma current_info_wf: "task_ok te \<Longrightarrow> info_wf (current_conn_info te)"
  by (auto simp: info_wf_def current_conn_info_def task_ok_def split: option.split)

lemma read_addr_length:
  assumes "task_ok te"
  shows "length (read_v4 te p) = ADDR_SIZE" "length (read_v6 te p) = ADDR_SIZE"
  using assms by (auto simp: read_v4_def read_v6_def task_ok_def ADDR_SIZE_def split: option.split)

lemma conn_map_insert_wf:
  assumes "lru_insert_ok ins" "kernel_wf k" "key_wf key" "info_wf info"
  shows "kernel_wf (k\<lparr>conn_map := ins key info (conn_map k)\<rparr>)"
  using assms(2-4) by (auto simp: kernel_wf_def dest!: lru_insert_lookup [OF assms(1)])

lemma stash_remove_wf: "kernel_wf k \<Longrightarrow> kernel_wf (k\<lparr>connect_stash := bpf_remove p (connect_stash k)\<rparr>)"
  by (auto simp: kernel_wf_def dest!: bpf_remove_lookup)

lemma stash_entry_wf:
  assumes "lru_insert_ok ins" "task_ok te" "kernel_wf k"
  shows "kernel_wf (snd (stash_connect_entry ins te arg0 k))"
  using assms(3) current_info_wf [OF assms(2)]
  by (auto simp: stash_connect_entry_def kernel_wf_def dest!: lru_insert_lookup [OF assms(1)] split: option.split)

lemma finish_connect_wf:
  assumes "lru_insert_ok ins" "task_ok te" "kernel_wf k"
  shows "kernel_wf (snd (finish_connect_v4 ins te ret k))" "kernel_wf (snd (finish_connect_v6 ins te ret k))"
proof -
  have info: "info_wf (st_info st)" if "connect_stash k p = Some st" for p st
    using assms(3) that by (auto simp: kernel_wf_def)
  note ins = conn_map_insert_wf [OF assms(1) stash_remove_wf [OF assms(3), of "te_pid_tgid te"], simplified]
  show "kernel_wf (snd (finish_connect_v4 ins te ret k))" "kernel_wf (snd (finish_connect_v6 ins te ret k))"
    using assms(3) stash_remove_wf [OF assms(3)] read_addr_length [OF assms(2)]
    by (auto simp: finish_connect_v4_def finish_connect_v6_def Let_def key_wf_def intro!: ins info split: option.split prod.split)
qed

lemma record_accept_wf:
  assumes "lru_insert_ok ins" "task_ok te" "kernel_wf k"
  shows "kernel_wf (snd (try_record_accept ins te sk k))"
  using assms(3) read_addr_length [OF assms(2)] current_info_wf [OF assms(2)]
  by (auto simp: try_record_accept_def Let_def key_wf_def intro!: conn_map_insert_wf [OF assms(1)] split: option.split prod.split)

subsection \<open>The classifier\<close>

lemma view_addr_length:
  assumes "skb_ok s" "packet_view s = Some v"
  shows "length (pv_src_addr v) = ADDR_SIZE" "length (pv_dst_addr v) = ADDR_SIZE"
proof -
  obtain v6 a b where "addresses s v6 a b = Some (pv_src_addr v, pv_dst_addr v)"
    using assms(2) by (auto simp: packet_view_def Let_def split: option.splits if_splits)
  then have ad: "Some (pv_src_addr v, pv_dst_addr v) = addresses s v6 a b"
    by simp
  have len: "length x = n" if "sk_load s off n = Some x" for off n x
    using assms(1) that by (auto simp: skb_ok_def)
  show "length (pv_src_addr v) = ADDR_SIZE" "length (pv_dst_addr v) = ADDR_SIZE"
    using ad by (auto simp: addresses_def ADDR_SIZE_def dest: len split: option.splits if_splits)
qed

lemma check_key_wf: "skb_ok s \<Longrightarrow> packet_view s = Some v \<Longrightarrow> key_wf (check_key e v)"
  using view_addr_length [of s v] by (simp add: key_wf_def check_key_def)

lemma capture_payload_wf: "skb_ok s \<Longrightarrow> capture_wf ev \<Longrightarrow> capture_wf (capture_payload s a n ev)"
  by (auto simp: capture_payload_def capture_wf_def skb_ok_def Let_def split: option.split if_splits)

text \<open>What the hook writes of the packet and of the connection's process.\<close>

lemma fill_event_fields:
  assumes "ev = fill_event he s e cont v rec k ev0"
  shows "conn_key_of ev = check_key e v" "timestamp_ns ev = he_ktime he" "cap_is_ipv6 ev = pv_ipv6 v"
    "pid ev = (case conn_map k (check_key e v) of None \<Rightarrow> 0 | Some info \<Rightarrow> ci_pid info)"
    "comm ev = (case conn_map k (check_key e v) of None \<Rightarrow> replicate 16 0 | Some info \<Rightarrow> ci_comm info)"
proof -
  have keeps: "timestamp_ns (capture_payload s a n x) = timestamp_ns x" "is_ipv6 (capture_payload s a n x) = is_ipv6 x" for a n x
    by (simp_all add: capture_payload_def Let_def split: option.split)
  show "conn_key_of ev = check_key e v"
    using capture_payload_keeps(5) unfolding conn_key_of_def by (auto simp: assms fill_event_def Let_def split: option.split)
  show "timestamp_ns ev = he_ktime he" "cap_is_ipv6 ev = pv_ipv6 v"
    "pid ev = (case conn_map k (check_key e v) of None \<Rightarrow> 0 | Some info \<Rightarrow> ci_pid info)"
    "comm ev = (case conn_map k (check_key e v) of None \<Rightarrow> replicate 16 0 | Some info \<Rightarrow> ci_comm info)"
    by (simp_all add: assms fill_event_def Let_def keeps cap_is_ipv6_def split: option.split)
qed

lemma fill_event_wf:
  assumes "skb_ok s" "packet_view s = Some v" "capture_wf ev0"
    and "\<forall>key info. conn_map k key = Some info \<longrightarrow> info_wf info"
  shows "capture_wf (fill_event he s e cont v rec k ev0)"
proof -
  have "key_wf (check_key e v)"
    by (rule check_key_wf [OF assms(1,2)])
  then have wf: "capture_wf (capture_payload s a n (ev0\<lparr>timestamp_ns := t, handshake_type := h, record_version := rv, is_ipv6 := v6,
      flags := fl, content_type := ct, src_addr := ck_src_addr (check_key e v), dst_addr := ck_dst_addr (check_key e v),
      src_port := sp, dst_port := dp, tcp_seq := q\<rparr>))" for a n t h rv v6 fl ct sp dp q
    using assms(3) by (intro capture_payload_wf [OF assms(1)]) (simp add: capture_wf_def key_wf_def)
  have upd: "capture_wf c \<Longrightarrow> length m = 16 \<Longrightarrow> capture_wf (c\<lparr>pid := p, comm := m, cgroup_id := g\<rparr>)" for c p m g
    by (simp add: capture_wf_def)
  have "length (ci_comm info) = 16" if "conn_map k key = Some info" for key info
    using assms(4) that by (auto simp: info_wf_def COMM_SIZE_def)
  then show ?thesis
    unfolding fill_event_def Let_def by (cases "conn_map k (check_key e v)") (simp_all add: upd wf)
qed

text \<open>What user space makes of a filled scratch buffer.\<close>

definition drained :: "RawTlsCapture \<Rightarrow> RawTlsCapture" where
  "drained ev = ev\<lparr>payload := payload_slice ev @ replicate (RAW_PAYLOAD_SIZE - length (payload_slice ev)) 0\<rparr>"

lemma drained_fields:
  "conn_key_of (drained ev) = conn_key_of ev" "timestamp_ns (drained ev) = timestamp_ns ev" "pid (drained ev) = pid ev"
  "comm (drained ev) = comm ev" "cap_is_ipv6 (drained ev) = cap_is_ipv6 ev" "payload_len (drained ev) = payload_len ev"
  "has_flag f (drained ev) = has_flag f ev" "wanted (drained ev) = wanted ev"
  by (simp_all add: drained_def conn_key_of_def cap_is_ipv6_def has_flag_def wanted_def)

lemma drained_wf: "capture_wf ev \<Longrightarrow> capture_wf (drained ev)"
  using payload_slice_bound [of ev] by (simp add: drained_def capture_wf_def)

lemma drain_emitted_item: "capture_wf ev \<Longrightarrow> drain_item (emitted_bytes ev) = Some (drained ev)"
  by (simp add: drain_emitted drained_def)

lemma track_record_wf:
  assumes "lru_insert_ok (he_reasm_insert he)" "reasm_wf m" "key_wf (rk_conn rk)" "rk_dir rk \<in> {0, 1}"
    and "track_record he cont rk rec n m = (fl, m')"
  shows "reasm_wf m'"
proof -
  have ins: "reasm_wf (he_reasm_insert he rk st m)" if "rs_segments_left st < MAX_REASM_SEGMENTS" for st
    using assms(2-4) that by (auto simp: reasm_wf_def dest!: lru_insert_lookup [OF assms(1)])
  have less: "s \<noteq> 0 \<Longrightarrow> s < MAX_REASM_SEGMENTS \<Longrightarrow> s - 1 < MAX_REASM_SEGMENTS" for s
    by (auto simp: MAX_REASM_SEGMENTS_def word_less_nat_alt word_le_nat_alt unat_minus_one)
  have rem: "reasm_wf (bpf_remove rk m)"
    using assms(2) by (auto simp: reasm_wf_def dest!: bpf_remove_lookup)
  have live: "rs_segments_left st < MAX_REASM_SEGMENTS" if "m rk = Some st" for st
    using assms(2) that by (auto simp: reasm_wf_def)
  have three: "MAX_REASM_SEGMENTS - 1 < MAX_REASM_SEGMENTS" "0 < MAX_REASM_SEGMENTS"
    by (simp_all add: MAX_REASM_SEGMENTS_def)
  have "reasm_wf (track_continuation he rk n st m)" if "m rk = Some st" for st
    using less [OF _ live [OF that]] three(2) by (auto simp: track_continuation_def Let_def intro!: ins rem)
  then show ?thesis
    using assms(2,5) three(1) by (auto simp: track_record_def Let_def intro!: ins split: option.splits if_splits)
qed

text \<open>What a run of the hook puts on the ring buffer: \<open>c\<close> is about the packet and the connection's process.\<close>

definition seen_by_hook :: "HookEnv \<Rightarrow> SkBuff \<Rightarrow> bool \<Rightarrow> (ConnKey, ConnInfo) bpf_map \<Rightarrow> RawTlsCapture \<Rightarrow> bool" where
  "seen_by_hook he s e m c =
     (\<exists>v. packet_view s = Some v \<and> conn_key_of c = check_key e v \<and> timestamp_ns c = he_ktime he \<and> cap_is_ipv6 c = pv_ipv6 v \<and>
        (pid c = 0 \<or> (\<exists>info. m (check_key e v) = Some info \<and> pid c = ci_pid info \<and> comm c = ci_comm info)))"

lemma hook_effect:
  assumes legal: "lru_insert_ok (he_reasm_insert he)" "skb_ok s" and wf: "kernel_wf k"
    and run: "try_capture_tls he s e k = (ok, k')"
  shows "kernel_wf k' \<and> conn_map k' = conn_map k \<and> connect_stash k' = connect_stash k \<and>
    (tls_events k' = tls_events k \<or>
     (\<exists>x c. tls_events k' = tls_events k @ [x] \<and> drain_item x = Some c \<and> seen_by_hook he s e (conn_map k) c))"
proof (cases "k' = k")
  case True
  then show ?thesis
    using wf by simp
next
  case False
  obtain v rec cont ev0 ev1 fl m where v: "packet_view s = Some v" and "sk_load s (pv_tls_start v) 6 = Some rec"
    and cont: "cont = (reasm_map k (reasm_key e v) \<noteq> None)" and acc: "record_accepted cont rec" and ev0: "scratch k = Some ev0"
    and ev1: "ev1 = fill_event he s e cont v rec k ev0"
    and tr: "track_record he cont (reasm_key e v) rec (sk_len s - pv_tls_start v) (reasm_map k) = (fl, m)"
    and run': "k' = emit he (ev1\<lparr>flags := flags ev1 OR fl\<rparr>) (k\<lparr>reasm_map := m, scratch := Some (ev1\<lparr>flags := flags ev1 OR fl\<rparr>)\<rparr>)"
    by (rule hook_run [OF run False])
  define ev where "ev = ev1\<lparr>flags := flags ev1 OR fl\<rparr>"
  have maps: "reasm_wf (reasm_map k)" "capture_wf ev0" "\<forall>key info. conn_map k key = Some info \<longrightarrow> info_wf info"
    using wf ev0 by (auto simp: kernel_wf_def)
  have rk: "key_wf (rk_conn (reasm_key e v))" "rk_dir (reasm_key e v) \<in> {0, 1}"
    using check_key_wf [OF legal(2) v] by (simp_all add: reasm_key_def)
  have m: "reasm_wf m"
    by (rule track_record_wf [OF legal(1) maps(1) rk tr])
  have "capture_wf ev1"
    unfolding ev1 by (rule fill_event_wf [OF legal(2) v maps(2,3)])
  then have ev: "capture_wf ev"
    by (simp add: ev_def capture_wf_def)
  have drain: "drain_item (emitted_bytes ev) = Some (drained ev)"
    by (rule drain_emitted_item [OF ev])
  have "unat (payload_len ev) \<le> RAW_PAYLOAD_SIZE"
    using fill_event_facts(4) [OF ev1] by (simp add: ev_def)
  then have "item_wf (emitted_bytes ev)"
    unfolding item_wf_def drain using drained_wf [OF ev] hook_event_kind [OF cont acc ev1 tr]
    by (simp add: drained_fields) (simp add: ev_def)
  then have "kernel_wf k'"
    using wf m ev by (auto simp: run' ev_def [symmetric] emit_def kernel_wf_def)
  moreover have "seen_by_hook he s e (conn_map k) (drained ev)"
    using fill_event_fields [OF ev1] v unfolding seen_by_hook_def drained_fields
    by (intro exI [of _ v]) (simp add: ev_def conn_key_of_def cap_is_ipv6_def split: option.splits)
  ultimately show ?thesis
    using drain by (simp add: run' ev_def [symmetric] emit_def)
qed

lemma kernel_do_wf:
  assumes "legal_event e" "kernel_wf k"
  shows "kernel_wf (kernel_do e k)"
proof -
  have hook: "kernel_wf (snd (try_capture_tls he s eg k))" if "lru_insert_ok (he_reasm_insert he)" "skb_ok s" for he s eg
    using hook_effect [OF that assms(2) prod.collapse [symmetric]] by blast
  show ?thesis
    using assms hook stash_entry_wf finish_connect_wf record_accept_wf
    by (cases e) (simp_all add: programs tls_ingress_def tls_egress_def case_prod_beta)
qed

interpretation kernel: step_machine kernel_start kernel_do legal_event kernel_wf
  by unfold_locales (simp_all add: kernel_start_wf kernel_do_wf)

text \<open>C6: the maps keep their types.  Whatever programs run, in whatever order and on whatever packets,
  with insertions that may fail or evict: the scratch buffer stays a whole capture, every entry
  of the connection table has addresses of sixteen bytes and a command of sixteen, every tracked
  flow has a direction bit and fewer than four segments left, and every item ever put on the
  ring buffer decodes in user space to a capture of at most 4096 payload bytes that is a wanted
  record or continues one.\<close>

theorem kernel_types_kept:
  assumes "\<forall>e \<in> set evs. legal_event e"
  shows "kernel_wf (fold kernel_do evs kernel_start)"
  by (rule kernel.run_inv [OF assms])

section \<open>Who caused what\<close>

definition sock_key_v4 :: "TaskEnv \<Rightarrow> u64 \<Rightarrow> ConnKey" where
  "sock_key_v4 te sk =
     \<lparr>ck_src_addr = read_v4 te (sk + SKC_RCV_SADDR_OFFSET), ck_dst_addr = read_v4 te (sk + SKC_DADDR_OFFSET),
      ck_src_port = fst (read_ports te sk), ck_dst_port = snd (read_ports te sk)\<rparr>"

definition sock_key_v6 :: "TaskEnv \<Rightarrow> u64 \<Rightarrow> ConnKey" where
  "sock_key_v6 te sk =
     \<lparr>ck_src_addr = read_v6 te (sk + SKC_V6_RCV_SADDR_OFFSET), ck_dst_addr = read_v6 te (sk + SKC_V6_DADDR_OFFSET),
      ck_src_port = fst (read_ports te sk), ck_dst_port = snd (read_ports te sk)\<rparr>"

text \<open>Task \<open>te\<close> enters a connect call on the socket at \<open>sk\<close>; a connect call of the task returns
  successfully on a socket with four-tuple \<open>key\<close>; the task accepts a connection \<open>key\<close>.\<close>

fun enters_connect :: "TaskEnv \<Rightarrow> u64 \<Rightarrow> KernelEvent \<Rightarrow> bool" where
  "enters_connect te sk (ConnectV4 ins te' arg0) = (te' = te \<and> arg0 = Some sk)"
| "enters_connect te sk (ConnectV6 ins te' arg0) = (te' = te \<and> arg0 = Some sk)"
| "enters_connect te sk _ = False"

fun leaves_connect :: "TaskEnv \<Rightarrow> u64 \<Rightarrow> ConnKey \<Rightarrow> KernelEvent \<Rightarrow> bool" where
  "leaves_connect te sk key (ConnectRetV4 ins te' ret) =
     (te_pid_tgid te' = te_pid_tgid te \<and> ret = 0 \<and> key = sock_key_v4 te' sk)"
| "leaves_connect te sk key (ConnectRetV6 ins te' ret) =
     (te_pid_tgid te' = te_pid_tgid te \<and> ret = 0 \<and> key = sock_key_v6 te' sk)"
| "leaves_connect te sk key _ = False"

fun accepts_conn :: "TaskEnv \<Rightarrow> ConnKey \<Rightarrow> KernelEvent \<Rightarrow> bool" where
  "accepts_conn te key (Accept ins te' sk) = (te' = te \<and> (key = sock_key_v4 te sk \<or> key = sock_key_v6 te sk))"
| "accepts_conn te key _ = False"

fun hooks :: "HookEnv \<Rightarrow> SkBuff \<Rightarrow> bool \<Rightarrow> KernelEvent \<Rightarrow> bool" where
  "hooks he s e (Ingress he' s') = (he' = he \<and> s' = s \<and> \<not> e)"
| "hooks he s e (Egress he' s') = (he' = he \<and> s' = s \<and> e)"
| "hooks he s e _ = False"

text \<open>\<open>recorded evs key info\<close>: in \<open>evs\<close>, the task that \<open>info\<close> describes has connected or accepted \<open>key\<close>.\<close>

definition stashed :: "KernelEvent list \<Rightarrow> u64 \<Rightarrow> ConnStash \<Rightarrow> bool" where
  "stashed evs p st =
     (\<exists>a x b te. evs = a @ x # b \<and> enters_connect te (st_sock_ptr st) x \<and> te_pid_tgid te = p \<and> st_info st = current_conn_info te)"

definition recorded :: "KernelEvent list \<Rightarrow> ConnKey \<Rightarrow> ConnInfo \<Rightarrow> bool" where
  "recorded evs key info =
     (\<exists>te. info = current_conn_info te \<and>
        ((\<exists>a x b y c sk. evs = a @ x # b @ y # c \<and> enters_connect te sk x \<and> leaves_connect te sk key y) \<or>
         (\<exists>a x b. evs = a @ x # b \<and> accepts_conn te key x)))"

text \<open>\<open>caused evs c\<close>: capture \<open>c\<close> is about a packet of \<open>evs\<close>; the process it names, if any, had connected
  or accepted the packet's connection before.\<close>

definition caused :: "KernelEvent list \<Rightarrow> RawTlsCapture \<Rightarrow> bool" where
  "caused evs c =
     (\<exists>a x b he s e v. evs = a @ x # b \<and> hooks he s e x \<and> packet_view s = Some v \<and>
        conn_key_of c = check_key e v \<and> timestamp_ns c = he_ktime he \<and> cap_is_ipv6 c = pv_ipv6 v \<and>
        (pid c = 0 \<or> (\<exists>info. recorded a (check_key e v) info \<and> pid c = ci_pid info \<and> comm c = ci_comm info)))"

lemma stashed_snoc: "stashed evs p st \<Longrightarrow> stashed (evs @ [e]) p st"
  unfolding stashed_def by (metis append.assoc append_Cons)

lemma recorded_snoc: "recorded evs key info \<Longrightarrow> recorded (evs @ [e]) key info"
  unfolding recorded_def by (metis append.assoc append_Cons)

lemma caused_snoc: "caused evs c \<Longrightarrow> caused (evs @ [e]) c"
  unfolding caused_def by (metis append.assoc append_Cons)

lemma stashed_new: "enters_connect te sk e \<Longrightarrow> stashed (evs @ [e]) (te_pid_tgid te) \<lparr>st_sock_ptr = sk, st_info = current_conn_info te\<rparr>"
  unfolding stashed_def by fastforce

lemma recorded_new:
  assumes "stashed evs p st" "\<And>te. te_pid_tgid te = p \<Longrightarrow> leaves_connect te (st_sock_ptr st) key e"
  shows "recorded (evs @ [e]) key (st_info st)"
proof -
  obtain a x b te where "evs = a @ x # b" "enters_connect te (st_sock_ptr st) x" "te_pid_tgid te = p" "st_info st = current_conn_info te"
    using assms(1) by (auto simp: stashed_def)
  then show ?thesis
    unfolding recorded_def using assms(2) [of te]
    by (intro exI [of _ te] conjI disjI1 exI [of _ a] exI [of _ x] exI [of _ b] exI [of _ e] exI [of _ "[]"] exI [of _ "st_sock_ptr st"]) simp_all
qed

lemma recorded_accept: "accepts_conn te key e \<Longrightarrow> recorded (evs @ [e]) key (current_conn_info te)"
  unfolding recorded_def by blast

definition log_do :: "KernelEvent \<Rightarrow> KernelEvent list \<times> Kernel \<Rightarrow> KernelEvent list \<times> Kernel" where
  "log_do e = (\<lambda>(evs, k). (evs @ [e], kernel_do e k))"

lemma log_run: "fold log_do evs (a, k) = (a @ evs, fold kernel_do evs k)"
  by (induction evs arbitrary: a k) (simp_all add: log_do_def)

definition authentic :: "KernelEvent list \<times> Kernel \<Rightarrow> bool" where
  "authentic = (\<lambda>(evs, k). kernel_wf k \<and>
     (\<forall>key info. conn_map k key = Some info \<longrightarrow> recorded evs key info) \<and>
     (\<forall>p st. connect_stash k p = Some st \<longrightarrow> stashed evs p st) \<and>
     (\<forall>x \<in> set (tls_events k). \<exists>c. drain_item x = Some c \<and> caused evs c))"

lemma authentic_mono:
  assumes "authentic (evs, k)" "kernel_wf k'"
    and "\<And>key info. conn_map k' key = Some info \<Longrightarrow> conn_map k key = Some info \<or> recorded (evs @ [e]) key info"
    and "\<And>p st. connect_stash k' p = Some st \<Longrightarrow> connect_stash k p = Some st \<or> stashed (evs @ [e]) p st"
    and "\<And>x. x \<in> set (tls_events k') \<Longrightarrow> x \<in> set (tls_events k) \<or> (\<exists>c. drain_item x = Some c \<and> caused (evs @ [e]) c)"
  shows "authentic (evs @ [e], k')"
  using assms unfolding authentic_def prod.case by (meson stashed_snoc recorded_snoc caused_snoc)

lemma entry_authentic:
  assumes "authentic (evs, k)" "lru_insert_ok ins" "task_ok te" "\<And>sk. arg0 = Some sk \<Longrightarrow> enters_connect te sk e"
  shows "authentic (evs @ [e], snd (stash_connect_entry ins te arg0 k))"
proof (rule authentic_mono [OF assms(1)])
  show "kernel_wf (snd (stash_connect_entry ins te arg0 k))"
    using assms(1) stash_entry_wf [OF assms(2,3)] by (simp add: authentic_def)
  show "connect_stash k p = Some st \<or> stashed (evs @ [e]) p st"
    if "connect_stash (snd (stash_connect_entry ins te arg0 k)) p = Some st" for p st
    using that stashed_new [OF assms(4)] by (auto simp: stash_connect_entry_def dest!: lru_insert_lookup [OF assms(2)] split: option.splits)
qed (auto simp: stash_connect_entry_def split: option.splits)

lemma return_authentic:
  assumes "authentic (evs, k)" "lru_insert_ok ins" "task_ok te"
  shows "authentic (evs @ [ConnectRetV4 ins' te ret], snd (finish_connect_v4 ins te ret k))"
    "authentic (evs @ [ConnectRetV6 ins' te ret], snd (finish_connect_v6 ins te ret k))"
proof -
  have k: "kernel_wf k" "\<And>p st. connect_stash k p = Some st \<Longrightarrow> stashed evs p st"
    using assms(1) by (auto simp: authentic_def)
  let ?e4 = "ConnectRetV4 ins' te ret" and ?e6 = "ConnectRetV6 ins' te ret"
  have new: "recorded (evs @ [?e4]) (sock_key_v4 te (st_sock_ptr st)) (st_info st)"
    "recorded (evs @ [?e6]) (sock_key_v6 te (st_sock_ptr st)) (st_info st)"
    if "connect_stash k (te_pid_tgid te) = Some st" "ret = 0" for st
    using that by (auto intro!: recorded_new [OF k(2)])
  show "authentic (evs @ [?e4], snd (finish_connect_v4 ins te ret k))"
  proof (rule authentic_mono [OF assms(1) finish_connect_wf(1) [OF assms(2,3) k(1)]])
    show "conn_map k key = Some info \<or> recorded (evs @ [?e4]) key info"
      if "conn_map (snd (finish_connect_v4 ins te ret k)) key = Some info" for key info
      using that new(1) by (auto simp: finish_connect_v4_def sock_key_v4_def Let_def case_prod_beta dest!: lru_insert_lookup [OF assms(2)] split: option.splits if_splits)
  qed (auto simp: finish_connect_v4_def Let_def case_prod_beta dest!: bpf_remove_lookup split: option.splits if_splits)
  show "authentic (evs @ [?e6], snd (finish_connect_v6 ins te ret k))"
  proof (rule authentic_mono [OF assms(1) finish_connect_wf(2) [OF assms(2,3) k(1)]])
    show "conn_map k key = Some info \<or> recorded (evs @ [?e6]) key info"
      if "conn_map (snd (finish_connect_v6 ins te ret k)) key = Some info" for key info
      using that new(2) by (auto simp: finish_connect_v6_def sock_key_v6_def Let_def case_prod_beta dest!: lru_insert_lookup [OF assms(2)] split: option.splits if_splits)
  qed (auto simp: finish_connect_v6_def Let_def case_prod_beta dest!: bpf_remove_lookup split: option.splits if_splits)
qed

lemma accept_authentic:
  assumes "authentic (evs, k)" "lru_insert_ok ins" "task_ok te"
  shows "authentic (evs @ [Accept ins' te sk], snd (try_record_accept ins te sk k))"
proof (rule authentic_mono [OF assms(1)])
  let ?e = "Accept ins' te sk"
  show "kernel_wf (snd (try_record_accept ins te sk k))"
    using assms(1) record_accept_wf [OF assms(2,3)] by (simp add: authentic_def)
  have new: "recorded (evs @ [?e]) (sock_key_v4 te sk) (current_conn_info te)" "recorded (evs @ [?e]) (sock_key_v6 te sk) (current_conn_info te)"
    by (simp_all add: recorded_accept)
  show "conn_map k key = Some info \<or> recorded (evs @ [?e]) key info"
    if "conn_map (snd (try_record_accept ins te sk k)) key = Some info" for key info
    using that new by (auto simp: try_record_accept_def sock_key_v4_def sock_key_v6_def Let_def case_prod_beta
        dest!: lru_insert_lookup [OF assms(2)] split: option.splits if_splits)
qed (auto simp: try_record_accept_def Let_def case_prod_beta split: option.splits if_splits)

lemma hook_authentic:
  assumes "authentic (evs, k)" "lru_insert_ok (he_reasm_insert he)" "skb_ok s" "hooks he s eg e"
  shows "authentic (evs @ [e], snd (try_capture_tls he s eg k))"
proof -
  let ?k = "snd (try_capture_tls he s eg k)"
  have wf: "kernel_wf k" and rec: "\<And>key info. conn_map k key = Some info \<Longrightarrow> recorded evs key info"
    using assms(1) by (simp_all add: authentic_def)
  have eff: "kernel_wf ?k \<and> conn_map ?k = conn_map k \<and> connect_stash ?k = connect_stash k \<and>
    (tls_events ?k = tls_events k \<or>
     (\<exists>x c. tls_events ?k = tls_events k @ [x] \<and> drain_item x = Some c \<and> seen_by_hook he s eg (conn_map k) c))"
    by (rule hook_effect [OF assms(2,3) wf prod.collapse [symmetric]])
  have "caused (evs @ [e]) c" if "seen_by_hook he s eg (conn_map k) c" for c
    using that assms(4) rec unfolding seen_by_hook_def caused_def by blast
  then show ?thesis
    using eff by (intro authentic_mono [OF assms(1)]) auto
qed

lemma authentic_step:
  assumes "legal_event e" "authentic s"
  shows "authentic (log_do e s)"
  using assms
  by (cases s; cases e) (simp_all add: log_do_def programs tls_ingress_def tls_egress_def case_prod_beta
      entry_authentic return_authentic accept_authentic hook_authentic)

lemma authentic_start: "authentic ([], kernel_start)"
  using kernel_start_wf by (simp add: authentic_def kernel_start_def)

interpretation attributed: step_machine "([], kernel_start)" log_do legal_event authentic
  by unfold_locales (simp_all add: authentic_start authentic_step)

lemma run_authentic: "\<forall>e \<in> set evs. legal_event e \<Longrightarrow> authentic (evs, fold kernel_do evs kernel_start)"
  using attributed.run_inv [of evs] by (simp add: log_run)

text \<open>C5: no process is blamed wrongly.  Whatever programs run and in whatever order, with insertions
  that fail or evict and process ids used again: a capture on the ring buffer is about a packet
  that passed the hook, with its addresses and ports seen from the local end and the hook's
  time; and if it names a process, then before the packet that process had either accepted a
  connection with the packet's four-tuple, or entered a connect call after which a call of a task
  with its thread id returned successfully on a socket with that four-tuple.\<close>

theorem attribution_authentic:
  assumes "\<forall>e \<in> set evs. legal_event e" "x \<in> set (tls_events (fold kernel_do evs kernel_start))"
  shows "\<exists>c. drain_item x = Some c \<and> caused evs c"
  using run_authentic [OF assms(1)] assms(2) by (simp add: authentic_def)

section \<open>A connection and a packet on it\<close>

definition connected_kernel :: Kernel where
  "connected_kernel =
     tcp_v4_connect_ret (\<lambda>k v m. m(k \<mapsto> v)) sample_task 0
       (tcp_v4_connect (\<lambda>k v m. m(k \<mapsto> v)) sample_task (Some 1000) kernel_start)"

lemma connected_kernel_facts:
  "conn_map connected_kernel (v4_key [10, 0, 0, 1] [10, 0, 0, 2] 40000 443) = Some (current_conn_info sample_task)"
  "reasm_map connected_kernel = Map.empty" "scratch connected_kernel = Some default_capture" "tls_events connected_kernel = []"
proof -
  have "read_v4 sample_task (1000 + SKC_RCV_SADDR_OFFSET) = [10, 0, 0, 1] @ replicate 12 0"
    "read_v4 sample_task (1000 + SKC_DADDR_OFFSET) = [10, 0, 0, 2] @ replicate 12 0"
    "read_ports sample_task 1000 = (40000, 443)"
    using read_addrs_sock [OF sample_sock] read_ports_sock [OF sample_sock] by simp_all
  then show "conn_map connected_kernel (v4_key [10, 0, 0, 1] [10, 0, 0, 2] 40000 443) = Some (current_conn_info sample_task)"
    "reasm_map connected_kernel = Map.empty" "scratch connected_kernel = Some default_capture" "tls_events connected_kernel = []"
    by (simp_all add: connected_kernel_def programs finish_connect_v4_def stash_connect_entry_def bpf_remove_def kernel_start_def v4_key_def)
qed

definition alert_frame :: Frame4 where
  "alert_frame = sample_frame\<lparr>f_tls := [0x15, 3, 3, 0, 2, 2, 40]\<rparr>"

lemma alert_frame_ok:
  "frame_ok alert_frame" "6 \<le> length (f_tls alert_frame)" "record_accepted False (f_tls alert_frame)"
  by (simp_all add: frame_ok_def alert_frame_def sample_frame_def record_accepted_def hdr_consts be16_def)

definition sample_events :: "KernelEvent list" where
  "sample_events =
     [ConnectV4 (\<lambda>k v m. m(k \<mapsto> v)) sample_task (Some 1000), ConnectRetV4 (\<lambda>k v m. m(k \<mapsto> v)) sample_task 0,
      Egress sample_hook (skb_of (enc_frame alert_frame) 24)]"

lemma lru_insert_default: "lru_insert_ok (\<lambda>k v m. m(k \<mapsto> v))"
  unfolding lru_insert_ok_def by (intro allI disjI2 exI [of _ UNIV]) (simp add: restrict_map_def)

lemma sample_task_ok: "task_ok sample_task"
  by (auto simp: task_ok_def sample_task_def COMM_SIZE_def be16_bytes_def split: if_splits)

lemma sample_events_legal: "\<forall>e \<in> set sample_events. legal_event e"
  using skb_of_ok sample_task_ok by (simp add: sample_events_def sample_hook_def lru_insert_default)

lemma sample_events_run:
  "map drain_item (tls_events (fold kernel_do sample_events kernel_start)) =
     [Some (frame_capture 5 True alert_frame (current_conn_info sample_task))]"
proof -
  obtain ok k' where run: "try_capture_tls sample_hook (skb_of (enc_frame alert_frame) 24) True connected_kernel = (ok, k')"
    by fastforce
  have key: "local_key True alert_frame = v4_key [10, 0, 0, 1] [10, 0, 0, 2] 40000 443"
    by (simp add: local_key_def alert_frame_def sample_frame_def)
  have "map drain_item (tls_events k') = map drain_item (tls_events connected_kernel) @
      [Some (frame_capture (he_ktime sample_hook) True alert_frame (current_conn_info sample_task))]"
    using frame_head(1) [OF alert_frame_ok(1,2) order_refl alert_frame_ok(3) _ _ default_capture_wf _ _ _ run, of "Some (current_conn_info sample_task)"]
      connected_kernel_facts by (simp add: key sample_hook_def current_conn_info_def sample_task_def)
  moreover have "fold kernel_do sample_events kernel_start = k'"
    using run by (simp add: sample_events_def connected_kernel_def tls_egress_def)
  ultimately show ?thesis
    using connected_kernel_facts(4) by (simp add: sample_hook_def)
qed

lemma kernel_types_kept_witness: "kernel_wf (fold kernel_do sample_events kernel_start)"
  by (rule kernel_types_kept [OF sample_events_legal])

lemma attribution_authentic_witness:
  "\<exists>x c. x \<in> set (tls_events (fold kernel_do sample_events kernel_start)) \<and> drain_item x = Some c \<and>
     caused sample_events c \<and> pid c = 42"
proof -
  obtain x where x: "tls_events (fold kernel_do sample_events kernel_start) = [x]"
    "drain_item x = Some (frame_capture 5 True alert_frame (current_conn_info sample_task))"
    using sample_events_run by auto
  then have "x \<in> set (tls_events (fold kernel_do sample_events kernel_start))"
    by simp
  moreover have "pid (frame_capture 5 True alert_frame (current_conn_info sample_task)) = 42"
    by (simp add: frame_capture_def frame_event_def Let_def current_conn_info_def sample_task_def)
  ultimately show ?thesis
    using attribution_authentic [OF sample_events_legal] x(2) by fastforce
qed

end
