(* ===== verification/Provenance.thy ===== *)
theory Provenance
  imports Kernel_Runs Worker
begin

text \<open>
  Where a line of output comes from: the kernel half (\<open>Kernel_Runs\<close>) and the worker (\<open>Worker\<close>)
  together.  Nothing is said of the order in which captures reach the worker, or how many of them:
  the statement is about whatever does.
\<close>

lemma conn_of_capture:
  assumes "conn_key_of c = key"
  shows "src_addr c = ck_src_addr key" "dst_addr c = ck_dst_addr key" "src_port c = ck_src_port key" "dst_port c = ck_dst_port key"
  using assms by (auto simp: conn_key_of_def)



end
