(* ===== verification/Reasm_Tests.thy ===== *)
theory Reasm_Tests
  imports Reasm
begin

text \<open>
  The unit tests of \<open>crates/tls-probe-cli/src/reasm.rs\<close>, run on the model: each test is a Boolean
  with the test's name, in which every assertion is a conjunct, and is proved to hold.  A sleep is
  the difference between the times of two calls.  \<open>b"..."\<close> is \<open>bytes_of_str\<close> of the literal.
\<close>

definition make_capture :: "u32 \<Rightarrow> bytes \<Rightarrow> u8 \<Rightarrow> RawTlsCapture" where
  "make_capture q p fl =
     default_capture\<lparr>tcp_seq := q, flags := fl, payload_len := of_nat (length p),
       payload := p @ drop (length p) (payload default_capture)\<rparr>"

lemma make_capture_fields [simp]:
  "tcp_seq (make_capture q p fl) = q" "flags (make_capture q p fl) = fl" "src_addr (make_capture q p fl) = replicate 16 0"
  "dst_addr (make_capture q p fl) = replicate 16 0" "src_port (make_capture q p fl) = 0" "dst_port (make_capture q p fl) = 0"
  by (simp_all add: make_capture_def default_capture_def ADDR_SIZE_def)

lemma make_capture_slice [simp]: "length p \<le> 4096 \<Longrightarrow> payload_slice (make_capture q p fl) = p"
  by (simp add: payload_slice_def make_capture_def RAW_PAYLOAD_SIZE_def unat_of_nat16)

lemma slice_of_ports [simp]:
  "payload_slice (c\<lparr>src_port := a\<rparr>) = payload_slice c" "payload_slice (c\<lparr>dst_port := a\<rparr>) = payload_slice c"
  by (simp_all add: payload_slice_def)

lemma flow_key_less:
  "FlowKey a b c d e < FlowKey a' b' c' d' e' \<longleftrightarrow> (a, b, c, d, e) < (a', b', c', d', e')"
  by (simp add: less_FlowKey_def fk_tuple_def)

lemmas test_steps = reasm_insert_def insert_head_def insert_continuation_def check_completion_def finalize_entry_def
  cleanup_if_over_limit_def reassembler_new_def sweep_expired_def expired_def elapsed_def record_total_def
  has_flag_def flag_defs flow_key_of_def kv_modify_def kv_remove_def flow_key_less bytes_of_str_def be16_def

definition in_order_two_fragment_completion :: bool where
  "in_order_two_fragment_completion =
     (let reasm = reassembler_new;
          frag1_payload = [0x16, 0x03, 0x03, 0x00, 0x0a] @ bytes_of_str ''hello'';
          frag2_payload = bytes_of_str '' worl'';
          cap1 = make_capture 100 frag1_payload FLAG_FRAGMENT;
          cap2 = make_capture 110 frag2_payload FLAG_CONTINUATION;
          (r1, reasm) = reasm_insert 0 cap1 reasm;
          (result, reasm) = reasm_insert 0 cap2 reasm
      in r1 = None \<and>
         (case result of
            None \<Rightarrow> False
          | Some joined \<Rightarrow> length (ar_buffer joined) = 15 \<and> \<not> ar_truncated joined))"

lemma in_order_two_fragment_completion_holds: in_order_two_fragment_completion
  by (simp add: in_order_two_fragment_completion_def test_steps Let_def)

definition out_of_order_then_head_arrives :: bool where
  "out_of_order_then_head_arrives =
     (let reasm = reassembler_new;
          cap_cont = make_capture 110 (bytes_of_str '' worl'') FLAG_CONTINUATION;
          (r1, reasm) = reasm_insert 0 cap_cont reasm;
          frag1_payload = [0x16, 0x03, 0x03, 0x00, 0x0a] @ bytes_of_str ''hello'';
          cap_head = make_capture 100 frag1_payload FLAG_FRAGMENT;
          (result, reasm) = reasm_insert 0 cap_head reasm
      in r1 = None \<and>
         (case result of
            None \<Rightarrow> False
          | Some joined \<Rightarrow> length (ar_buffer joined) = 15 \<and> \<not> ar_truncated joined))"

lemma out_of_order_then_head_arrives_holds: out_of_order_then_head_arrives
  by (simp add: out_of_order_then_head_arrives_def test_steps Let_def)

definition retransmit_dedup :: bool where
  "retransmit_dedup =
     (let reasm = reassembler_new;
          frag1_payload = [0x16, 0x03, 0x03, 0x00, 0x0a] @ bytes_of_str ''hello'';
          cap1 = make_capture 100 frag1_payload FLAG_FRAGMENT;
          cap1_dup = make_capture 100 frag1_payload FLAG_CONTINUATION;
          (r1, reasm) = reasm_insert 0 cap1 reasm;
          (r2, reasm) = reasm_insert 0 cap1_dup reasm
      in r1 = None \<and> r2 = None)"

lemma retransmit_dedup_holds: retransmit_dedup
  by (simp add: retransmit_dedup_def test_steps Let_def)

definition gap_prevents_completion :: bool where
  "gap_prevents_completion =
     (let reasm = reassembler_new;
          frag1_payload = [0x16, 0x03, 0x03, 0x00, 0x0f] @ bytes_of_str ''hello'';
          cap1 = make_capture 100 frag1_payload FLAG_FRAGMENT;
          cap2 = make_capture 115 (bytes_of_str ''frag2'') FLAG_CONTINUATION;
          cap3 = make_capture 130 (bytes_of_str ''frag3'') FLAG_CONTINUATION;
          (r1, reasm) = reasm_insert 0 cap1 reasm;
          (r2, reasm) = reasm_insert 0 cap2 reasm;
          (r3, reasm) = reasm_insert 0 cap3 reasm
      in r1 = None \<and> r2 = None \<and> r3 = None \<and> length (flows reasm) = 1)"

lemma gap_prevents_completion_holds: gap_prevents_completion
  by (simp add: gap_prevents_completion_def test_steps Let_def)

definition segment_cap_triggers_truncated :: bool where
  "segment_cap_triggers_truncated =
     (let reasm = reassembler_new;
          frag1_payload = [0x16, 0x03, 0x03, 0x00, 0x20] @ bytes_of_str ''seg1'';
          cap1 = make_capture 100 frag1_payload FLAG_FRAGMENT;
          cap2 = make_capture 109 (bytes_of_str ''seg2'') FLAG_CONTINUATION;
          cap3 = make_capture 113 (bytes_of_str ''seg3'') FLAG_CONTINUATION;
          cap4 = make_capture 117 (bytes_of_str ''seg4'') FLAG_CONTINUATION;
          (r1, reasm) = reasm_insert 0 cap1 reasm;
          (r2, reasm) = reasm_insert 0 cap2 reasm;
          (r3, reasm) = reasm_insert 0 cap3 reasm;
          (result, reasm) = reasm_insert 0 cap4 reasm
      in r1 = None \<and> r2 = None \<and> r3 = None \<and>
         (case result of
            None \<Rightarrow> False
          | Some joined \<Rightarrow> ar_truncated joined))"

lemma segment_cap_triggers_truncated_holds: segment_cap_triggers_truncated
  by (simp add: segment_cap_triggers_truncated_def test_steps Let_def)

definition lru_capacity :: bool where
  "lru_capacity =
     (let reasm = reassembler_new\<lparr>max_flows := 2\<rparr>;
          frag1_payload = [0x16, 0x03, 0x03, 0x00, 0x10] @ bytes_of_str ''a'';
          cap1 = make_capture 100 frag1_payload FLAG_FRAGMENT;
          cap2 = (make_capture 101 frag1_payload FLAG_FRAGMENT)\<lparr>src_port := 1\<rparr>;
          cap3 = (make_capture 100 frag1_payload FLAG_FRAGMENT)\<lparr>src_port := 2\<rparr>;
          (_, reasm) = reasm_insert 0 cap1 reasm;
          (_, reasm2) = reasm_insert 0 cap2 reasm;
          (_, reasm3) = reasm_insert 0 cap3 reasm2
      in length (flows reasm2) = 2 \<and> length (flows reasm3) = 2)"

lemma lru_capacity_holds: lru_capacity
  by (simp add: lru_capacity_def test_steps Let_def)

definition timeout_sweep :: bool where
  "timeout_sweep =
     (let reasm = reassembler_new\<lparr>timeout := 10000000\<rparr>;
          frag1_payload = [0x16, 0x03, 0x03, 0x00, 0x10] @ bytes_of_str ''data'';
          cap = make_capture 100 frag1_payload FLAG_FRAGMENT;
          (_, reasm1) = reasm_insert 0 cap reasm;
          (expired_records, reasm2) = sweep_expired 20000000 reasm1
      in length (flows reasm1) = 1 \<and> length (flows reasm2) = 0 \<and> length expired_records = 1 \<and> ar_truncated (expired_records ! 0))"

lemma timeout_sweep_holds: timeout_sweep
  by (simp add: timeout_sweep_def test_steps Let_def)

definition orphan_only_entry_expires_silently :: bool where
  "orphan_only_entry_expires_silently =
     (let reasm = reassembler_new\<lparr>timeout := 10000000\<rparr>;
          cap = make_capture 200 (bytes_of_str ''continuation'') FLAG_CONTINUATION;
          (_, reasm1) = reasm_insert 0 cap reasm;
          (expired_records, reasm2) = sweep_expired 20000000 reasm1
      in length (flows reasm1) = 1 \<and> length (flows reasm2) = 0 \<and> length expired_records = 0)"

lemma orphan_only_entry_expires_silently_holds: orphan_only_entry_expires_silently
  by (simp add: orphan_only_entry_expires_silently_def test_steps Let_def)

definition direction_separation_egress_vs_ingress :: bool where
  "direction_separation_egress_vs_ingress =
     (let reasm = reassembler_new;
          frag1_payload = [0x16, 0x03, 0x03, 0x00, 0x0a] @ bytes_of_str ''hello'';
          cap_egress = (make_capture 100 frag1_payload FLAG_FRAGMENT)\<lparr>src_port := 8080, dst_port := 443\<rparr>;
          cap_ingress = (make_capture 100 frag1_payload (FLAG_FRAGMENT OR FLAG_INGRESS))
            \<lparr>src_port := 8080, dst_port := 443\<rparr>;
          (r1, reasm) = reasm_insert 0 cap_egress reasm;
          (r2, reasm) = reasm_insert 0 cap_ingress reasm
      in r1 = None \<and> r2 = None \<and> length (flows reasm) = 2)"

lemma direction_separation_egress_vs_ingress_holds: direction_separation_egress_vs_ingress
  by (simp add: direction_separation_egress_vs_ingress_def test_steps Let_def)

definition fast_path_flag_ingress_only :: bool where
  "fast_path_flag_ingress_only =
     (let reasm = reassembler_new;
          cap = make_capture 100 (bytes_of_str ''test'') FLAG_INGRESS;
          (result, reasm) = reasm_insert 0 cap reasm
      in result = None \<and> length (flows reasm) = 0)"

lemma fast_path_flag_ingress_only_holds: fast_path_flag_ingress_only
  by (simp add: fast_path_flag_ingress_only_def test_steps Let_def)

end
