(* ===== verification/Parser_Tests.thy ===== *)
theory Parser_Tests
  imports Hello_Parser
begin

text \<open>
  The unit tests of \<open>crates/tls-probe-parser/src/lib.rs\<close>, run on the model: each test is a Boolean
  with the test's name, in which every assertion is a conjunct, and is proved to hold.  The payloads
  are built as the tests build them, with the lengths filled in afterwards; each is shown to be the
  wire form \<open>enc_client_hello\<close> or \<open>enc_server_hello\<close> of a hello, and the parser to return that hello.
\<close>

text \<open>\<open>payload[pos] = (n >> 8) as u8; payload[pos + 1] = n as u8\<close>, and the three-byte form.\<close>

definition put16 :: "nat \<Rightarrow> nat \<Rightarrow> bytes \<Rightarrow> bytes" where
  "put16 pos n pl = pl[pos := of_nat (n div 256 mod 256), pos + 1 := of_nat (n mod 256)]"

definition put24 :: "nat \<Rightarrow> nat \<Rightarrow> bytes \<Rightarrow> bytes" where
  "put24 pos n pl =
     pl[pos := of_nat (n div 65536 mod 256), pos + 1 := of_nat (n div 256 mod 256),
       pos + 2 := of_nat (n mod 256)]"

definition build_client_hello :: bytes where
  "build_client_hello =
     (let pl = [0x16, 0x03, 0x01];
          length_pos = length pl;
          pl = pl @ [0x00, 0x00] @ [0x01];
          hs_length_pos = length pl;
          pl = pl @ [0x00, 0x00, 0x00];
          hello_start = length pl;
          pl = pl @ [0x03, 0x03] @ replicate 32 0 @ [0x00] @ [0x00, 0x06] @
            [0x13, 0x01, 0x13, 0x02, 0x13, 0x03] @ [0x01, 0x00];
          ext_start = length pl;
          pl = pl @ [0x00, 0x00] @ [0x00, 0x2b, 0x00, 0x03, 0x02, 0x03, 0x04] @
            [0x00, 0x0a, 0x00, 0x04, 0x00, 0x02, 0x00, 0x1d];
          pl = put16 ext_start (length pl - ext_start - 2) pl;
          pl = put24 hs_length_pos (length pl - hello_start) pl
      in put16 length_pos (length pl - 5) pl)"

definition build_server_hello :: bytes where
  "build_server_hello =
     (let pl = [0x16, 0x03, 0x03];
          length_pos = length pl;
          pl = pl @ [0x00, 0x00] @ [0x02];
          hs_length_pos = length pl;
          pl = pl @ [0x00, 0x00, 0x00];
          hello_start = length pl;
          pl = pl @ [0x03, 0x03] @ replicate 32 0 @ [0x00] @ [0x13, 0x01] @ [0x00];
          ext_start = length pl;
          pl = pl @ [0x00, 0x00] @ [0x00, 0x2b, 0x00, 0x02, 0x03, 0x04] @
            [0x00, 0x33, 0x00, 0x02, 0x00, 0x1d];
          pl = put16 ext_start (length pl - ext_start - 2) pl;
          pl = put24 hs_length_pos (length pl - hello_start) pl
      in put16 length_pos (length pl - 5) pl)"

definition is_err :: "('e, 'a) run \<Rightarrow> bool" where
  "is_err r = (case r of Fail _ \<Rightarrow> True | _ \<Rightarrow> False)"

definition unwrap_and :: "('e, 'a) run \<Rightarrow> ('a \<Rightarrow> bool) \<Rightarrow> bool" where
  "unwrap_and r P = (case r of Ret x \<Rightarrow> P x | _ \<Rightarrow> False)"

lemmas payload_steps = put16_def put24_def Let_def list_update_append enc_client_hello_def
  enc_server_hello_def enc_exts_def enc_ext_def enc_u16s_def be16_bytes_def

lemmas parsed_steps = is_err_def unwrap_and_def client_fields_def client_base_def server_fields_def
  server_base_def last_body_def ext_of_def ext_type_from_def

lemma parse_tls_payload_ok:
  "parse_client_hello p = Ret h \<Longrightarrow> 44 \<le> length p \<Longrightarrow>
     parse_tls_payload p True = Ret (ClientHelloA (be16 (p ! 1) (p ! 2)) h)"
  "parse_server_hello p = Ret sh \<Longrightarrow> 44 \<le> length p \<Longrightarrow>
     parse_tls_payload p False = Ret (ServerHelloA (be16 (p ! 1) (p ! 2)) sh)"
  by (simp_all add: parse_tls_payload_def hello_lens rd16_in numeral_2_eq_2)

lemma build_client_hello_enc:
  "build_client_hello = enc_client_hello [22, 3, 1, 0, 66, 1, 0, 0, 62] 0x0303 (replicate 32 0) []
     [0x1301, 0x1302, 0x1303] [0] [(0x2b, [2, 3, 4]), (0x0a, [0, 2, 0, 0x1d])]"
  by (simp add: build_client_hello_def payload_steps)

lemma build_server_hello_enc:
  "build_server_hello = enc_server_hello [22, 3, 3, 0, 56, 2, 0, 0, 52] 0x0303 (replicate 32 0) []
     0x1301 0 [(0x2b, [3, 4]), (0x33, [0, 0x1d])]"
  by (simp add: build_server_hello_def payload_steps)

lemma length_payloads: "44 \<le> length build_client_hello" "44 \<le> length build_server_hello"
  by (simp_all add: build_client_hello_enc build_server_hello_enc payload_steps)

lemma parse_build_client_hello:
  "\<exists>h. parse_client_hello build_client_hello = Ret h \<and> ch_legacy_version h = 0x0303 \<and>
     ch_cipher_suites h = [0x1301, 0x1302, 0x1303] \<and> ch_supported_versions h = [0x0304] \<and>
     ch_supported_groups h = [0x001d]"
  unfolding build_client_hello_enc
  by (subst client_hello_parsed) (simp_all add: hello_sizes_def exts_fit_def payload_steps parsed_steps
      list8_of_def list16_of_def be16_def)

lemma parse_build_server_hello:
  "\<exists>h. parse_server_hello build_server_hello = Ret h \<and> sh_legacy_version h = 0x0303 \<and>
     sh_cipher_suite h = 0x1301 \<and> sh_negotiated_version h = Some 0x0304 \<and>
     sh_key_share_group h = Some 0x001d"
  unfolding build_server_hello_enc
  by (subst server_hello_parsed) (simp_all add: hello_sizes_def exts_fit_def payload_steps parsed_steps be16_def)

definition parse_client_hello_basic :: bool where
  "parse_client_hello_basic =
     unwrap_and (parse_tls_payload build_client_hello True) (\<lambda>analysis.
       analysis_is_client_hello analysis \<and>
       effective_version analysis = 0x0304 \<and>
       cipher_suites analysis = [0x1301, 0x1302, 0x1303] \<and>
       key_exchange_groups analysis = [0x001d])"

lemma parse_client_hello_basic_holds: parse_client_hello_basic
  using parse_build_client_hello parse_tls_payload_ok length_payloads
  by (fastforce simp: parse_client_hello_basic_def unwrap_and_def)

definition parse_server_hello_basic :: bool where
  "parse_server_hello_basic =
     unwrap_and (parse_tls_payload build_server_hello False) (\<lambda>analysis.
       \<not> analysis_is_client_hello analysis \<and>
       effective_version analysis = 0x0304 \<and>
       cipher_suites analysis = [0x1301] \<and>
       key_exchange_groups analysis = [0x001d])"

lemma parse_server_hello_basic_holds: parse_server_hello_basic
  using parse_build_server_hello parse_tls_payload_ok length_payloads
  by (fastforce simp: parse_server_hello_basic_def unwrap_and_def)

definition parse_too_short :: bool where
  "parse_too_short = is_err (parse_tls_payload [0x16, 0x03, 0x01, 0x00] True)"

lemma parse_too_short_holds: parse_too_short
  by (simp add: parse_too_short_def is_err_def parse_tls_payload_def hello_lens)

definition client_hello_extracts_versions :: bool where
  "client_hello_extracts_versions =
     unwrap_and (parse_client_hello build_client_hello) (\<lambda>result. ch_supported_versions result = [0x0304])"

lemma client_hello_extracts_versions_holds: client_hello_extracts_versions
  using parse_build_client_hello by (auto simp: client_hello_extracts_versions_def unwrap_and_def)

definition client_hello_extracts_groups :: bool where
  "client_hello_extracts_groups =
     unwrap_and (parse_client_hello build_client_hello) (\<lambda>result. ch_supported_groups result = [0x001d])"

lemma client_hello_extracts_groups_holds: client_hello_extracts_groups
  using parse_build_client_hello by (auto simp: client_hello_extracts_groups_def unwrap_and_def)

definition server_hello_extracts_cipher :: bool where
  "server_hello_extracts_cipher =
     unwrap_and (parse_server_hello build_server_hello) (\<lambda>result. sh_cipher_suite result = 0x1301)"

lemma server_hello_extracts_cipher_holds: server_hello_extracts_cipher
  using parse_build_server_hello by (auto simp: server_hello_extracts_cipher_def unwrap_and_def)

definition server_hello_extracts_key_share :: bool where
  "server_hello_extracts_key_share =
     unwrap_and (parse_server_hello build_server_hello) (\<lambda>result. sh_key_share_group result = Some 0x001d)"

lemma server_hello_extracts_key_share_holds: server_hello_extracts_key_share
  using parse_build_server_hello by (auto simp: server_hello_extracts_key_share_def unwrap_and_def)

definition server_hello_extracts_negotiated_version :: bool where
  "server_hello_extracts_negotiated_version =
     unwrap_and (parse_server_hello build_server_hello)
       (\<lambda>result. sh_negotiated_version result = Some 0x0304)"

lemma server_hello_extracts_negotiated_version_holds: server_hello_extracts_negotiated_version
  using parse_build_server_hello by (auto simp: server_hello_extracts_negotiated_version_def unwrap_and_def)

definition client_hello_legacy_version :: bool where
  "client_hello_legacy_version =
     unwrap_and (parse_client_hello build_client_hello) (\<lambda>result. ch_legacy_version result = 0x0303)"

lemma client_hello_legacy_version_holds: client_hello_legacy_version
  using parse_build_client_hello by (auto simp: client_hello_legacy_version_def unwrap_and_def)

definition server_hello_legacy_version :: bool where
  "server_hello_legacy_version =
     unwrap_and (parse_server_hello build_server_hello) (\<lambda>result. sh_legacy_version result = 0x0303)"

lemma server_hello_legacy_version_holds: server_hello_legacy_version
  using parse_build_server_hello by (auto simp: server_hello_legacy_version_def unwrap_and_def)

definition legacy_payload :: bytes where
  "legacy_payload =
     (let pl = [0x16, 0x03, 0x01];
          length_pos = length pl;
          pl = pl @ [0x00, 0x00] @ [0x01];
          hs_length_pos = length pl;
          pl = pl @ [0x00, 0x00, 0x00];
          hello_start = length pl;
          pl = pl @ [0x03, 0x03] @ replicate 32 0 @ [0x00] @ [0x00, 0x06] @
            [0x13, 0x01, 0x13, 0x02, 0x13, 0x03] @ [0x01, 0x00];
          ext_start = length pl;
          pl = pl @ [0x00, 0x00] @ [0x00, 0x0a, 0x00, 0x04, 0x00, 0x02, 0x00, 0x1d];
          pl = put16 ext_start (length pl - ext_start - 2) pl;
          pl = put24 hs_length_pos (length pl - hello_start) pl
      in put16 length_pos (length pl - 5) pl)"

definition client_hello_without_supported_versions_falls_back_to_legacy :: bool where
  "client_hello_without_supported_versions_falls_back_to_legacy =
     unwrap_and (parse_tls_payload legacy_payload True) (\<lambda>result. effective_version result = 0x0303)"

lemma legacy_payload_enc:
  "legacy_payload = enc_client_hello [22, 3, 1, 0, 59, 1, 0, 0, 55] 0x0303 (replicate 32 0) []
     [0x1301, 0x1302, 0x1303] [0] [(0x0a, [0, 2, 0, 0x1d])]"
  by (simp add: legacy_payload_def payload_steps)

lemma parse_legacy_payload:
  "\<exists>h. parse_client_hello legacy_payload = Ret h \<and> ch_legacy_version h = 0x0303 \<and>
     ch_supported_versions h = []"
  unfolding legacy_payload_enc
  by (subst client_hello_parsed) (simp_all add: hello_sizes_def exts_fit_def payload_steps parsed_steps)

lemma length_legacy_payload: "44 \<le> length legacy_payload"
  by (simp add: legacy_payload_enc payload_steps)

lemma client_hello_without_supported_versions_falls_back_to_legacy_holds:
  client_hello_without_supported_versions_falls_back_to_legacy
  using parse_legacy_payload parse_tls_payload_ok(1) [OF _ length_legacy_payload]
  by (fastforce simp: client_hello_without_supported_versions_falls_back_to_legacy_def unwrap_and_def)

definition ml_kem_payload :: bytes where
  "ml_kem_payload =
     (let pl = [0x16, 0x03, 0x03];
          length_pos = length pl;
          pl = pl @ [0x00, 0x00] @ [0x01];
          hs_length_pos = length pl;
          pl = pl @ [0x00, 0x00, 0x00];
          hello_start = length pl;
          pl = pl @ [0x03, 0x03] @ replicate 32 0 @ [0x00] @ [0x00, 0x06] @
            [0x13, 0x01, 0x13, 0x02, 0x13, 0x03] @ [0x01, 0x00];
          ext_start = length pl;
          pl = pl @ [0x00, 0x00] @ [0x00, 0x2b, 0x00, 0x03, 0x02, 0x03, 0x04] @
            [0x00, 0x0a, 0x00, 0x04, 0x00, 0x02, 0x00, 0x1d] @ [0x00, 0x33];
          ks_len_pos = length pl;
          pl = pl @ [0x00, 0x00];
          ks_data_start = length pl;
          pl = pl @ [0x04, 0xc1];
          ks_payload_len_pos = length pl;
          pl = pl @ [0x04, 0xb0] @ replicate 1200 0x42;
          pl = put16 ks_payload_len_pos (length pl - ks_data_start - 4) pl;
          pl = put16 ks_len_pos (length pl - ks_data_start) pl;
          pl = put16 ext_start (length pl - ext_start - 2) pl;
          pl = put24 hs_length_pos (length pl - hello_start) pl
      in put16 length_pos (length pl - 5) pl)"

definition parse_large_client_hello_with_ml_kem :: bool where
  "parse_large_client_hello_with_ml_kem =
     unwrap_and (parse_tls_payload ml_kem_payload True) (\<lambda>analysis.
           analysis_is_client_hello analysis \<and>
           cipher_suites analysis = [0x1301, 0x1302, 0x1303])"

lemma ml_kem_payload_enc:
  "ml_kem_payload = enc_client_hello [22, 3, 3, 4, 250, 1, 0, 4, 246] 0x0303 (replicate 32 0) []
     [0x1301, 0x1302, 0x1303] [0]
     [(0x2b, [2, 3, 4]), (0x0a, [0, 2, 0, 0x1d]), (0x33, [0x04, 0xc1, 0x04, 0xb0] @ replicate 1200 0x42)]"
  by (simp add: ml_kem_payload_def payload_steps)

lemma parse_ml_kem_payload:
  "\<exists>h. parse_client_hello ml_kem_payload = Ret h \<and> ch_cipher_suites h = [0x1301, 0x1302, 0x1303]"
  unfolding ml_kem_payload_enc
  by (subst client_hello_parsed) (simp_all add: hello_sizes_def exts_fit_def enc_exts_def enc_ext_def
      be16_bytes_def client_fields_def client_base_def)

lemma length_ml_kem_payload: "44 \<le> length ml_kem_payload"
  by (simp add: ml_kem_payload_enc payload_steps)

lemma parse_large_client_hello_with_ml_kem_holds: parse_large_client_hello_with_ml_kem
  using parse_ml_kem_payload parse_tls_payload_ok(1) [OF _ length_ml_kem_payload]
  by (fastforce simp: parse_large_client_hello_with_ml_kem_def unwrap_and_def)

definition truncated_payload :: bytes where
  "truncated_payload =
     (let pl = [0x16, 0x03, 0x03];
          length_pos = length pl;
          pl = pl @ [0x00, 0x00] @ [0x01];
          hs_length_pos = length pl;
          pl = pl @ [0x00, 0x05, 0x00];
          hello_start = length pl;
          pl = pl @ [0x03, 0x03] @ replicate 32 0;
          pl = put24 hs_length_pos (length pl - hello_start) pl
      in put16 length_pos (length pl - 5) pl)"

definition parse_truncated_large_hello_gracefully_fails :: bool where
  "parse_truncated_large_hello_gracefully_fails =
     is_err (parse_tls_payload truncated_payload True)"

lemma parse_truncated_large_hello_gracefully_fails_holds: parse_truncated_large_hello_gracefully_fails
  by (simp add: parse_truncated_large_hello_gracefully_fails_def truncated_payload_def payload_steps
      is_err_def parse_tls_payload_def hello_lens rd16_in parse_client_hello_def)

end
