(* ===== verification/Correlate_Tests.thy ===== *)
theory Correlate_Tests
  imports Correlate
begin

text \<open>
  The unit tests of \<open>crates/tls-probe-cli/src/correlate.rs\<close>, run on the model: each test is a
  Boolean with the test's name, in which every assertion is a conjunct, and is proved to hold for
  every iteration order of the hash map and every wall clock time \<open>now\<close> at its start.  The hello
  literals of the tests are \<open>test_client\<close> and \<open>test_server\<close>, those of the first test, with the
  fields updated in which a test differs.
\<close>

definition test_key :: ConnKey where
  "test_key =
     \<lparr>ck_src_addr = [127, 0, 0, 1, 0, 0, 0, 0, 0, 0, 0, 0, 0, 0, 0, 1],
      ck_dst_addr = [127, 0, 0, 1, 0, 0, 0, 0, 0, 0, 0, 0, 0, 0, 0, 2],
      ck_src_port = 12345, ck_dst_port = 443\<rparr>"

definition test_client :: ParsedClientHello where
  "test_client =
     \<lparr>ch_legacy_version = 0x0303, ch_random = replicate 32 0, ch_session_id = [],
      ch_cipher_suites = [0x1301], ch_compression_methods = [0], ch_extensions = [],
      ch_extension_ids = [], ch_supported_versions = [0x0304],
      ch_supported_groups = [0x001D, 0x11EC], ch_signature_algorithms = [0x0403],
      ch_signature_algorithms_cert = [], ch_key_share_groups = [0x001D, 0x11EC],
      ch_sni = Some ''example.com'', ch_alpn = [], ch_psk_offered = False,
      ch_early_data_offered = False, ch_psk_key_exchange_modes_offered = False,
      ch_session_ticket_offered = False\<rparr>"

definition test_server :: ParsedServerHello where
  "test_server =
     \<lparr>sh_legacy_version = 0x0303, sh_random = replicate 32 0, sh_session_id = [],
      sh_cipher_suite = 0x1301, sh_compression_method = 0, sh_extensions = [],
      sh_negotiated_version = Some 0x0304, sh_key_share_group = Some 0x001D,
      sh_psk_selected = False\<rparr>"

definition test_ch :: "ParsedClientHello \<Rightarrow> TlsAnalysis" where
  "test_ch ch = ClientHelloA 0x0303 ch"

definition test_sh :: "ParsedServerHello \<Rightarrow> TlsAnalysis" where
  "test_sh sh = ServerHelloA 0x0303 sh"

lemmas corr_test_steps = correlator_new_def on_client_hello_def on_server_hello_def on_alert_def
  on_certificate_request_def on_client_certificate_def corr_sweep_expired_def summary_of_def
  build_negotiation_def failed_negotiation_def offered_infos_def group_info_def
  correlate_tls_version_name_def is_grease_def test_client_def test_server_def test_ch_def
  test_sh_def kv_modify_def kv_remove_def hm_insert_def

definition join_ch_to_sh_negotiation :: "(pending \<Rightarrow> pending) \<Rightarrow> u64 \<Rightarrow> bool" where
  "join_ch_to_sh_negotiation iter now =
     (let c0 = correlator_new;
          ch = test_client;
          (r1, c1) = on_client_hello iter now test_key (test_ch ch) c0;
          sh = test_server;
          (neg, _) = on_server_hello test_key (test_sh sh) c1
      in r1 = None \<and>
         (case neg of
            None \<Rightarrow> False
          | Some neg \<Rightarrow>
            ng_outcome neg = ''negotiated'' \<and>
            ng_client_max_version neg = ''TLS 1.3'' \<and>
            map_option gi_id (ng_selected_group neg) = Some 0x001D \<and>
            length (ng_client_offered_groups neg) = 2 \<and>
            list_ex (\<lambda>g. gi_id g = 0x001D) (ng_client_offered_groups neg) \<and>
            list_ex (\<lambda>g. gi_id g = 0x11EC) (ng_client_offered_groups neg) \<and>
            ng_client_sni neg = Some ''example.com''))"

lemma join_ch_to_sh_negotiation_holds: "join_ch_to_sh_negotiation iter now"
  by (simp add: join_ch_to_sh_negotiation_def corr_test_steps Let_def)

definition downgrade_detection :: "(pending \<Rightarrow> pending) \<Rightarrow> u64 \<Rightarrow> bool" where
  "downgrade_detection iter now =
     (let c0 = correlator_new;
          ch = test_client
            \<lparr>ch_supported_groups := [], ch_signature_algorithms := [],
             ch_key_share_groups := [], ch_sni := None\<rparr>;
          (_, c1) = on_client_hello iter now test_key (test_ch ch) c0;
          sh = test_server
            \<lparr>sh_negotiated_version := Some 0x0303, sh_key_share_group := None\<rparr>;
          (neg, _) = on_server_hello test_key (test_sh sh) c1
      in (case neg of
            None \<Rightarrow> False
          | Some neg \<Rightarrow>
            ng_client_max_version neg = ''TLS 1.3'' \<and> length (ng_client_offered_groups neg) = 0))"

lemma downgrade_detection_holds: "downgrade_detection iter now"
  by (simp add: downgrade_detection_def corr_test_steps Let_def)

definition sh_without_ch_returns_none :: bool where
  "sh_without_ch_returns_none =
     (let c0 = correlator_new;
          sh = test_server;
          (neg, _) = on_server_hello test_key (test_sh sh) c0
      in neg = None)"

lemma sh_without_ch_returns_none_holds: sh_without_ch_returns_none
  by (simp add: sh_without_ch_returns_none_def corr_test_steps Let_def)

definition duplicate_ch_replaces :: "(pending \<Rightarrow> pending) \<Rightarrow> u64 \<Rightarrow> bool" where
  "duplicate_ch_replaces iter now =
     (let c0 = correlator_new;
          ch1 = test_client
            \<lparr>ch_supported_groups := [0x001D], ch_signature_algorithms := [],
             ch_key_share_groups := [0x001D]\<rparr>;
          (_, c1) = on_client_hello iter now test_key (test_ch ch1) c0;
          ch2 = test_client
            \<lparr>ch_random := replicate 32 1, ch_supported_groups := [0x11EC],
             ch_signature_algorithms := [], ch_key_share_groups := [0x11EC],
             ch_sni := Some ''other.com''\<rparr>;
          (_, c2) = on_client_hello iter now test_key (test_ch ch2) c1
      in length (pending c1) = 1 \<and> length (pending c2) = 1 \<and>
         (case map_of (pending c2) test_key of
            None \<Rightarrow> False
          | Some v \<Rightarrow>
            cs_sni (fst v) = Some ''other.com'' \<and> cs_offered_groups (fst v) = [0x11EC]))"

lemma duplicate_ch_replaces_holds: "duplicate_ch_replaces iter now"
  by (simp add: duplicate_ch_replaces_def corr_test_steps Let_def)

definition pqc_gap_detection :: "(pending \<Rightarrow> pending) \<Rightarrow> u64 \<Rightarrow> bool" where
  "pqc_gap_detection iter now =
     (let c0 = correlator_new;
          ch = test_client
            \<lparr>ch_signature_algorithms := [], ch_sni := None\<rparr>;
          (_, c1) = on_client_hello iter now test_key (test_ch ch) c0;
          sh = test_server;
          (neg, _) = on_server_hello test_key (test_sh sh) c1
      in (case neg of
            None \<Rightarrow> False
          | Some neg \<Rightarrow>
            length (ng_client_offered_groups neg) = 2 \<and>
            list_ex (\<lambda>g. gi_id g = 0x11EC) (ng_client_offered_groups neg) \<and>
            map_option gi_id (ng_selected_group neg) = Some 0x001D))"

lemma pqc_gap_detection_holds: "pqc_gap_detection iter now"
  by (simp add: pqc_gap_detection_def corr_test_steps Let_def)

definition ttl_eviction :: "(pending \<Rightarrow> pending) \<Rightarrow> u64 \<Rightarrow> bool" where
  "ttl_eviction iter now =
     (let c0 = correlator_new;
          ch = test_client
            \<lparr>ch_supported_groups := [], ch_signature_algorithms := [],
             ch_key_share_groups := [], ch_sni := None\<rparr>;
          (_, c1) = on_client_hello iter now test_key (test_ch ch) c0;
          c1' = c1\<lparr>ttl_ns := 1\<rparr>;
          (expired_count, c2) = corr_sweep_expired (now + 1000000) c1'
      in length (pending c1) = 1 \<and> expired_count = 1 \<and> length (pending c2) = 0)"

lemma ttl_eviction_holds: "ttl_eviction iter now"
  by (simp add: ttl_eviction_def corr_test_steps Let_def)

definition ch_to_alert_produces_outcome_failed :: "(pending \<Rightarrow> pending) \<Rightarrow> u64 \<Rightarrow> bool" where
  "ch_to_alert_produces_outcome_failed iter now =
     (let c0 = correlator_new;
          ch = test_client
            \<lparr>ch_supported_groups := [0x001D], ch_key_share_groups := [0x001D]\<rparr>;
          (_, c1) = on_client_hello iter now test_key (test_ch ch) c0;
          (neg, c2) = on_alert test_key 2 70 c1
      in length (pending c2) = 0 \<and>
         (case neg of
            None \<Rightarrow> False
          | Some neg \<Rightarrow>
            ng_outcome neg = ''failed'' \<and> ng_client_max_version neg = ''TLS 1.3'' \<and>
            ng_selected_group neg = None \<and> length (ng_client_offered_groups neg) = 1 \<and>
            gi_id (ng_client_offered_groups neg ! 0) = 0x001D \<and>
            ng_client_sni neg = Some ''example.com''))"

lemma ch_to_alert_produces_outcome_failed_holds: "ch_to_alert_produces_outcome_failed iter now"
  by (simp add: ch_to_alert_produces_outcome_failed_def corr_test_steps Let_def)

definition alert_without_ch_returns_none :: bool where
  "alert_without_ch_returns_none =
     (let c0 = correlator_new;
          (neg, c1) = on_alert test_key 2 70 c0
      in neg = None \<and> length (pending c1) = 0)"

lemma alert_without_ch_returns_none_holds: alert_without_ch_returns_none
  by (simp add: alert_without_ch_returns_none_def corr_test_steps Let_def)

definition ch_to_sh_then_alert_is_dropped :: "(pending \<Rightarrow> pending) \<Rightarrow> u64 \<Rightarrow> bool" where
  "ch_to_sh_then_alert_is_dropped iter now =
     (let c0 = correlator_new;
          ch = test_client
            \<lparr>ch_supported_groups := [], ch_signature_algorithms := [],
             ch_key_share_groups := [], ch_sni := None\<rparr>;
          (_, c1) = on_client_hello iter now test_key (test_ch ch) c0;
          sh = test_server
            \<lparr>sh_key_share_group := None\<rparr>;
          (_, c2) = on_server_hello test_key (test_sh sh) c1;
          (neg_alert, _) = on_alert test_key 2 70 c2
      in length (pending c2) = 0 \<and> neg_alert = None)"

lemma ch_to_sh_then_alert_is_dropped_holds: "ch_to_sh_then_alert_is_dropped iter now"
  by (simp add: ch_to_sh_then_alert_is_dropped_def corr_test_steps Let_def)

definition mtls_flow_tls_1_2_certificate_request_and_client_cert :: "(pending \<Rightarrow> pending) \<Rightarrow> u64 \<Rightarrow> bool" where
  "mtls_flow_tls_1_2_certificate_request_and_client_cert iter now =
     (let c0 = correlator_new;
          ch = test_client
            \<lparr>ch_cipher_suites := [0xC02F], ch_supported_versions := [0x0303],
             ch_supported_groups := [0x001D], ch_key_share_groups := []\<rparr>;
          (_, c1) = on_client_hello iter now test_key (test_ch ch) c0;
          c2 = on_certificate_request test_key c1;
          (_, c3) = on_client_certificate test_key c2;
          sh = test_server
            \<lparr>sh_cipher_suite := 0xC02F, sh_negotiated_version := Some 0x0303,
             sh_key_share_group := None\<rparr>;
          (neg, _) = on_server_hello test_key (test_sh sh) c3
      in (case map_of (pending c2) test_key of
            None \<Rightarrow> False | Some v \<Rightarrow> cs_mtls_requested (fst v) \<and> \<not> cs_mtls (fst v)) \<and>
         (case map_of (pending c3) test_key of
            None \<Rightarrow> False | Some v \<Rightarrow> cs_mtls_requested (fst v) \<and> cs_mtls (fst v)) \<and>
         (case neg of
            None \<Rightarrow> False
          | Some neg \<Rightarrow>
            ng_outcome neg = ''negotiated'' \<and> ng_client_max_version neg = ''TLS 1.2'' \<and>
            ng_mtls_requested neg \<and> ng_mtls neg))"

lemma mtls_flow_tls_1_2_certificate_request_and_client_cert_holds: "mtls_flow_tls_1_2_certificate_request_and_client_cert iter now"
  by (simp add: mtls_flow_tls_1_2_certificate_request_and_client_cert_def corr_test_steps Let_def)

definition mtls_flags_persist_to_final_negotiation :: "(pending \<Rightarrow> pending) \<Rightarrow> u64 \<Rightarrow> bool" where
  "mtls_flags_persist_to_final_negotiation iter now =
     (let c0 = correlator_new;
          ch = test_client
            \<lparr>ch_cipher_suites := [0xC02F], ch_supported_versions := [0x0303],
             ch_supported_groups := [0x001D], ch_key_share_groups := [], ch_sni := None\<rparr>;
          (_, c1) = on_client_hello iter now test_key (test_ch ch) c0;
          c2 = on_certificate_request test_key c1;
          (_, c3) = on_client_certificate test_key c2;
          sh = test_server
            \<lparr>sh_cipher_suite := 0xC02F, sh_negotiated_version := Some 0x0303,
             sh_key_share_group := None\<rparr>;
          (neg, _) = on_server_hello test_key (test_sh sh) c3
      in (case neg of
            None \<Rightarrow> False
          | Some neg \<Rightarrow>
            ng_mtls_requested neg \<and> ng_mtls neg))"

lemma mtls_flags_persist_to_final_negotiation_holds: "mtls_flags_persist_to_final_negotiation iter now"
  by (simp add: mtls_flags_persist_to_final_negotiation_def corr_test_steps Let_def)

definition certificate_request_on_nonexistent_flow_ignored :: bool where
  "certificate_request_on_nonexistent_flow_ignored =
     (let c0 = correlator_new;
          c1 = on_certificate_request test_key c0
      in length (pending c1) = 0)"

lemma certificate_request_on_nonexistent_flow_ignored_holds: certificate_request_on_nonexistent_flow_ignored
  by (simp add: certificate_request_on_nonexistent_flow_ignored_def corr_test_steps Let_def)

definition client_certificate_on_nonexistent_flow_ignored :: bool where
  "client_certificate_on_nonexistent_flow_ignored =
     (let c0 = correlator_new;
          (_, c1) = on_client_certificate test_key c0
      in length (pending c1) = 0)"

lemma client_certificate_on_nonexistent_flow_ignored_holds: client_certificate_on_nonexistent_flow_ignored
  by (simp add: client_certificate_on_nonexistent_flow_ignored_def corr_test_steps Let_def)

end
