(* ===== verification/Ja4_Tests.thy ===== *)
theory Ja4_Tests
  imports Ja4 Rust_Text
begin

text \<open>
  The unit tests of \<open>crates/tls-probe-cli/src/ja4.rs\<close>, run on the model: each test is a Boolean
  with the test's name, in which every assertion is a conjunct.  The tests that only look at the
  shape of a hash hold for every digest function with the shape of SHA-256 in hexadecimal, those
  that compare two fingerprints for every digest function at all, and the known-answer vector for
  the digest function that answers as the vector says.
\<close>

definition test_hello ::
  "u16 \<Rightarrow> u16 list \<Rightarrow> u16 list \<Rightarrow> string option \<Rightarrow> string list \<Rightarrow> ParsedClientHello" where
  "test_hello ver suites ids name protos =
     \<lparr>ch_legacy_version = ver, ch_random = replicate 32 0, ch_session_id = [],
      ch_cipher_suites = suites, ch_compression_methods = [0], ch_extensions = [],
      ch_extension_ids = ids, ch_supported_versions = [0x0304],
      ch_supported_groups = [], ch_signature_algorithms = [0x0804, 0x0805],
      ch_signature_algorithms_cert = [], ch_key_share_groups = [], ch_sni = name, ch_alpn = protos,
      ch_psk_offered = False, ch_early_data_offered = False,
      ch_psk_key_exchange_modes_offered = False, ch_session_ticket_offered = False\<rparr>"

definition is_ascii_hexdigit :: "char \<Rightarrow> bool" where
  "is_ascii_hexdigit c =
     (let n = of_char c :: nat in
      48 \<le> n \<and> n \<le> 57 \<or> 65 \<le> n \<and> n \<le> 70 \<or> 97 \<le> n \<and> n \<le> 102)"

text \<open>\<open>format!("{:x}", hash)\<close> of a SHA-256 digest: 64 hexadecimal digits.\<close>

definition hex_digest :: "(string \<Rightarrow> string) \<Rightarrow> bool" where
  "hex_digest sha = (\<forall>s. length (sha s) = 64 \<and> list_all is_ascii_hexdigit (sha s))"

lemmas ja4_test_steps = test_hello_def ja4_is_grease_def ja4_version_string_def sni_marker_def
  alpn_chars_def is_ascii_alphanumeric_def cipher_hash_def extension_hash_def cipher_input_def
  extension_input_def hashed_exts_def

lemma digit_chars:
  "digit_char (Suc (Suc 0)) = CHR ''2''" "digit_char (Suc (Suc (Suc 0))) = CHR ''3''"
  "digit_char (Suc (Suc (Suc (Suc 0)))) = CHR ''4''" "digit_char (Suc (Suc (Suc (Suc (Suc 0))))) = CHR ''5''"
  by code_simp+

lemma hex_digest_take:
  "hex_digest sha \<Longrightarrow> length (take 12 (sha s)) = 12 \<and> list_all is_ascii_hexdigit (take 12 (sha s))"
  by (auto simp: hex_digest_def list_all_iff dest: in_set_takeD)

definition ja4_known_answer_vector :: "(string \<Rightarrow> string) \<Rightarrow> bool" where
  "ja4_known_answer_vector sha256_hex =
     (let hello = test_hello 0x0303 [0x1301, 0x1302, 0x1303]
            [0x0000, 0x0010, 0x002b, 0x000d, 0x0033] (Some ''example.com'') [''h2'']
      in ja4 sha256_hex hello = ''t13d0305h2_55b375c5d22e_87c083d729a1'')"

lemma ja4_known_answer_vector_holds: "take 12 (sha256_hex ''1301,1302,1303'') = ''55b375c5d22e'' \<Longrightarrow>
     take 12 (sha256_hex ''000d,002b,0033_0804,0805'') = ''87c083d729a1'' \<Longrightarrow> ja4_known_answer_vector sha256_hex"
  by (simp add: ja4_known_answer_vector_def ja4_test_steps ja4_def Let_def dec2_def dec.simps hex4_def digit_chars)

definition test_grease_detection :: bool where
  "test_grease_detection =
     (ja4_is_grease 0x0A0A \<and> ja4_is_grease 0x1A1A \<and> ja4_is_grease 0xFAFA \<and>
      \<not> ja4_is_grease 0x0000 \<and> \<not> ja4_is_grease 0x0A0B \<and> \<not> ja4_is_grease 0x1301)"

lemma test_grease_detection_holds: test_grease_detection
  by (simp add: test_grease_detection_def ja4_test_steps)

definition test_version_string :: bool where
  "test_version_string =
     (ja4_version_string (test_hello 0x0303 [0x1301] [] None []) = ''13'')"

lemma test_version_string_holds: test_version_string
  by (simp add: test_version_string_def ja4_test_steps)

definition test_sni_marker_with_sni :: bool where
  "test_sni_marker_with_sni =
     (sni_marker (test_hello 0x0303 [0x1301] [] (Some ''example.com'') []) = CHR ''d'')"

lemma test_sni_marker_with_sni_holds: test_sni_marker_with_sni
  by (simp add: test_sni_marker_with_sni_def ja4_test_steps)

definition test_sni_marker_without_sni :: bool where
  "test_sni_marker_without_sni =
     (sni_marker (test_hello 0x0303 [0x1301] [] None []) = CHR ''i'')"

lemma test_sni_marker_without_sni_holds: test_sni_marker_without_sni
  by (simp add: test_sni_marker_without_sni_def ja4_test_steps)

definition test_alpn_chars_present :: bool where
  "test_alpn_chars_present =
     (alpn_chars (test_hello 0x0303 [0x1301] [] None [''h2'']) = ''h2'')"

lemma test_alpn_chars_present_holds: test_alpn_chars_present
  by (simp add: test_alpn_chars_present_def ja4_test_steps)

definition test_alpn_chars_http_1_1 :: bool where
  "test_alpn_chars_http_1_1 =
     (alpn_chars (test_hello 0x0303 [0x1301] [] None [''http/1.1'']) = ''h1'')"

lemma test_alpn_chars_http_1_1_holds: test_alpn_chars_http_1_1
  by (simp add: test_alpn_chars_http_1_1_def ja4_test_steps)

definition test_alpn_chars_absent :: bool where
  "test_alpn_chars_absent =
     (alpn_chars (test_hello 0x0303 [0x1301] [] None []) = ''00'')"

lemma test_alpn_chars_absent_holds: test_alpn_chars_absent
  by (simp add: test_alpn_chars_absent_def ja4_test_steps)

definition test_alpn_chars_non_alphanumeric :: bool where
  "test_alpn_chars_non_alphanumeric =
     (alpn_chars (test_hello 0x0303 [0x1301] [] None [''_test'']) = ''99'')"

lemma test_alpn_chars_non_alphanumeric_holds: test_alpn_chars_non_alphanumeric
  by (simp add: test_alpn_chars_non_alphanumeric_def ja4_test_steps)

definition test_cipher_hash_basic :: "(string \<Rightarrow> string) \<Rightarrow> bool" where
  "test_cipher_hash_basic sha256_hex =
     (let hello = test_hello 0x0303 [0x1301, 0x1302] [] None [];
          hash = cipher_hash sha256_hex hello
      in length hash = 12 \<and> list_all is_ascii_hexdigit hash)"

lemma test_cipher_hash_basic_holds: "hex_digest sha256_hex \<Longrightarrow> test_cipher_hash_basic sha256_hex"
  by (simp add: test_cipher_hash_basic_def hex_digest_take ja4_test_steps del: length_take)

definition test_extension_hash_basic :: "(string \<Rightarrow> string) \<Rightarrow> bool" where
  "test_extension_hash_basic sha256_hex =
     (let hello = test_hello 0x0303 [0x1301] [0x000D, 0x000A] None [];
          hash = extension_hash sha256_hex hello
      in length hash = 12 \<and> list_all is_ascii_hexdigit hash)"

lemma test_extension_hash_basic_holds: "hex_digest sha256_hex \<Longrightarrow> test_extension_hash_basic sha256_hex"
  by (simp add: test_extension_hash_basic_def hex_digest_take ja4_test_steps del: length_take)

definition test_cipher_hash_with_grease :: "(string \<Rightarrow> string) \<Rightarrow> bool" where
  "test_cipher_hash_with_grease sha256_hex =
     (let hello1 = test_hello 0x0303 [0x1301, 0x1302] [] None [];
          hello2 = test_hello 0x0303 [0x0A0A, 0x1301, 0x1A1A, 0x1302] [] None [];
          hash1 = cipher_hash sha256_hex hello1;
          hash2 = cipher_hash sha256_hex hello2
      in hash1 = hash2)"

lemma test_cipher_hash_with_grease_holds: "test_cipher_hash_with_grease sha256_hex"
  by (simp add: test_cipher_hash_with_grease_def ja4_test_steps)

definition test_cipher_hash_empty :: "(string \<Rightarrow> string) \<Rightarrow> bool" where
  "test_cipher_hash_empty sha256_hex =
     (cipher_hash sha256_hex (test_hello 0x0303 [] [] None []) = ''000000000000'')"

lemma test_cipher_hash_empty_holds: "test_cipher_hash_empty sha256_hex"
  by (simp add: test_cipher_hash_empty_def ja4_test_steps)

definition test_extension_hash_excludes_sni_alpn :: "(string \<Rightarrow> string) \<Rightarrow> bool" where
  "test_extension_hash_excludes_sni_alpn sha256_hex =
     (let hello = test_hello 0x0303 [0x1301] [0x0000, 0x000D, 0x0010, 0x000A] None [];
          hash = extension_hash sha256_hex hello;
          hello2 = test_hello 0x0303 [0x1301] [0x000D, 0x000A] None []
      in hash = extension_hash sha256_hex hello2)"

lemma test_extension_hash_excludes_sni_alpn_holds: "test_extension_hash_excludes_sni_alpn sha256_hex"
  by (simp add: test_extension_hash_excludes_sni_alpn_def ja4_test_steps)

definition test_ja4_format :: "(string \<Rightarrow> string) \<Rightarrow> bool" where
  "test_ja4_format sha256_hex =
     (let hello = test_hello 0x0303 [0x1301, 0x1302] [0x0000, 0x000D, 0x000A, 0x0010]
            (Some ''example.com'') [''h2''];
          ja4_str = ja4 sha256_hex hello;
          parts = split_on (CHR ''_'') ja4_str
      in prefix ''t13d'' ja4_str \<and> length parts = 3 \<and> suffix ''h2'' (parts ! 0) \<and>
         length (parts ! 1) = 12 \<and> length (parts ! 2) = 12)"

lemma test_ja4_format_holds: "hex_digest sha256_hex \<Longrightarrow> test_ja4_format sha256_hex"
proof -
  assume sha: "hex_digest sha256_hex"
  have hash: "length (take 12 (sha256_hex s)) = 12" "CHR ''_'' \<notin> set (take 12 (sha256_hex s))" for s
    using hex_digest_take [OF sha, of s] by (auto simp: list_all_iff is_ascii_hexdigit_def Let_def)
  show ?thesis
    using hash by (simp add: test_ja4_format_def ja4_test_steps ja4_def Let_def dec2_def dec.simps split_on_append
      split_on_none digit_chars suffix_def del: length_take)
qed

definition test_ja4_grease_invariance :: "(string \<Rightarrow> string) \<Rightarrow> bool" where
  "test_ja4_grease_invariance sha256_hex =
     (let hello1 = test_hello 0x0303 [0x1301, 0x1302] [0x000D, 0x000A]
            (Some ''example.com'') [''h2''];
          hello2 = hello1
            \<lparr>ch_cipher_suites := [0x0A0A] @ ch_cipher_suites hello1 @ [0x1A1A],
             ch_extension_ids := [0x2A2A] @ ch_extension_ids hello1,
             ch_supported_versions := ch_supported_versions hello1 @ [0x3A3A]\<rparr>;
          ja4_1 = ja4 sha256_hex hello1;
          ja4_2 = ja4 sha256_hex hello2
      in ja4_1 = ja4_2)"

lemma test_ja4_grease_invariance_holds: "test_ja4_grease_invariance sha256_hex"
proof -
  define hello1 where "hello1 = test_hello 0x0303 [0x1301, 0x1302] [0x000D, 0x000A]
    (Some ''example.com'') [''h2'']"
  define hello2 where "hello2 = hello1
    \<lparr>ch_cipher_suites := [0x0A0A] @ ch_cipher_suites hello1 @ [0x1A1A],
     ch_extension_ids := [0x2A2A] @ ch_extension_ids hello1,
     ch_supported_versions := ch_supported_versions hello1 @ [0x3A3A]\<rparr>"
  note defs = hello1_def hello2_def test_hello_def
  have "ja4_version_string hello2 = ja4_version_string hello1"
    "filter (\<lambda>c. \<not> ja4_is_grease c) (ch_cipher_suites hello2) = filter (\<lambda>c. \<not> ja4_is_grease c) (ch_cipher_suites hello1)"
    "filter (\<lambda>c. \<not> ja4_is_grease c) (ch_extension_ids hello2) = filter (\<lambda>c. \<not> ja4_is_grease c) (ch_extension_ids hello1)"
    "hashed_exts hello2 = hashed_exts hello1"
    by (simp_all add: defs ja4_version_string_def ja4_is_grease_def hashed_exts_def)
  moreover have "sni_marker hello2 = sni_marker hello1" "alpn_chars hello2 = alpn_chars hello1"
    "ch_signature_algorithms hello2 = ch_signature_algorithms hello1"
    by (simp_all add: hello2_def sni_marker_def alpn_chars_def)
  ultimately have "ja4 sha256_hex hello1 = ja4 sha256_hex hello2"
    by (simp add: ja4_def cipher_hash_def cipher_input_def extension_hash_def extension_input_def)
  then show ?thesis
    by (simp only: test_ja4_grease_invariance_def hello1_def hello2_def Let_def)
qed

definition test_ja4_count_capping :: "(string \<Rightarrow> string) \<Rightarrow> bool" where
  "test_ja4_count_capping sha256_hex =
     (let ciphers = [0x1301] @ map (\<lambda>i. 0x1000 + of_nat i)
            (filter (\<lambda>i. \<not> ja4_is_grease (of_nat i)) [0..<150]);
          exts = [0x000D] @ filter (\<lambda>e. \<not> ja4_is_grease e) (map (\<lambda>i. 0x1000 + of_nat i) [0..<150]);
          hello = (test_hello 0x0303 ciphers exts (Some ''test.com'') [''h2''])
            \<lparr>ch_signature_algorithms := [0x0804]\<rparr>;
          ja4_str = ja4 sha256_hex hello;
          counts_part = take 4 (drop 4 ja4_str)
      in counts_part = ''9999'')"

lemma test_ja4_count_capping_holds: "test_ja4_count_capping sha256_hex"
proof -
  define cs where "cs = [0x1301] @ map (\<lambda>i. 0x1000 + of_nat i :: u16)
    (filter (\<lambda>i. \<not> ja4_is_grease (of_nat i)) [0..<150])"
  define es where "es = [0x000D] @ filter (\<lambda>e. \<not> ja4_is_grease e)
    (map (\<lambda>i. 0x1000 + of_nat i :: u16) [0..<150])"
  have "99 \<le> length (filter (\<lambda>c. \<not> ja4_is_grease c) cs)" "99 \<le> length (filter (\<lambda>c. \<not> ja4_is_grease c) es)"
    unfolding cs_def es_def by code_simp+
  then have n: "min (length (filter (\<lambda>c. \<not> ja4_is_grease c) cs)) 99 = 99"
    "min (length (filter (\<lambda>c. \<not> ja4_is_grease c) es)) 99 = 99"
    by simp_all
  define hello where "hello = (test_hello 0x0303 cs es (Some ''test.com'') [''h2''])
    \<lparr>ch_signature_algorithms := [0x0804]\<rparr>"
  have "length (ja4_version_string hello) = 2" "dec2 99 = ''99''"
    by (simp_all add: length_version_string dec2_def dec.simps digit_chars)
  then have "take 4 (drop 4 (ja4 sha256_hex hello)) = ''9999''"
    using n by (simp add: ja4_def Let_def hello_def test_hello_def)
  then show ?thesis
    by (simp only: test_ja4_count_capping_def cs_def es_def hello_def Let_def)
qed

end
