(* ===== verification/Cli_Tests.thy ===== *)
theory Cli_Tests
  imports Record_Walk Certificate Containers Events Spool Loader Startup
begin

text \<open>
  The unit tests of \<open>record_walk.rs\<close>, \<open>certificate.rs\<close>, \<open>containers.rs\<close>, \<open>tls.rs\<close>, \<open>self_test.rs\<close> and
  \<open>pipeline.rs\<close> of \<open>crates/tls-probe-cli/src\<close>, run on the model: each test is a Boolean with the test's name, in
  which every assertion is a conjunct, and is proved to hold.  The spool tests are run on an empty
  directory at any time of day.
\<close>

definition unwrap_that :: "'a option \<Rightarrow> ('a \<Rightarrow> bool) \<Rightarrow> bool" where
  "unwrap_that r P = (case r of None \<Rightarrow> False | Some x \<Rightarrow> P x)"

section \<open>The record walk\<close>

definition make_tls_record :: "u8 \<Rightarrow> u16 \<Rightarrow> bytes \<Rightarrow> bytes" where
  "make_tls_record ct ver body =
     [ct] @ be16_bytes ver @ be16_bytes (of_nat (length body)) @ body"

definition walked :: "bytes \<Rightarrow> (ExtractedRecord list \<Rightarrow> bool) \<Rightarrow> bool" where
  "walked p P = (case walk_records p of Ret rs \<Rightarrow> P rs | _ \<Rightarrow> False)"

definition walk_empty_payload :: bool where
  "walk_empty_payload = walked [] (\<lambda>records. length records = 0)"

definition walk_payload_too_short :: bool where
  "walk_payload_too_short = walked [0x16, 0x03, 0x03] (\<lambda>records. length records = 0)"

definition walk_single_record_sh_only :: bool where
  "walk_single_record_sh_only =
     (let sh_body = [0x02, 0x00, 0x00]
      in walked (make_tls_record 0x16 0x0303 sh_body) (\<lambda>records. length records = 0))"

definition walk_sh_then_certificate :: bool where
  "walk_sh_then_certificate =
     (let sh_body = [0x02, 0x00, 0x00];
          cert_body = [0x0B] @ [0x00, 0x00, 0x03] @ [0x00, 0x00, 0x00]
      in walked (make_tls_record 0x16 0x0303 sh_body @ make_tls_record 0x16 0x0303 cert_body)
           (\<lambda>records. length records = 1 \<and> er_body (records ! 0) ! 0 = 0x0B \<and>
              \<not> er_truncated (records ! 0)))"

definition walk_sh_then_certreq :: bool where
  "walk_sh_then_certreq =
     (let sh_body = [0x02, 0x00, 0x00];
          certreq_body = [0x0D] @ [0x00, 0x00, 0x00]
      in walked (make_tls_record 0x16 0x0303 sh_body @ make_tls_record 0x16 0x0303 certreq_body)
           (\<lambda>records. length records = 1 \<and> er_body (records ! 0) ! 0 = 0x0D))"

definition walk_sh_then_serverkellodone :: bool where
  "walk_sh_then_serverkellodone =
     (let sh_body = [0x02, 0x00, 0x00];
          shd_body = [0x0E]
      in walked (make_tls_record 0x16 0x0303 sh_body @ make_tls_record 0x16 0x0303 shd_body)
           (\<lambda>records. length records = 0))"

definition walk_sh_then_certificate_truncated :: bool where
  "walk_sh_then_certificate_truncated =
     (let sh_body = [0x02, 0x00, 0x00];
          cert_body = [0x0B] @ [0x00, 0x00, 0x03];
          cert_record = [0x16, 0x03, 0x03, 0x00, 0x64] @ cert_body
      in walked (make_tls_record 0x16 0x0303 sh_body @ cert_record)
           (\<lambda>records. length records = 1 \<and> length (er_body (records ! 0)) = 4 \<and>
              er_truncated (records ! 0)))"

definition walk_exceeds_max_records :: bool where
  "walk_exceeds_max_records =
     (let sh_body = [0x02, 0x00, 0x00];
          cert_body = [0x0B, 0x00, 0x00, 0x03, 0x00, 0x00, 0x00]
      in walked (make_tls_record 0x16 0x0303 sh_body @
             concat (map (\<lambda>_. make_tls_record 0x16 0x0303 cert_body) [0..<5]))
           (\<lambda>records. length records = MAX_RECORDS_TO_WALK))"

definition walk_stops_at_alert :: bool where
  "walk_stops_at_alert =
     (let sh_body = [0x02, 0x00, 0x00];
          alert_body = [0x02, 0x0A]
      in walked (make_tls_record 0x16 0x0303 sh_body @ make_tls_record 0x15 0x0303 alert_body)
           (\<lambda>records. length records = 0))"

lemmas walk_test_defs = walk_empty_payload_def walk_payload_too_short_def walk_single_record_sh_only_def
  walk_sh_then_certificate_def walk_sh_then_certreq_def walk_sh_then_serverkellodone_def
  walk_sh_then_certificate_truncated_def walk_exceeds_max_records_def walk_stops_at_alert_def

lemma walk_tests_hold:
  walk_empty_payload walk_payload_too_short walk_single_record_sh_only walk_sh_then_certificate
  walk_sh_then_certreq walk_sh_then_serverkellodone walk_sh_then_certificate_truncated
  walk_exceeds_max_records walk_stops_at_alert
  by code_simp+

section \<open>Certificates\<close>

definition parse_certificate_payload_too_short ::
  "(bytes \<Rightarrow> X509 option) \<Rightarrow> (int \<Rightarrow> string option) \<Rightarrow> int \<Rightarrow> bool" where
  "parse_certificate_payload_too_short x509 rfc3339 now =
     (parse_certificate x509 rfc3339 now [0x00, 0x00] = Ret None)"

definition parse_certificate_empty_cert_list ::
  "(bytes \<Rightarrow> X509 option) \<Rightarrow> (int \<Rightarrow> string option) \<Rightarrow> int \<Rightarrow> bool" where
  "parse_certificate_empty_cert_list x509 rfc3339 now =
     (parse_certificate x509 rfc3339 now [0x00, 0x00, 0x00] = Ret None)"

definition parse_certificate_first_cert_truncated ::
  "(bytes \<Rightarrow> X509 option) \<Rightarrow> (int \<Rightarrow> string option) \<Rightarrow> int \<Rightarrow> bool" where
  "parse_certificate_first_cert_truncated x509 rfc3339 now =
     (parse_certificate x509 rfc3339 now [0x00, 0x00, 0x0a, 0x00, 0x00, 0x05] = Ret None)"

definition u24_from_be_conversion :: bool where
  "u24_from_be_conversion =
     (u24_from_be [0x00, 0x00, 0x01] = Ret 1 \<and> u24_from_be [0x00, 0x01, 0x00] = Ret 256 \<and>
      u24_from_be [0x01, 0x00, 0x00] = Ret 65536 \<and> u24_from_be [0xFF, 0xFF, 0xFF] = Ret 16777215)"

lemma certificate_tests_hold:
  "parse_certificate_payload_too_short x509 rfc3339 now"
  "parse_certificate_empty_cert_list x509 rfc3339 now"
  "parse_certificate_first_cert_truncated x509 rfc3339 now"
  u24_from_be_conversion
  by (simp_all add: parse_certificate_payload_too_short_def parse_certificate_empty_cert_list_def
      parse_certificate_first_cert_truncated_def u24_from_be_conversion_def parse_certificate_def
      u24_from_be_def idx_in subslice_in)

section \<open>Containers\<close>

text \<open>The fake resolver: a map from inodes to paths.\<close>

type_synonym FakeResolver = "(u64 \<times> string) list"

definition fake_new :: FakeResolver where
  "fake_new = []"

definition with_entry :: "u64 \<Rightarrow> string \<Rightarrow> FakeResolver \<Rightarrow> FakeResolver" where
  "with_entry inode path r = hm_insert inode path r"

definition fake_resolve_inode :: "unit \<Rightarrow> u64 \<Rightarrow> FakeResolver \<Rightarrow> string option \<times> FakeResolver" where
  "fake_resolve_inode env inode r = (map_of r inode, r)"

definition test_parse_crio_without_pod :: bool where
  "test_parse_crio_without_pod =
     unwrap_that (parse_crio ''kubepods.slice/crio-abc123.scope'') (\<lambda>ident.
       id_container_id ident = ''abc123'' \<and> id_pod_uid ident = None)"

definition test_parse_crio_with_pod_uid :: bool where
  "test_parse_crio_with_pod_uid =
     unwrap_that (parse_crio ''kubepods.slice/kubepods-pod1234_5678_9abc.slice/crio-def456.scope'') (\<lambda>ident.
       id_container_id ident = ''def456'' \<and> id_pod_uid ident = Some ''1234-5678-9abc'')"

definition test_parse_containerd :: bool where
  "test_parse_containerd =
     unwrap_that (parse_containerd ''cgroup.slice/cri-containerd-xyz789.scope'') (\<lambda>ident.
       id_container_id ident = ''xyz789'' \<and> id_pod_uid ident = None)"

definition test_parse_docker :: bool where
  "test_parse_docker =
     unwrap_that (parse_docker ''docker/docker-def123.scope'') (\<lambda>ident.
       id_container_id ident = ''def123'' \<and> id_pod_uid ident = None)"

definition test_parse_podman :: bool where
  "test_parse_podman =
     unwrap_that (parse_podman ''libpod/libpod-abc456.scope'') (\<lambda>ident.
       id_container_id ident = ''abc456'' \<and> id_pod_uid ident = None)"

definition test_resolve_cgroup_id :: bool where
  "test_resolve_cgroup_id =
     (let resolver = with_entry 42 ''kubepods.slice/kubepods-pod1234.slice/crio-myid.scope'' fake_new;
          ((cid, puid), _) = resolve_cgroup_id fake_resolve_inode () 42 resolver
      in cid = Some ''myid'' \<and> puid = Some ''1234'')"

definition test_resolve_cgroup_id_zero :: bool where
  "test_resolve_cgroup_id_zero =
     (let resolver = fake_new;
          ((cid, puid), _) = resolve_cgroup_id fake_resolve_inode () 0 resolver
      in cid = None \<and> puid = None)"

definition test_resolve_cgroup_id_unresolvable :: bool where
  "test_resolve_cgroup_id_unresolvable =
     (let resolver = fake_new;
          ((cid, puid), _) = resolve_cgroup_id fake_resolve_inode () 999 resolver
      in cid = None \<and> puid = None)"

definition test_non_container_path :: bool where
  "test_non_container_path =
     (let path = ''user.slice/user-1000.slice/session-1.scope''
      in parse_crio path = None \<and> parse_containerd path = None \<and> parse_docker path = None \<and>
         parse_podman path = None)"

lemma container_tests_hold:
  test_parse_crio_without_pod test_parse_crio_with_pod_uid test_parse_containerd test_parse_docker
  test_parse_podman test_resolve_cgroup_id test_resolve_cgroup_id_zero
  test_resolve_cgroup_id_unresolvable test_non_container_path
  by code_simp+

section \<open>Names and alerts\<close>

definition parse_alert_reads_past_record_header :: bool where
  "parse_alert_reads_past_record_header =
     (let record' = [0x15, 0x03, 0x03, 0x00, 0x02, 2, 70]
      in parse_alert record' = Some (2, 70) \<and> parse_alert (take 6 record') = None \<and>
         parse_alert [0x16, 0x03, 0x03, 0x00, 0x02, 2, 70] = None)"

definition cipher_suite_lookup_known :: bool where
  "cipher_suite_lookup_known =
     (cipher_suite_name 0x1301 = ''TLS_AES_128_GCM_SHA256'' \<and>
      cipher_suite_name 0x1302 = ''TLS_AES_256_GCM_SHA384'' \<and>
      cipher_suite_name 0x1303 = ''TLS_CHACHA20_POLY1305_SHA256'' \<and>
      cipher_suite_name 0xC02F = ''TLS_ECDHE_RSA_WITH_AES_128_GCM_SHA256'' \<and>
      cipher_suite_name 0x009E = ''TLS_DHE_RSA_WITH_AES_128_GCM_SHA256'' \<and>
      cipher_suite_name 0x009F = ''TLS_DHE_RSA_WITH_AES_256_GCM_SHA384'' \<and>
      cipher_suite_name 0x000A = ''TLS_RSA_WITH_3DES_EDE_CBC_SHA'' \<and>
      cipher_suite_name 0x00FF = ''TLS_EMPTY_RENEGOTIATION_INFO_SCSV'')"

definition cipher_suite_lookup_unknown :: bool where
  "cipher_suite_lookup_unknown =
     (cipher_suite_name 0x0000 = ''unknown'' \<and> cipher_suite_name 0xFFFF = ''unknown'')"

definition key_exchange_lookup_iana_final :: bool where
  "key_exchange_lookup_iana_final =
     (key_exchange_name 0x0200 = ''MLKEM512'' \<and> key_exchange_name 0x0201 = ''MLKEM768'' \<and>
      key_exchange_name 0x0202 = ''MLKEM1024'' \<and> key_exchange_name 0x11E9 = ''SecP256r1MLKEM512'' \<and>
      key_exchange_name 0x11EA = ''MLKEM512X25519'' \<and> key_exchange_name 0x11EB = ''SecP256r1MLKEM768'' \<and>
      key_exchange_name 0x11EC = ''X25519MLKEM768'' \<and> key_exchange_name 0x11ED = ''SecP384r1MLKEM1024'')"

definition key_exchange_lookup_obsoleted_kyber :: bool where
  "key_exchange_lookup_obsoleted_kyber =
     (key_exchange_name 0x6399 = ''X25519Kyber768Draft00'' \<and>
      key_exchange_name 0x639A = ''SecP256r1Kyber768Draft00'')"

definition key_exchange_unassigned_returns_unknown :: bool where
  "key_exchange_unassigned_returns_unknown =
     (key_exchange_name 0x2F00 = ''unknown'' \<and> key_exchange_name 0x2F01 = ''unknown'' \<and>
      key_exchange_name 0x4588 = ''unknown'')"

definition grease_detection :: bool where
  "grease_detection =
     (is_grease 0x0A0A \<and> is_grease 0x1A1A \<and> is_grease 0xFAFA \<and>
      \<not> is_grease 0x0000 \<and> \<not> is_grease 0x0A0B \<and> \<not> is_grease 0x1301)"

definition handshake_type_lookup :: bool where
  "handshake_type_lookup =
     (handshake_type_name TLS_HANDSHAKE_CLIENT_HELLO = ''ClientHello'' \<and>
      handshake_type_name TLS_HANDSHAKE_SERVER_HELLO = ''ServerHello'')"

lemma name_tests_hold:
  parse_alert_reads_past_record_header cipher_suite_lookup_known cipher_suite_lookup_unknown
  key_exchange_lookup_iana_final key_exchange_lookup_obsoleted_kyber
  key_exchange_unassigned_returns_unknown grease_detection handshake_type_lookup
  by code_simp+

section \<open>The self-test\<close>

definition conn_key_self_connection :: bool where
  "conn_key_self_connection =
     (let localhost = [127, 0, 0, 1] @ drop 4 (replicate 16 0);
          any_port = 12345;
          key = \<lparr>ck_src_addr = localhost, ck_dst_addr = localhost, ck_src_port = any_port, ck_dst_port = any_port\<rparr>
      in take 4 (ck_src_addr key) = [127, 0, 0, 1] \<and> ck_src_addr key = ck_dst_addr key)"

lemma conn_key_self_connection_holds: conn_key_self_connection
  by (simp add: conn_key_self_connection_def)

section \<open>The output pipeline\<close>

definition saturated_channel_increments_drop_counter :: "RawTlsCapture \<Rightarrow> bool" where
  "saturated_channel_increments_drop_counter cap =
     (let tx = \<lparr>ch_queue = [], ch_capacity = 1, ch_open = True\<rparr>;
          (first_send, tx) = try_send cap tx;
          (second, tx) = try_send cap tx;
          (third, tx) = try_send cap tx;
          drops = length (filter (\<lambda>r. r = SendFull) [second, third])
      in first_send = SendOk \<and> drops = 2)"

definition empty_dir :: Disk where
  "empty_dir = \<lparr>dk_names = [], dk_inodes = (\<lambda>_. []), dk_next = 0, dk_script = []\<rparr>"

definition flush_on_threshold :: "nat \<Rightarrow> bool" where
  "flush_on_threshold now =
     (let writer = line_writer_new now 0;
          line = replicate FLUSH_THRESHOLD 0x78;
          (written, writer, disk) = line_write line writer empty_dir;
          due = should_flush now writer;
          (flushed, writer, disk) = flush_if_needed now writer disk
      in written \<and> due \<and> flushed = IoOk True \<and> pending_bytes writer = 0)"

definition flush_on_tick :: "nat \<Rightarrow> bool" where
  "flush_on_tick now =
     (let writer = line_writer_new now 0;
          (written, writer, disk) = line_write (bytes_of_str ''small'' @ [0x0A]) writer empty_dir;
          early = should_flush now writer;
          writer = writer\<lparr>last_flush := now - FLUSH_INTERVAL - 1\<rparr>;
          due = should_flush now writer;
          (flushed, writer, disk) = flush_if_needed now writer disk
      in written \<and> \<not> early \<and> due \<and> flushed = IoOk True \<and> pending_bytes writer = 0)"

definition writer_thread_emits_and_flushes :: "SpoolEnv \<Rightarrow> bool" where
  "writer_thread_emits_and_flushes e =
     (let rx = [(e, Line ([0x7B, 0x22] @ bytes_of_str ''a'' @ [0x22] @ bytes_of_str '':1}'' @ [0x0A])), (e, Disconnected)];
          thread = \<lparr>file_writer = None, stdout_writer = None, events_emitted = 0\<rparr>
      in unwrap_that (run_writer_thread rx thread empty_dir) (\<lambda>(emitted, _). emitted = 1))"

text \<open>The names in the directory with the extension \<open>jsonl\<close>, or \<open>part\<close>.\<close>

definition test_chunks :: "string \<Rightarrow> Disk \<Rightarrow> string list" where
  "test_chunks ext dir = filter (\<lambda>name. extension name = Some ext) (map fst (dk_names dir))"

definition rotation_triggers_chunk_rename :: "SpoolEnv \<Rightarrow> SpoolEnv \<Rightarrow> SpoolEnv \<Rightarrow> bool" where
  "rotation_triggers_chunk_rename e1 e2 e3 =
     (case spool_new e1 10 None empty_dir of
        (IoErr, _) \<Rightarrow> False
      | (IoOk writer, dir) \<Rightarrow>
          (let (ok1, writer, dir) = spool_write e2 (bytes_of_str ''0123456789'' @ [0x0A]) writer dir;
               (ok2, writer, dir) = spool_write e3 (bytes_of_str ''more'' @ [0x0A]) writer dir;
               (ok3, final) = spool_finalize e3 writer dir
           in ok1 \<and> ok2 \<and> length (test_chunks ''jsonl'' dir) = 1 \<and> length (test_chunks ''part'' dir) = 1 \<and>
              ends_with ''.jsonl'' (test_chunks ''jsonl'' dir ! 0) \<and>
              \<not> contains ''.part'' (test_chunks ''jsonl'' dir ! 0) \<and>
              ok3 \<and> length (test_chunks ''part'' final) = 0 \<and> test_chunks ''jsonl'' final \<noteq> []))"

definition seeded_dir :: Disk where
  "seeded_dir =
     \<lparr>dk_names = [(''capture-100.jsonl'', 0), (''capture-200.jsonl'', 1), (''capture-300.jsonl'', 2)],
      dk_inodes = (\<lambda>_. replicate 100 0x78), dk_next = 3, dk_script = []\<rparr>"

definition cap_enforcement_evicts_oldest_chunks :: "SpoolEnv \<Rightarrow> bool" where
  "cap_enforcement_evicts_oldest_chunks e =
     (case spool_new e 1000 (Some 250) seeded_dir of
        (IoErr, _) \<Rightarrow> False
      | (IoOk writer, dir) \<Rightarrow>
          (let (ok, writer, dir) = enforce_cap e 250 writer dir;
               remaining = List.map_filter parse_complete_chunk_timestamp (test_chunks ''jsonl'' dir)
           in ok \<and> 100 \<notin> set remaining \<and> (200 \<in> set remaining \<or> 300 \<in> set remaining) \<and>
              1 \<le> chunks_evicted writer))"

definition finalize_renames_part_to_complete :: "SpoolEnv \<Rightarrow> bool" where
  "finalize_renames_part_to_complete e =
     (case spool_new e 1000 None empty_dir of
        (IoErr, _) \<Rightarrow> False
      | (IoOk writer, dir) \<Rightarrow>
          (let (ok1, writer, dir') = spool_write e (bytes_of_str ''data'' @ [0x0A]) writer dir;
               (ok2, final) = spool_finalize e writer dir'
           in length (test_chunks ''part'' dir) = 1 \<and> ok1 \<and> ok2 \<and>
              length (test_chunks ''part'' final) = 0 \<and> length (test_chunks ''jsonl'' final) = 1))"

lemmas spool_test_steps = empty_dir_def spool_new_def spool_write_def spool_finalize_def line_write_def
  line_writer_new_def bw_write_all_def buf_capacity_def rotate_chunk_def open_next_chunk_def
  force_flush_def do_flush_def bw_flush_def bw_drop_def file_create_def file_write_def file_rename_def
  file_exists_def kv_remove_def hm_insert_def test_chunks_def bytes_of_str_def

lemma chunk_extensions [simp]:
  "extension (part_name t) = Some ''part''" "extension (complete_name t) = Some ''jsonl''"
  by (simp_all add: chunk_paths_def extension_def CHUNK_PREFIX_def CHUNK_SUFFIX_def CHUNK_PART_SUFFIX_def)

lemma paths_case [simp]:
  "(case chunk_paths t of (part_path, complete_path) \<Rightarrow> f part_path complete_path) = f (part_name t) (complete_name t)"
  by (simp add: case_prod_beta)

lemma saturated_channel_increments_drop_counter_holds: "saturated_channel_increments_drop_counter cap"
  by (simp add: saturated_channel_increments_drop_counter_def try_send_def)

lemma flush_on_threshold_holds: "flush_on_threshold now"
  by (simp add: flush_on_threshold_def spool_test_steps should_flush_def flush_if_needed_def FLUSH_THRESHOLD_def)

lemma flush_on_tick_holds: "FLUSH_INTERVAL < now \<Longrightarrow> flush_on_tick now"
  by (simp add: flush_on_tick_def spool_test_steps should_flush_def flush_if_needed_def FLUSH_THRESHOLD_def
      FLUSH_INTERVAL_def)

lemma writer_thread_emits_and_flushes_holds: "writer_thread_emits_and_flushes e"
  by (simp add: writer_thread_emits_and_flushes_def unwrap_that_def write_and_flush_def)

lemma finalize_renames_part_to_complete_holds: "finalize_renames_part_to_complete e"
  by (simp add: finalize_renames_part_to_complete_def spool_test_steps)

lemma contains_dot: "CHR ''.'' \<notin> set a \<Longrightarrow> contains (CHR ''.'' # pat) (a @ b) = contains (CHR ''.'' # pat) b"
  by (induction a) auto

lemma complete_name_suffix: "ends_with ''.jsonl'' (complete_name t)" "\<not> contains ''.part'' (complete_name t)"
proof -
  show "ends_with ''.jsonl'' (complete_name t)"
    by (simp add: chunk_paths_def ends_with_def CHUNK_SUFFIX_def suffix_def)
  have "CHR ''.'' \<notin> set (CHUNK_PREFIX @ dec (unat t))"
    using is_ascii_digit_dec [of "unat t"] by (auto simp: CHUNK_PREFIX_def is_ascii_digit_def)
  from contains_dot [OF this, of "''part''" CHUNK_SUFFIX] show "\<not> contains ''.part'' (complete_name t)"
    by (simp add: chunk_paths_def CHUNK_SUFFIX_def)
qed

lemma rotation_triggers_chunk_rename_holds: "rotation_triggers_chunk_rename e1 e2 e3"
  by (simp add: rotation_triggers_chunk_rename_def spool_test_steps complete_name_suffix)

lemma seeded_complete:
  "complete_name 100 = ''capture-100.jsonl''" "complete_name 200 = ''capture-200.jsonl''"
  "complete_name 300 = ''capture-300.jsonl''"
  by (simp_all add: chunk_paths_def CHUNK_PREFIX_def CHUNK_SUFFIX_def dec.simps)

lemma seeded_names:
  "parse_complete_chunk_timestamp ''capture-100.jsonl'' = Some 100"
  "parse_complete_chunk_timestamp ''capture-200.jsonl'' = Some 200"
  "parse_complete_chunk_timestamp ''capture-300.jsonl'' = Some 300"
  by (simp_all only: complete_name_parsed flip: seeded_complete)

lemmas seeded_extensions = seeded_names [THEN parsed_extension]

lemma part_not_seeded:
  "part_name t \<noteq> ''capture-100.jsonl''" "part_name t \<noteq> ''capture-200.jsonl''" "part_name t \<noteq> ''capture-300.jsonl''"
  using part_name_not_parsed [of t] seeded_names by auto

lemmas cap_steps = enforce_cap_def list_complete_chunks_def chunk_entries_ok listing_def map_filter_simps
  seeded_names seeded_extensions part_not_seeded part_not_seeded [symmetric] part_name_not_parsed file_remove_def

lemma cap_enforcement_evicts_oldest_chunks_holds:
  assumes "se_readdir e = rev"
  shows "cap_enforcement_evicts_oldest_chunks e"
proof -
  obtain writer dir where new: "spool_new e 1000 (Some 250) seeded_dir = (IoOk writer, dir)"
    and writer: "chunks_evicted writer = 0"
    and dir: "dk_names dir = (part_name (se_secs e), 3) # dk_names seeded_dir" "dk_script dir = []"
      "dk_inodes dir = (dk_inodes seeded_dir)(3 := [])"
    by (simp add: spool_new_def seeded_dir_def file_create_def hm_insert_def part_not_seeded
        part_not_seeded [symmetric])
  have "enforce_cap e 250 writer dir = (True, writer\<lparr>chunks_evicted := 1\<rparr>,
      dir\<lparr>dk_names := kv_remove ''capture-100.jsonl'' (dk_names dir)\<rparr>)"
    using assms writer by (simp add: cap_steps dir seeded_dir_def)
  then show ?thesis
    unfolding cap_enforcement_evicts_oldest_chunks_def new
    by (simp add: test_chunks_def dir kv_remove_def seeded_dir_def
        map_filter_simps seeded_names seeded_extensions part_not_seeded part_name_not_parsed)
qed

end
