(* ===== verification/Spec2Isabelle.thy ===== *)
theory Spec2Isabelle
  imports Entry Segments Listeners Provenance
    Reasm_Tests Parser_Tests Correlate_Tests Ja4_Tests Cli_Tests
begin

text \<open>
  A verification development for tls-probe, an eBPF probe that observes TLS handshakes and reports
  each as a line of JSON.

  \<^bold>\<open>The program.\<close>  In the kernel, a traffic classifier (\<open>crates/tls-probe-ebpf/src/tls.rs\<close>) looks at every
  packet of the interfaces it is attached to and puts TLS handshake and alert records, whole or in
  pieces, on a ring buffer; probes on connect and accept (\<open>process.rs\<close>) record which process owns a
  connection.  In user space (\<open>crates/tls-probe-cli/src\<close>), a task drains the ring buffer into a
  channel (\<open>loader.rs\<close>); a worker (\<open>commands/capture.rs\<close>) reassembles records (\<open>reasm.rs\<close>), parses hellos
  (\<open>crates/tls-probe-parser\<close>), joins the two hellos of a connection (\<open>correlate.rs\<close>), walks the records
  behind a ServerHello (\<open>record_walk.rs\<close>, \<open>certificate.rs\<close>), attributes events to containers
  (\<open>containers.rs\<close>) and sends them as lines (\<open>tls.rs\<close>, \<open>ja4.rs\<close>); a writer thread puts the lines into a
  file, a spool of chunks, or standard output (\<open>pipeline.rs\<close>).  A second command lists listening
  sockets (\<open>commands/listeners.rs\<close>).

  \<^bold>\<open>Theories and sources.\<close>
    \<^item> \<open>Probe_Prelude\<close>: outcomes of fallible code (\<open>Ret\<close>, \<open>Fail\<close>, \<open>Panic\<close>), checked reads of slices, byte
      orders; \<open>Rust_Std\<close>, \<open>Rust_Text\<close>: numbers as text, UTF-8, strings; \<open>Stores\<close>: hash and tree maps behind
      the locale \<open>kv_store\<close>; \<open>Machines\<close>: the locales \<open>step_machine\<close> and \<open>output_machine\<close> for components that
      handle one input at a time; \<open>Procfs\<close>: the format of the kernel's text files.
    \<^item> \<open>Codes\<close>, \<open>Capture_Record\<close>: \<open>tls-probe-common\<close> (\<open>codes.rs\<close>, \<open>domains/\<close>).
    \<^item> \<open>Extensions\<close>, \<open>Hello_Parser\<close>: \<open>tls-probe-parser\<close>, with the wire formats as encoders.
    \<^item> \<open>Attribution\<close>, \<open>Classifier\<close>: \<open>tls-probe-ebpf\<close>; the BPF maps are fields of \<open>Kernel\<close>.
      \<open>Kernel_Runs\<close>: all programs over the shared maps, in any order (\<open>KernelEvent\<close>, \<open>kernel_do\<close>), as a
      \<open>step_machine\<close>.
    \<^item> \<open>Reasm\<close>, \<open>Correlate\<close>, \<open>Ja4\<close>, \<open>Certificate\<close>, \<open>Containers\<close>, \<open>Events\<close>, \<open>Record_Walk\<close>: the files of the same
      names in \<open>tls-probe-cli\<close> (\<open>Events\<close> is \<open>tls.rs\<close>).
    \<^item> \<open>Worker\<close>: the worker task of \<open>commands/capture.rs\<close>; its state is the record \<open>Worker\<close>, its loop
      \<open>worker_run\<close> over the captures it receives.
    \<^item> \<open>Spool\<close>: \<open>pipeline.rs\<close> over a file system with inodes, names and calls that may fail.
    \<^item> \<open>Loader\<close>: \<open>loader.rs\<close>; the drain task beside the kernel and the worker is the step relation
      \<open>pipe_step\<close>.  \<open>Startup\<close>: \<open>capabilities.rs\<close>, \<open>self_test.rs\<close>.  \<open>Session\<close>: the rest of
      \<open>commands/capture.rs\<close> and the log level of \<open>main.rs\<close>.  \<open>Listeners\<close>: \<open>commands/listeners.rs\<close>.
    \<^item> \<open>Provenance\<close>: the kernel's runs and the worker's loop together, where a line of output comes from.
      \<open>Entry\<close>: \<open>main.rs\<close>, \<open>logging.rs\<close> and the build task \<open>xtask/src/main.rs\<close>.
    \<^item> \<open>Segments\<close>: a record cut into TCP segments, through the classifier and the worker.
    \<^item> \<open>Parser_Tests\<close>, \<open>Reasm_Tests\<close>, \<open>Correlate_Tests\<close>, \<open>Ja4_Tests\<close>, \<open>Cli_Tests\<close>: the unit tests of the crates, each
      translated under its own name and proved to pass on the model, as a check of the definitions
      against what their authors expect.
    \<^item> This theory: the path of a ClientHello, whole or in pieces, from the wire to the output.

  \<^bold>\<open>What is shown.\<close>  Parsers never panic, and give back what was encoded; the classifier puts exactly
  one capture on the ring buffer for each packet it accepts, or counts it; the drain task loses
  nothing in silence; reassembly is sound, and complete for segments in any order, so that a hello
  of up to three segments comes out as one event from the wire on; the worker
  survives every input, accounts for every capture, and joins the hellos of a connection whatever
  comes between; no line of output is made up, and no process is named on it that did not own the
  connection; the correlator's and the reassembler's invariants hold in every reachable state;
  the spool refines an abstract spool and keeps every line; attribution, startup and shutdown do
  what they promise.  Several properties state where the code does not do what its documents say:
  they hold of the code as it is.

  \<^bold>\<open>Bounds.\<close>  Integers have the width of the code where they wrap (\<open>word\<close>); lengths and indices are \<open>nat\<close>,
  being bounded by memory.  Loops are structural recursions or have a measure; the record walk
  stops after 4 records, a cgroup tree is walked as deep as it is.  Two loops may run for ever, the
  wait of the self-test and the supervision of a capture; they are partial functions, and it is
  proved when they return.  The code's own limits are in the model: 4096 payload bytes per capture,
  the reassembler's flows, segments and timeout, 8192 pending hellos for 10 seconds, 1000 captures
  in the channel, 8 KiB of buffer in \<open>BufWriter\<close>, a flush at 64 KiB or after 250 ms.

  \<^bold>\<open>Parameters.\<close>  Code that is not in the repository is an argument: SHA-256, the X.509 decoder, the RFC
  3339 printer, \<open>serde_json\<close>, aya, the BPF helpers and the eviction of LRU maps, the iteration order of
  hash maps, clocks, \<open>uname\<close>, the file systems, cargo.  Where a property relies on one of them, the documented
  behaviour is a hypothesis (\<open>lru_insert_ok\<close>, \<open>legal_event\<close>, \<open>iter_ok\<close>, \<open>clock_ok\<close>, \<open>readdir_ok\<close>) that a witness meets.

  \<^bold>\<open>Not modelled.\<close>  Log messages; argument parsing (clap); the readiness of the
  ring buffer's file descriptor, which only decides when the drain task runs; the scheduling of the
  asynchronous runtime beyond the interleavings of \<open>pipe_step\<close>; the verifier's view of the eBPF code;
  classifier runs that overlap on several processors; the unit tests of logging and of the
  JSON schema, which test a child process, \<open>tracing\<close> and \<open>serde_json\<close>; the smoke test, benchmark and deployment scripts
  and policies.
\<close>

section \<open>From the wire to the output\<close>

text \<open>What the worker reports of a ClientHello with the usual extensions.\<close>

lemma offers_reported:
  assumes p: "p = enc_client_hello hdr lv random sid cs cm xs"
    and hello: "hello_sizes hdr random sid xs" "2 * length cs < 65536" "length cm < 256"
      "xs = before @ offer_exts host groups sigs (v # vs) shares protos @ after" "other_exts before" "other_exts after"
      "offers_fit host groups sigs (v # vs) shares protos"
  obtains rv h where "parse_tls_payload p True = Ret (ClientHelloA rv h)"
    "\<And>sha now c. ev_sni (build_analysis sha now c (ClientHelloA rv h)) = from_utf8 host"
    "\<And>sha now c. map cd_id (ev_cipher_suites (build_analysis sha now c (ClientHelloA rv h))) = cs"
    "\<And>sha now c. map cd_id (ev_key_exchange_groups (build_analysis sha now c (ClientHelloA rv h))) = groups"
    "\<And>sha now c. ev_tls_version (build_analysis sha now c (ClientHelloA rv h)) = tls_version_str v"
proof -
  have len: "9 \<le> length p"
    using p hello(1) by (simp add: enc_client_hello_def hello_sizes_def)
  obtain hl where hl: "parse_client_hello p = Ret hl" "ch_cipher_suites hl = cs" "ch_sni hl = from_utf8 host"
    "ch_supported_groups hl = groups" "\<And>rv. effective_version (ClientHelloA rv hl) = v"
    using client_offers_parsed [OF hello, of lv] p by auto
  obtain rv where "parse_tls_payload p True = Ret (ClientHelloA rv hl)"
    using len hl(1) by (simp add: parse_tls_payload_def hello_lens rd16_in)
  then show thesis
    using hl(2-5) that by (simp add: build_analysis_def code_infos_def comp_def split: prod.split)
qed

text \<open>The capture of a frame whose segment starts with a ClientHello record.\<close>

lemma hello_frame_capture:
  assumes "frame_ok f" "f_tls f ! 0 = 0x16" "f_tls f ! 5 = 1" "length (f_tls f) \<le> 4096"
    and "c = frame_capture now e f info"
  shows "cap_is_client_hello c" "content_type c = 0x16" "payload_slice c = f_tls f"
    "partial_capture c = (length (f_tls f) < record_length (f_tls f))"
    "ci_pid info \<noteq> 0 \<Longrightarrow> event_of c ev \<Longrightarrow>
       ev_src ev = endpoint (dotted (if e then f_src f else f_dst f)) (if e then f_sport f else f_dport f) \<and>
       ev_dst ev = endpoint (dotted (if e then f_dst f else f_src f)) (if e then f_dport f else f_sport f) \<and>
       ev_timestamp_ns ev = now \<and> ev_pid ev = Some (ci_pid info)"
proof -
  note facts = frame_event_facts [OF assms(1,4) assms(5) [unfolded frame_capture_def]]
  show "cap_is_client_hello c" "content_type c = 0x16" "payload_slice c = f_tls f"
    using assms(2,3) by (simp_all add: facts cap_is_client_hello_def hdr_consts hs_type_defs)
  show "partial_capture c = (length (f_tls f) < record_length (f_tls f))"
    by (simp add: assms(5) partial_by_flags head_flags)
  assume "ci_pid info \<noteq> 0" "event_of c ev"
  then show "ev_src ev = endpoint (dotted (if e then f_src f else f_dst f)) (if e then f_sport f else f_dport f) \<and>
       ev_dst ev = endpoint (dotted (if e then f_dst f else f_src f)) (if e then f_dport f else f_sport f) \<and>
       ev_timestamp_ns ev = now \<and> ev_pid ev = Some (ci_pid info)"
    by (simp add: event_of_def facts process_attribution_def)
qed

text \<open>The worker's answer to a ClientHello capture that parses.\<close>

lemma client_hello_sent:
  assumes "\<not> partial_capture c" "cap_is_client_hello c" "content_type c = 0x16" "w_accepts w = None"
    and parse: "parse_tls_payload (payload_slice c) True = Ret (ClientHelloA rv h)"
  shows "\<exists>w' ev. handle_capture d en c w = Ret (ToSweep, w') \<and> w_lines w' = w_lines w @ [json_line d ev] \<and>
    enriched (build_analysis (d_sha d) (en_utc en) c (ClientHelloA rv h)) ev \<and> event_of c ev"
proof -
  let ?ev = "build_analysis (d_sha d) (en_utc en) c (ClientHelloA rv h)"
  let ?w = "w\<lparr>w_corr := snd (on_client_hello (en_iter en) (en_now_ns en) (conn_key_of c) (ClientHelloA rv h) (w_corr w))\<rparr>"
  have an: "analyze_capture (d_sha d) (en_utc en) c = Ret ?ev"
    using assms(2,3) parse by (simp add: analyze_capture_def analyze_capture_with_payload_def)
  then have ev: "event_of c ?ev"
    using analyze_ensures [of "d_sha d" "en_utc en" c "payload_slice c"] by (simp add: analyze_capture_def ensures_def)
  obtain ctl w' where f: "finish_event d en c ?ev ?w = (ctl, w')"
    by fastforce
  have "handle_capture d en c w = Ret (ctl, w')"
    using assms(1,2) by (simp add: direct_step process_direct_def an note_client_hello_def parse f)
  then show ?thesis
    using finish_event_effect(4) [OF f _ ev] assms(4) by auto
qed


text \<open>One process, from its \<open>connect\<close> to the line of output.\<close>

definition hello_frame :: Frame4 where
  "hello_frame = sample_frame\<lparr>f_tls :=
     enc_client_hello [0x16, 3, 1, 0, 97, 1, 0, 0, 93] 0x0303 (replicate 32 7) [] [0x1301] [0]
       ([] @ offer_exts [97] [0x11EC] [0x0804] [0x0304] [(0x11EC, [1])] [] @ [])\<rparr>"

lemma hello_frame_facts:
  "frame_ok hello_frame" "length (f_tls hello_frame) = 102"
  "local_key True hello_frame = v4_key [10, 0, 0, 1] [10, 0, 0, 2] 40000 443"
  by (simp_all add: hello_frame_def sample_frame_def frame_ok_def enc_client_hello_def enc_u16s_def offer_exts_def
      enc_exts_def enc_ext_def enc_sni_def enc_list16_def enc_list8_def enc_shares_def enc_alpn_def enc_protos_def
      local_key_def)

lemma hello_frame_sizes:
  "hello_sizes [0x16, 3, 1, 0, 97, 1, 0, 0, 93] (replicate 32 7) []
     ([] @ offer_exts [97] [0x11EC] [0x0804] [0x0304] [(0x11EC, [1])] [] @ [])"
  "offers_fit [97] [0x11EC] [0x0804] [0x0304] [(0x11EC, [1])] []"
  using sample_sizes(2) by (simp_all add: hello_sizes_def offers_fit_def exts_fit_def enc_exts_def enc_ext_def enc_protos_def)

lemma sample_info:
  "length (ci_comm (current_conn_info sample_task)) = 16" "ci_pid (current_conn_info sample_task) = 42"
  by (simp_all add: current_conn_info_def sample_task_def)


section \<open>A ClientHello in pieces\<close>


text \<open>The hello of the earlier example, cut after 60 bytes.\<close>

definition hello_head :: Frame4 where
  "hello_head = hello_frame\<lparr>f_tls := take 60 (f_tls hello_frame)\<rparr>"

definition hello_tail :: Frame4 where
  "hello_tail = hello_frame\<lparr>f_seq := f_seq hello_frame + 60, f_tls := drop 60 (f_tls hello_frame)\<rparr>"

lemma hello_cut: "cut_record hello_head [drop 60 (f_tls hello_frame)] [(sample_hook, hello_tail)]"
proof -
  have "f_tls hello_frame ! 3 = 0" "f_tls hello_frame ! 4 = 97" "f_seq hello_frame = 0xDEADBEEF"
    by (simp_all add: hello_frame_def enc_client_hello_def sample_frame_def)
  moreover have "f_tls hello_frame \<noteq> []"
    using hello_frame_facts(2) by auto
  ultimately show ?thesis
    using hello_frame_facts(1,2) by (simp add: cut_record_def hello_head_def hello_tail_def no_wrap_def record_length_def be16_def
        same_flow_def hook_ok_def sample_hook_def frame_ok_def)
qed


end
